(* ===== verification/Prelude.thy ===== *)
theory Prelude
  imports Main "HOL-Library.Word"
begin

text \<open>
  Shared vocabulary of the development: the machine integer types of the C
  sources, the Cortex-M bit instructions the kernel is built on (\<open>CLZ\<close>, \<open>RBIT\<close>
  and the bit-band accesses of \<open>arch/cortex-m3.h\<close>), signed comparison of 32-bit
  differences, the store-exclusive retry loop, and the generic lemmas the
  component theories use through the collections \<open>kernel_simps\<close> (unfolding of
  the kernel primitives) and \<open>handler_defs\<close> (definitions of the handlers).
\<close>

unbundle bit_operations_syntax

named_theorems kernel_simps \<open>effect of the kernel primitives on the fields of the run time block\<close>
named_theorems handler_defs \<open>definitions of the system call handlers\<close>

type_synonym u8 = "8 word"
type_synonym u32 = "32 word"

section \<open>Bit instructions\<close>

primrec clz_scan :: "nat \<Rightarrow> u32 \<Rightarrow> nat" where
  "clz_scan 0 w = 0"
| "clz_scan (Suc k) w = (if bit w k then 0 else Suc (clz_scan k w))"

text \<open>\<open>CLZ\<close>: the number of zero bits above the most significant set bit, 32 for 0.\<close>
definition clz :: "u32 \<Rightarrow> nat" where
  "clz w = clz_scan 32 w"

text \<open>\<open>RBIT\<close>: reverses the order of the 32 bits.\<close>
definition rbit :: "u32 \<Rightarrow> u32" where
  "rbit w = word_reverse w"

text \<open>Bit-band write and read of bit \<open>n\<close> of one word (\<open>__bit_mem_wr\<close>, \<open>__bit_mem_rd\<close>).\<close>
definition bit_mem_wr :: "u32 \<Rightarrow> nat \<Rightarrow> bool \<Rightarrow> u32" where
  "bit_mem_wr w n v = (if v then set_bit n w else unset_bit n w)"

definition bit_mem_rd :: "u32 \<Rightarrow> nat \<Rightarrow> bool" where
  "bit_mem_rd w n = bit w n"

text \<open>The reference the two instructions are compared with: scanning upwards.\<close>
primrec ctz_scan :: "nat \<Rightarrow> nat \<Rightarrow> u32 \<Rightarrow> nat" where
  "ctz_scan 0 n w = n"
| "ctz_scan (Suc k) n w = (if bit w n then n else ctz_scan k (Suc n) w)"

definition ctz :: "u32 \<Rightarrow> nat" where
  "ctz w = ctz_scan 32 0 w"

section \<open>The retry loop of an exclusive access\<close>

text \<open>
  \<open>do { ... } while (__strex(...))\<close>: one pass of the body yields whether it has
  to be repeated and the state reached. The list holds what interferes with the
  successive passes; when it is exhausted the body runs undisturbed (\<open>q0\<close>).
\<close>
fun retry :: "('q \<Rightarrow> 's \<Rightarrow> bool \<times> 's) \<Rightarrow> 'q \<Rightarrow> 'q list \<Rightarrow> 's \<Rightarrow> 's" where
  "retry body q0 [] s = snd (body q0 s)"
| "retry body q0 (q # qs) s =
     (case body q s of (again, s') \<Rightarrow> if again then retry body q0 qs s' else s')"

section \<open>Lemmas\<close>

lemma clz_scan_le: "clz_scan k w \<le> k"
  by (induction k) auto

lemma clz_scan_full: "clz_scan k w = k \<longleftrightarrow> (\<forall>m<k. \<not> bit w m)"
proof (induction k)
  case (Suc k)
  then show ?case using clz_scan_le [of k w] by (auto simp: less_Suc_eq)
qed simp

lemma clz_scan_bit: "clz_scan k w < k \<Longrightarrow> bit w (k - Suc (clz_scan k w))"
  by (induction k) auto

lemma clz_scan_above: "m < k \<Longrightarrow> k - Suc (clz_scan k w) < m \<Longrightarrow> \<not> bit w m"
proof (induction k)
  case (Suc k)
  then show ?case by (cases "m = k") (auto split: if_splits)
qed simp

lemma clz_scan_unique:
  "n < k \<Longrightarrow> bit w n \<Longrightarrow> (\<And>m. n < m \<Longrightarrow> m < k \<Longrightarrow> \<not> bit w m) \<Longrightarrow> clz_scan k w = k - Suc n"
proof (induction k)
  case (Suc k)
  then show ?case
    by (cases "n = k") (auto simp: Suc_diff_Suc)
qed simp

lemma ctz_scan_spec:
  "ctz_scan k n w \<le> n + k \<and> (\<forall>m. n \<le> m \<longrightarrow> m < ctz_scan k n w \<longrightarrow> \<not> bit w m)
   \<and> n \<le> ctz_scan k n w \<and> (ctz_scan k n w < n + k \<longrightarrow> bit w (ctz_scan k n w))"
proof (induction k arbitrary: n)
  case (Suc k)
  show ?case
    using Suc.IH [of "Suc n"] by (auto simp: Suc_le_eq) (metis le_neq_implies_less)+
qed auto

lemma ctz_le: "ctz w \<le> 32"
  and ctz_min: "m < ctz w \<Longrightarrow> \<not> bit w m"
  and ctz_bit: "ctz w < 32 \<Longrightarrow> bit w (ctz w)"
  using ctz_scan_spec [of 32 0 w] by (auto simp: ctz_def)

lemma word_eq_0_bits: "w = (0 :: u32) \<longleftrightarrow> (\<forall>n<32. \<not> bit w n)"
  by (auto intro: bit_word_eqI)

lemma bit_less_32: "bit (w :: u32) n \<Longrightarrow> n < 32"
  using bit_imp_le_length [of w n] by simp

lemma rbit_bit: "bit (rbit w) n \<longleftrightarrow> n < 32 \<and> bit w (31 - n)"
  by (simp add: rbit_def bit_word_reverse_iff)

text \<open>The idiom \<open>__clz(__rbit(w))\<close> finds the least significant set bit.\<close>
lemma clz_rbit: "clz (rbit w) = ctz w"
proof (cases "ctz w < 32")
  case True
  have "clz_scan 32 (rbit w) = 32 - Suc (31 - ctz w)"
  proof (rule clz_scan_unique)
    show "bit (rbit w) (31 - ctz w)"
      using True ctz_bit by (simp add: rbit_bit)
    show "\<not> bit (rbit w) m" if "31 - ctz w < m" "m < 32" for m
      using that True ctz_min [of "31 - m" w] by (auto simp: rbit_bit)
  qed (use True in simp)
  then show ?thesis using True by (simp add: clz_def)
next
  case False
  then have "ctz w = 32" using ctz_le [of w] by simp
  then have "\<forall>m<32. \<not> bit (rbit w) m"
    using ctz_min [of _ w] by (auto simp: rbit_bit)
  then show ?thesis
    using \<open>ctz w = 32\<close> clz_scan_full [of 32 "rbit w"] by (simp add: clz_def)
qed

lemma ctz_eq_32: "ctz w = 32 \<longleftrightarrow> w = 0"
proof
  show "ctz w = 32 \<Longrightarrow> w = 0"
    using ctz_min [of _ w] by (auto simp: word_eq_0_bits)
  show "w = 0 \<Longrightarrow> ctz w = 32"
    using ctz_le [of w] ctz_bit [of w] by (cases "ctz w < 32") auto
qed

lemma ctz_less_32: "ctz w < 32 \<longleftrightarrow> w \<noteq> 0"
  using ctz_eq_32 [of w] ctz_le [of w] by auto

lemma ctz_0 [simp]: "ctz 0 = 32"
  by (simp add: ctz_eq_32)

lemma ctz_unique: "bit w n \<Longrightarrow> (\<And>m. m < n \<Longrightarrow> \<not> bit w m) \<Longrightarrow> ctz w = n"
  by (metis bit_less_32 ctz_bit ctz_less_32 ctz_min nat_neq_iff word_eq_0_bits)

lemma ctz_le_bit: "bit w n \<Longrightarrow> ctz w \<le> n"
  using ctz_min [of n w] by (cases "ctz w \<le> n") auto

lemma bit_mem_wr_bit [simp]:
  "bit (bit_mem_wr w n v) m \<longleftrightarrow> (if m = n then v \<and> n < 32 else bit w m)"
  by (auto simp: bit_mem_wr_def bit_simps dest: bit_less_32)

lemma bit_mem_wr_same [simp]: "bit w n = v \<Longrightarrow> bit_mem_wr w n v = w"
  by (rule bit_word_eqI) (auto dest: bit_less_32)

lemma bit_mem_wr_twice [simp]: "bit_mem_wr (bit_mem_wr w n u) n v = bit_mem_wr w n v"
  by (rule bit_word_eqI) auto

lemma bit_mem_wr_commute:
  "n \<noteq> m \<Longrightarrow> bit_mem_wr (bit_mem_wr w n u) m v = bit_mem_wr (bit_mem_wr w m v) n u"
  by (rule bit_word_eqI) auto

text \<open>A bitmap as the set of its members.\<close>
definition bitset :: "u32 \<Rightarrow> nat set" where
  "bitset w = {n. bit w n}"

lemma bitset_iff [simp]: "n \<in> bitset w \<longleftrightarrow> bit w n"
  by (simp add: bitset_def)

lemma bitset_code [code]: "bitset w = set (filter (bit w) [0..<32])"
  by (auto dest: bit_less_32)

lemma bitset_finite [simp]: "finite (bitset w)"
proof (rule finite_subset)
  show "bitset w \<subseteq> {..<32}" by (auto dest: bit_less_32)
qed simp

lemma bitset_put: "n < 32 \<Longrightarrow> bitset (bit_mem_wr w n True) = insert n (bitset w)"
  and bitset_clear: "bitset (bit_mem_wr w n False) = bitset w - {n}"
  by (auto split: if_splits)

lemma bitset_card_put: "n < 32 \<Longrightarrow> \<not> bit w n \<Longrightarrow> card (bitset (bit_mem_wr w n True)) = Suc (card (bitset w))"
  and bitset_card_clear: "bit w n \<Longrightarrow> Suc (card (bitset (bit_mem_wr w n False))) = card (bitset w)"
  using card_Suc_Diff1 [of "bitset w" n] by (simp_all add: bitset_put bitset_clear)

lemma bitset_ctz: "w \<noteq> 0 \<Longrightarrow> ctz w \<in> bitset w"
  and bitset_ctz_min: "w \<noteq> 0 \<Longrightarrow> ctz w = Min (bitset w)"
proof -
  assume w: "w \<noteq> 0"
  then show m: "ctz w \<in> bitset w" by (simp add: ctz_bit ctz_less_32)
  show "ctz w = Min (bitset w)"
    using m by (intro Min_eqI [symmetric]) (auto intro: ctz_le_bit)
qed

lemma bitset_empty: "bitset w = {} \<longleftrightarrow> w = 0"
  by (metis bitset_ctz bitset_iff bit_0_eq bot_apply bot_bool_def empty_iff equals0I)

lemma bitset_inject: "bitset v = bitset w \<longleftrightarrow> v = w"
  by (auto simp: bitset_def set_eq_iff intro: bit_word_eqI)

lemma bitset_single: "n < 32 \<Longrightarrow> bitset (push_bit n 1) = {n}"
  by (auto simp: bitset_def bit_push_bit_iff bit_1_iff simp del: push_bit_of_1)

text \<open>A loop whose undisturbed pass does not repeat ends in the state of a last pass.\<close>
lemma retry_induct:
  assumes "I s"
    and step: "\<And>q s s'. I s \<Longrightarrow> body q s = (True, s') \<Longrightarrow> I s'"
    and fin: "\<And>q s s'. I s \<Longrightarrow> body q s = (False, s') \<Longrightarrow> Q s'"
    and quiet: "\<And>s. I s \<Longrightarrow> \<not> fst (body q0 s)"
  shows "Q (retry body q0 qs s)"
  using \<open>I s\<close>
proof (induction qs arbitrary: s)
  case Nil
  then show ?case using quiet [of s] fin [of s q0] by (cases "body q0 s") auto
next
  case (Cons q qs)
  then show ?case using step [of s q] fin [of s q] by (cases "body q s") auto
qed


lemma retry_cong:
  assumes "I s"
    and "\<And>q s. q \<in> set (q0 # qs) \<Longrightarrow> I s \<Longrightarrow> b1 q s = b2 q s \<and> I (snd (b2 q s))"
  shows "retry b1 q0 qs s = retry b2 q0 qs s"
  using assms
proof (induction qs arbitrary: s)
  case (Cons q qs)
  have "retry b1 q0 qs s' = retry b2 q0 qs s'" if "I s'" for s'
  proof (rule Cons.IH [OF that])
    fix p t
    assume "p \<in> set (q0 # qs)" "I t"
    then show "b1 p t = b2 p t \<and> I (snd (b2 p t))"
      using Cons.prems(2) [of p t] by auto
  qed
  then show ?case
    using Cons.prems(2) [of q s] Cons.prems(1) by (cases "b2 q s") auto
qed simp

end
