(* ===== verification/Console_Pipe.thy ===== *)
theory Console_Pipe
  imports Prelude
begin

text \<open>
  The two ring buffers of the console (\<open>thinkos_console.c\<close>): free running
  32-bit \<open>head\<close> and \<open>tail\<close> counters over a 64-byte array. The reading and
  writing routines copy in one or two pieces, depending on whether the block
  wraps around the end of the array. Bytes handed to or taken from the caller
  are lists and functions of the offset into the caller's buffer. The checks under
  \<open>ENABLE_CONSOLE_DEBUG\<close> (the tail counter above \<open>0x40000000\<close>, a count above the buffer length, a
  commit of another length than the last block offered) only call \<open>__THINKOS_ERROR\<close>, which is empty because
  \<open>THINKOS_ENABLE_ERROR_TRAP\<close> is 0 by default; they change nothing and are left out.
\<close>

definition THINKOS_CONSOLE_FIFO_LEN :: nat where
  [simp]: "THINKOS_CONSOLE_FIFO_LEN = 64"

record console_pipe =
  head :: u32
  tail :: u32
  buf :: "u8 list"

text \<open>\<open>__thinkos_memcpy\<close> into an array at \<open>pos\<close>.\<close>
definition memcpy_at :: "nat \<Rightarrow> 'a list \<Rightarrow> 'a list \<Rightarrow> 'a list" where
  "memcpy_at pos xs b = take pos b @ xs @ drop (pos + length xs) b"

definition rx_pipe_read :: "u32 \<Rightarrow> console_pipe \<Rightarrow> u8 list \<times> console_pipe" where
  "rx_pipe_read len p =
     (let t = tail p; mx = head p - t in
      if mx = 0 then ([], p)
      else
        let cnt = min mx len; c = unat cnt;
            pos = unat t mod THINKOS_CONSOLE_FIFO_LEN;
            out = (if pos + c > THINKOS_CONSOLE_FIFO_LEN
                   then let n = THINKOS_CONSOLE_FIFO_LEN - pos; m = c - n
                        in take n (drop pos (buf p)) @ take m (buf p)
                   else take c (drop pos (buf p)))
        in (out, p\<lparr>tail := t + cnt\<rparr>))"

definition tx_pipe_write :: "(nat \<Rightarrow> u8) \<Rightarrow> u32 \<Rightarrow> console_pipe \<Rightarrow> u32 \<times> console_pipe" where
  "tx_pipe_write cp len p =
     (let h = head p; t = tail p; mx = t + of_nat THINKOS_CONSOLE_FIFO_LEN - h in
      if mx = 0 then (0, p)
      else
        let cnt = min mx len; c = unat cnt;
            pos = unat h mod THINKOS_CONSOLE_FIFO_LEN;
            b = (if pos + c > THINKOS_CONSOLE_FIFO_LEN
                 then let n = THINKOS_CONSOLE_FIFO_LEN - pos; m = c - n
                      in memcpy_at 0 (map (\<lambda>i. cp (n + i)) [0..<m])
                           (memcpy_at pos (map cp [0..<n]) (buf p))
                 else memcpy_at pos (map cp [0..<c]) (buf p))
        in (cnt, p\<lparr>buf := b, head := h + cnt\<rparr>))"

definition tx_pipe_isfull :: "console_pipe \<Rightarrow> bool" where
  "tx_pipe_isfull p \<longleftrightarrow> tail p + of_nat THINKOS_CONSOLE_FIFO_LEN = head p"

definition tx_pipe_isempty :: "console_pipe \<Rightarrow> bool" where
  "tx_pipe_isempty p \<longleftrightarrow> tail p = head p"

text \<open>
  \<open>__console_tx_pipe_ptr\<close>: the contiguous block the driver may send, as position
  in the array and length; \<open>__console_rx_pipe_ptr\<close>: the contiguous free block.
\<close>
definition console_tx_pipe_ptr :: "console_pipe \<Rightarrow> nat \<times> nat" where
  "console_tx_pipe_ptr p =
     (let pos = unat (tail p) mod THINKOS_CONSOLE_FIFO_LEN;
          cnt = unat (head p - tail p)
      in (pos, if pos + cnt > THINKOS_CONSOLE_FIFO_LEN then THINKOS_CONSOLE_FIFO_LEN - pos else cnt))"

definition console_rx_pipe_ptr :: "console_pipe \<Rightarrow> nat \<times> nat" where
  "console_rx_pipe_ptr p =
     (let pos = unat (head p) mod THINKOS_CONSOLE_FIFO_LEN;
          cnt = unat (tail p + of_nat THINKOS_CONSOLE_FIFO_LEN - head p)
      in (pos, if pos + cnt > THINKOS_CONSOLE_FIFO_LEN then THINKOS_CONSOLE_FIFO_LEN - pos else cnt))"

section \<open>Invariant and abstraction to a bounded queue\<close>

definition pipe_inv :: "console_pipe \<Rightarrow> bool" where
  "pipe_inv p \<longleftrightarrow> length (buf p) = THINKOS_CONSOLE_FIFO_LEN
     \<and> unat (head p - tail p) \<le> THINKOS_CONSOLE_FIFO_LEN"

text \<open>The bytes in the pipe, oldest first.\<close>
definition pipe_abs :: "console_pipe \<Rightarrow> u8 list" where
  "pipe_abs p = map (\<lambda>i. buf p ! ((unat (tail p) + i) mod THINKOS_CONSOLE_FIFO_LEN))
                    [0..<unat (head p - tail p)]"

section \<open>Copying in two pieces\<close>

lemma ring_read:
  assumes "length b = 64" "pos < 64" "c \<le> 64"
  shows "(if pos + c > 64 then take (64 - pos) (drop pos b) @ take (c - (64 - pos)) b else take c (drop pos b))
    = map (\<lambda>i. b ! ((pos + i) mod 64)) [0..<c]"
proof (rule nth_equalityI)
  show "length (if pos + c > 64 then take (64 - pos) (drop pos b) @ take (c - (64 - pos)) b else take c (drop pos b))
    = length (map (\<lambda>i. b ! ((pos + i) mod 64)) [0..<c])"
    using assms by auto
  fix i
  assume "i < length (if pos + c > 64 then take (64 - pos) (drop pos b) @ take (c - (64 - pos)) b else take c (drop pos b))"
  then have i: "i < c" using assms by (auto split: if_splits)
  show "(if pos + c > 64 then take (64 - pos) (drop pos b) @ take (c - (64 - pos)) b else take c (drop pos b)) ! i
    = map (\<lambda>i. b ! ((pos + i) mod 64)) [0..<c] ! i"
  proof (cases "pos + i < 64")
    case True
    then have "i < 64 - pos" by linarith
    then show ?thesis using True assms i by (simp add: nth_append)
  next
    case False
    then have "(pos + i) mod 64 = i - (64 - pos)" "pos + c > 64" "\<not> i < 64 - pos"
      using assms i by (auto simp: mod_if)
    then show ?thesis using assms i by (simp add: nth_append)
  qed
qed

lemma memcpy_at_length: "pos + length xs \<le> length b \<Longrightarrow> length (memcpy_at pos xs b) = length b"
  by (simp add: memcpy_at_def)

lemma memcpy_at_nth:
  assumes "pos + length xs \<le> length b" "j < length b"
  shows "memcpy_at pos xs b ! j = (if pos \<le> j \<and> j < pos + length xs then xs ! (j - pos) else b ! j)"
proof -
  consider (l) "j < pos" | (m) "pos \<le> j" "j < pos + length xs" | (r) "pos + length xs \<le> j" by linarith
  then show ?thesis
  proof cases
    case l
    then show ?thesis using assms by (simp add: memcpy_at_def nth_append)
  next
    case m
    then have "j - pos < length xs" by linarith
    then show ?thesis using m assms by (simp add: memcpy_at_def nth_append)
  next
    case r
    then have "\<not> j - pos < length xs" by linarith
    then show ?thesis using r assms by (simp add: memcpy_at_def nth_append)
  qed
qed

text \<open>The array after a write of \<open>c\<close> bytes at \<open>pos\<close>; \<open>k\<close> counts from the position.\<close>
lemma ring_write:
  assumes len: "length b = 64" and pos: "pos < 64" and c: "c \<le> 64"
    and b': "b' = (if pos + c > 64 then memcpy_at 0 (map (\<lambda>i. cp (64 - pos + i)) [0..<c - (64 - pos)]) (memcpy_at pos (map cp [0..<64 - pos]) b)
            else memcpy_at pos (map cp [0..<c]) b)"
  shows "length b' = 64" and "k < 64 \<Longrightarrow> b' ! ((pos + k) mod 64) = (if k < c then cp k else b ! ((pos + k) mod 64))"
proof -
  show "length b' = 64" using len pos c unfolding b' by (simp add: memcpy_at_length)
  assume k: "k < 64"
  define j where "j = (pos + k) mod 64"
  have j: "j < 64" "j = (if pos + k < 64 then pos + k else pos + k - 64)"
    using pos k by (simp_all add: j_def mod_if)
  show "b' ! ((pos + k) mod 64) = (if k < c then cp k else b ! ((pos + k) mod 64))"
    unfolding j_def [symmetric]
  proof (cases "pos + c > 64")
    case False
    then have e: "b' ! j = (if pos \<le> j \<and> j < pos + c then map cp [0..<c] ! (j - pos) else b ! j)"
      unfolding b' using len pos c j(1) by (simp add: memcpy_at_nth)
    show "b' ! j = (if k < c then cp k else b ! j)"
    proof (cases "k < c")
      case True
      then have "j = pos + k" using False j(2) by simp
      then show ?thesis unfolding e using True by simp
    next
      case k2: False
      then have "\<not> (pos \<le> j \<and> j < pos + c)" using j(2) k by auto
      then show ?thesis unfolding e using k2 by auto
    qed
  next
    case True
    define b1 where "b1 = memcpy_at pos (map cp [0..<64 - pos]) b"
    have l1: "length b1 = 64" using len pos by (simp add: b1_def memcpy_at_length)
    have "b' = memcpy_at 0 (map (\<lambda>i. cp (64 - pos + i)) [0..<c - (64 - pos)]) b1"
      using b' True by (simp add: b1_def)
    then have e: "b' ! j = (if j < c - (64 - pos) then map (\<lambda>i. cp (64 - pos + i)) [0..<c - (64 - pos)] ! j else b1 ! j)"
      using l1 c j(1) by (simp add: memcpy_at_nth)
    have e1: "b1 ! j = (if pos \<le> j then map cp [0..<64 - pos] ! (j - pos) else b ! j)"
      unfolding b1_def using len pos j(1) by (simp add: memcpy_at_nth)
    show "b' ! j = (if k < c then cp k else b ! j)"
    proof (cases "pos + k < 64")
      case k1: True
      then have "j = pos + k" "\<not> j < c - (64 - pos)" "k < c" using j(2) pos c True by auto
      then show ?thesis unfolding e e1 using k1 by simp
    next
      case k1: False
      then have "64 - pos + j = k" "j < pos" "(j < c - (64 - pos)) = (k < c)" using j(2) k pos c True by auto
      then show ?thesis unfolding e e1 by auto
    qed
  qed
qed

text \<open>The counters run freely over 32 bits; the array length divides their range.\<close>
lemma counter_mod: "unat (a + b :: u32) mod 64 = (unat a + unat b) mod 64"
proof -
  have "unat (a + b) = (unat a + unat b) mod 2 ^ 32" by (simp add: unat_word_ariths)
  also have "\<dots> mod 64 = (unat a + unat b) mod 64" by (rule mod_mod_cancel) simp
  finally show ?thesis .
qed

lemma counter_sub: "unat b \<le> unat a \<Longrightarrow> unat (a - b :: u32) = unat a - unat b"
  by (simp add: unat_sub word_le_nat_alt)

lemma pipe_abs_length [simp]: "length (pipe_abs p) = unat (head p - tail p)"
  by (simp add: pipe_abs_def)

lemma pipe_abs_nth:
  "i < unat (head p - tail p) \<Longrightarrow> pipe_abs p ! i = buf p ! ((unat (tail p) + i) mod 64)"
  by (simp add: pipe_abs_def)

text \<open>Advancing the tail drops the oldest bytes.\<close>
lemma pipe_drop:
  assumes "unat n \<le> unat (head p - tail p)"
  shows "pipe_abs (p\<lparr>tail := tail p + n\<rparr>) = drop (unat n) (pipe_abs p)"
    and "pipe_inv p \<Longrightarrow> pipe_inv (p\<lparr>tail := tail p + n\<rparr>)"
proof -
  have d: "unat (head p - (tail p + n)) = unat (head p - tail p) - unat n"
    using counter_sub [OF assms] by (simp add: diff_diff_eq)
  show "pipe_abs (p\<lparr>tail := tail p + n\<rparr>) = drop (unat n) (pipe_abs p)"
  proof (rule nth_equalityI)
    fix i
    assume "i < length (pipe_abs (p\<lparr>tail := tail p + n\<rparr>))"
    then have i: "i < unat (head p - tail p) - unat n" by (simp add: d)
    have "(unat (tail p + n) + i) mod 64 = (unat (tail p) + (unat n + i)) mod 64"
    proof -
      have "(unat (tail p + n) + i) mod 64 = (unat (tail p + n) mod 64 + i) mod 64" by (rule mod_add_left_eq [symmetric])
      also have "\<dots> = ((unat (tail p) + unat n) mod 64 + i) mod 64" by (simp only: counter_mod)
      also have "\<dots> = (unat (tail p) + unat n + i) mod 64" by (rule mod_add_left_eq)
      finally show ?thesis by (simp only: add.assoc)
    qed
    then show "pipe_abs (p\<lparr>tail := tail p + n\<rparr>) ! i = drop (unat n) (pipe_abs p) ! i"
      using i d by (simp add: pipe_abs_nth)
  qed (simp add: d)
  show "pipe_inv p \<Longrightarrow> pipe_inv (p\<lparr>tail := tail p + n\<rparr>)" using d by (auto simp: pipe_inv_def)
qed

text \<open>Advancing the head over bytes stored at the head position appends them.\<close>
lemma pipe_append:
  assumes inv: "pipe_inv p" and n: "unat (head p - tail p) + unat n \<le> 64" and len: "length b = 64"
    and put: "\<And>k. k < 64 \<Longrightarrow> b ! ((unat (head p) mod 64 + k) mod 64) = (if k < unat n then cp k else buf p ! ((unat (head p) mod 64 + k) mod 64))"
  shows "pipe_abs (p\<lparr>buf := b, head := head p + n\<rparr>) = pipe_abs p @ map cp [0..<unat n]"
    and "pipe_inv (p\<lparr>buf := b, head := head p + n\<rparr>)"
proof -
  let ?u = "unat (head p - tail p)"
  have e: "head p + n - tail p = (head p - tail p) + n" by simp
  have u: "unat (head p + n - tail p) = ?u + unat n"
    unfolding e using n by (subst unat_add_lem [THEN iffD1]) simp_all
  have h: "unat (head p) mod 64 = (unat (tail p) + ?u) mod 64"
    using counter_mod [of "tail p" "head p - tail p"] by simp
  show "pipe_inv (p\<lparr>buf := b, head := head p + n\<rparr>)" using n len u by (simp add: pipe_inv_def)
  show "pipe_abs (p\<lparr>buf := b, head := head p + n\<rparr>) = pipe_abs p @ map cp [0..<unat n]"
  proof (rule nth_equalityI)
    fix i
    assume "i < length (pipe_abs (p\<lparr>buf := b, head := head p + n\<rparr>))"
    then have i: "i < ?u + unat n" by (simp add: u)
    show "pipe_abs (p\<lparr>buf := b, head := head p + n\<rparr>) ! i = (pipe_abs p @ map cp [0..<unat n]) ! i"
    proof (cases "i < ?u")
      case True
      let ?k = "64 - ?u + i"
      have m: "(unat (head p) mod 64 + ?k) mod 64 = (unat (tail p) + i) mod 64"
      proof -
        have "(unat (head p) mod 64 + ?k) mod 64 = (unat (tail p) + ?u + ?k) mod 64"
          unfolding h by (simp add: mod_add_left_eq)
        also have "unat (tail p) + ?u + ?k = unat (tail p) + i + 64" using n by simp
        finally show ?thesis by simp
      qed
      have "?k < 64" "\<not> ?k < unat n" using True n by linarith+
      then have "b ! ((unat (tail p) + i) mod 64) = buf p ! ((unat (tail p) + i) mod 64)"
        using put [of ?k] unfolding m by simp
      then show ?thesis using True i u by (simp add: pipe_abs_nth nth_append)
    next
      case False
      define k where "k = i - ?u"
      have k: "i = ?u + k" "k < unat n" using False i by (simp_all add: k_def)
      have m: "(unat (head p) mod 64 + k) mod 64 = (unat (tail p) + i) mod 64"
        unfolding h k(1) by (simp add: mod_add_left_eq add.assoc)
      have "b ! ((unat (tail p) + i) mod 64) = cp k"
        using put [of k] k(2) n unfolding m by simp
      then show ?thesis using k u by (simp add: pipe_abs_nth nth_append)
    qed
  qed (simp add: u)
qed


section \<open>The pipe as a bounded queue\<close>

lemma rx_pipe_read_spec:
  assumes "pipe_inv p" "rx_pipe_read len p = (xs, p')"
  shows "pipe_inv p' \<and> xs = take (unat len) (pipe_abs p) \<and> pipe_abs p' = drop (unat len) (pipe_abs p)"
proof (cases "head p - tail p = 0")
  case True
  then show ?thesis using assms by (simp add: rx_pipe_read_def pipe_abs_def Let_def)
next
  case False
  define cnt where "cnt = min (head p - tail p) len"
  let ?u = "unat (head p - tail p)"
  have c: "unat cnt = min ?u (unat len)" by (simp add: cnt_def min_def word_le_nat_alt)
  have u: "?u \<le> 64" "length (buf p) = 64" using assms(1) by (simp_all add: pipe_inv_def)
  have "unat cnt \<le> 64" using c u(1) by simp
  note ring = ring_read [OF u(2) _ this, of "unat (tail p) mod 64"]
  have "rx_pipe_read len p = (map (\<lambda>i. buf p ! ((unat (tail p) mod 64 + i) mod 64)) [0..<unat cnt], p\<lparr>tail := tail p + cnt\<rparr>)"
    unfolding rx_pipe_read_def Let_def THINKOS_CONSOLE_FIFO_LEN_def cnt_def [symmetric] if_not_P [OF False]
    by (subst ring) simp_all
  then have e: "p' = p\<lparr>tail := tail p + cnt\<rparr>"
    and xs: "xs = map (\<lambda>i. buf p ! ((unat (tail p) mod 64 + i) mod 64)) [0..<unat cnt]"
    using assms(2) by simp_all
  have "xs = take (unat cnt) (pipe_abs p)"
    using c by (intro nth_equalityI) (simp_all add: xs pipe_abs_nth mod_add_left_eq)
  moreover have "take (unat cnt) (pipe_abs p) = take (unat len) (pipe_abs p)"
    "drop (unat cnt) (pipe_abs p) = drop (unat len) (pipe_abs p)"
    using c by (simp_all add: min_def)
  ultimately show ?thesis
    using pipe_drop [of cnt p] assms(1) c by (simp add: e)
qed

lemma tx_pipe_write_spec:
  assumes "pipe_inv p" "tx_pipe_write cp len p = (n, p')"
  shows "pipe_inv p' \<and> unat n = min (unat len) (64 - length (pipe_abs p)) \<and> pipe_abs p' = pipe_abs p @ map cp [0..<unat n]"
proof -
  let ?u = "unat (head p - tail p)"
  have u: "?u \<le> 64" "length (buf p) = 64" using assms(1) by (simp_all add: pipe_inv_def)
  define mx where "mx = tail p + 64 - head p"
  have "mx = 64 - (head p - tail p)" by (simp add: mx_def)
  then have m: "unat mx = 64 - ?u" using u(1) counter_sub [of "head p - tail p" 64] by simp
  show ?thesis
  proof (cases "mx = 0")
    case True
    then have "tx_pipe_write cp len p = (0, p)" by (simp add: tx_pipe_write_def mx_def)
    then show ?thesis using assms True m by auto
  next
    case False
    have n64: "tail p + of_nat 64 - head p = mx" by (simp add: mx_def)
    define cnt where "cnt = min mx len"
    define b' where "b' = (if unat (head p) mod 64 + unat cnt > 64
        then memcpy_at 0 (map (\<lambda>i. cp (64 - unat (head p) mod 64 + i)) [0..<unat cnt - (64 - unat (head p) mod 64)])
               (memcpy_at (unat (head p) mod 64) (map cp [0..<64 - unat (head p) mod 64]) (buf p))
        else memcpy_at (unat (head p) mod 64) (map cp [0..<unat cnt]) (buf p))"
    have "tx_pipe_write cp len p = (cnt, p\<lparr>buf := b', head := head p + cnt\<rparr>)"
      unfolding tx_pipe_write_def Let_def THINKOS_CONSOLE_FIFO_LEN_def n64 if_not_P [OF False] cnt_def [symmetric] b'_def ..
    then have n: "n = cnt" and p': "p' = p\<lparr>buf := b', head := head p + n\<rparr>" using assms(2) by simp_all
    have c: "unat n = min (unat len) (64 - ?u)" using m by (simp add: n cnt_def min_def word_le_nat_alt)
    have c64: "unat cnt \<le> 64" using c n by simp
    note w = ring_write [OF u(2) _ c64 b'_def]
    have "pipe_abs p' = pipe_abs p @ map cp [0..<unat n]" "pipe_inv p'"
      unfolding p' using w c u n by (intro pipe_append [OF assms(1)]; simp)+
    then show ?thesis using c by simp
  qed
qed

text \<open>
  The driver side of the two pipes: a driver sends \<open>n\<close> bytes of the block
  \<^const>\<open>console_tx_pipe_ptr\<close> offers and commits them, or stores received bytes
  in the block \<^const>\<open>console_rx_pipe_ptr\<close> offers.
\<close>
definition tx_drain :: "u32 \<Rightarrow> console_pipe \<Rightarrow> u8 list \<times> console_pipe" where
  "tx_drain n p =
     (let (pos, cnt) = console_tx_pipe_ptr p; k = min (unat n) cnt
      in (take k (drop pos (buf p)), p\<lparr>tail := tail p + of_nat k\<rparr>))"

definition rx_fill :: "(nat \<Rightarrow> u8) \<Rightarrow> u32 \<Rightarrow> console_pipe \<Rightarrow> u32 \<times> console_pipe" where
  "rx_fill cp n p =
     (let (pos, cnt) = console_rx_pipe_ptr p; k = min (unat n) cnt
      in (of_nat k, p\<lparr>buf := memcpy_at pos (map cp [0..<k]) (buf p), head := head p + of_nat k\<rparr>))"


lemma tx_drain_spec:
  assumes "pipe_inv p" "tx_drain n p = (xs, p')"
  shows "pipe_inv p' \<and> length xs \<le> unat n \<and> pipe_abs p = xs @ pipe_abs p'
    \<and> (0 < unat n \<longrightarrow> pipe_abs p \<noteq> [] \<longrightarrow> xs \<noteq> [])"
proof -
  let ?u = "unat (head p - tail p)" and ?pos = "unat (tail p) mod 64"
  have u: "?u \<le> 64" "length (buf p) = 64" using assms(1) by (simp_all add: pipe_inv_def)
  define k where "k = min (unat n) (min ?u (64 - ?pos))"
  have "console_tx_pipe_ptr p = (?pos, min ?u (64 - ?pos))"
    by (auto simp: console_tx_pipe_ptr_def Let_def)
  then have e: "xs = take k (drop ?pos (buf p))" "p' = p\<lparr>tail := tail p + of_nat k\<rparr>"
    using assms(2) by (simp_all add: tx_drain_def k_def Let_def)
  have k: "k \<le> ?u" "?pos + k \<le> 64" "k \<le> unat n" by (auto simp: k_def)
  have uk: "unat (of_nat k :: u32) = k" using k(1) u(1) by (simp add: unat_of_nat)
  have "(unat (tail p) + i) mod 64 = ?pos + i" if "i < k" for i
    using that k(2) mod_add_left_eq [of "unat (tail p)" 64 i] by simp
  then have xs: "xs = take k (pipe_abs p)"
    using k u by (intro nth_equalityI) (simp_all add: e(1) pipe_abs_nth)
  have "pipe_abs p' = drop k (pipe_abs p)" "pipe_inv p'"
    using pipe_drop [of "of_nat k" p] k(1) assms(1) by (simp_all add: e(2) uk)
  moreover have "0 < k" if "0 < unat n" "pipe_abs p \<noteq> []"
    using that mod_less_divisor [of 64 "unat (tail p)"] by (auto simp: k_def pipe_abs_def)
  ultimately show ?thesis using xs k by (auto simp: take_eq_Nil)
qed

lemma rx_fill_spec:
  assumes "pipe_inv p" "rx_fill cp n p = (m, p')"
  shows "pipe_inv p' \<and> unat m \<le> unat n \<and> pipe_abs p' = pipe_abs p @ map cp [0..<unat m]
    \<and> (0 < unat n \<longrightarrow> length (pipe_abs p) < 64 \<longrightarrow> 0 < unat m)"
proof -
  let ?u = "unat (head p - tail p)" and ?pos = "unat (head p) mod 64"
  have u: "?u \<le> 64" "length (buf p) = 64" using assms(1) by (simp_all add: pipe_inv_def)
  have "tail p + of_nat 64 - head p = 64 - (head p - tail p)" by simp
  then have f: "unat (tail p + of_nat 64 - head p) = 64 - ?u"
    using u(1) counter_sub [of "head p - tail p" 64] by (simp only:) simp
  define k where "k = min (unat n) (min (64 - ?u) (64 - ?pos))"
  have "console_rx_pipe_ptr p = (?pos, min (64 - ?u) (64 - ?pos))"
    unfolding console_rx_pipe_ptr_def Let_def THINKOS_CONSOLE_FIFO_LEN_def f by auto
  then have e: "m = of_nat k" "p' = p\<lparr>buf := memcpy_at ?pos (map cp [0..<k]) (buf p), head := head p + of_nat k\<rparr>"
    using assms(2) by (auto simp: rx_fill_def k_def Let_def)
  have k: "?u + k \<le> 64" "?pos + k \<le> 64" "k \<le> unat n" using u(1) by (auto simp: k_def)
  have uk: "unat (of_nat k :: u32) = k" using k(1) by (simp add: unat_of_nat)
  have "\<not> 64 < ?pos + k" "k \<le> 64" using k by simp_all
  note w = ring_write [OF u(2) _ this(2), of ?pos "memcpy_at ?pos (map cp [0..<k]) (buf p)" cp, simplified if_not_P [OF this(1)], OF _ refl]
  have "pipe_abs p' = pipe_abs p @ map cp [0..<unat m]" "pipe_inv p'"
    unfolding e using w k uk u by (intro pipe_append [OF assms(1)]; simp)+
  moreover have "0 < k" if "0 < unat n" "?u < 64"
    using that mod_less_divisor [of 64 "unat (head p)"] by (auto simp: k_def)
  ultimately show ?thesis using k uk by (auto simp: e(1))
qed


section \<open>The interface of a pipe\<close>

datatype fifo_op = Put "nat \<Rightarrow> u8" u32 | Get u32

text \<open>A sequence of operations: the bytes accepted, the bytes delivered and the final state.\<close>
primrec fifo_run ::
  "((nat \<Rightarrow> u8) \<Rightarrow> u32 \<Rightarrow> 'p \<Rightarrow> u32 \<times> 'p) \<Rightarrow> (u32 \<Rightarrow> 'p \<Rightarrow> u8 list \<times> 'p) \<Rightarrow> fifo_op list \<Rightarrow> 'p \<Rightarrow> u8 list \<times> u8 list \<times> 'p" where
  "fifo_run put get [] p = ([], [], p)"
| "fifo_run put get (x # xs) p =
     (case x of
        Put cp len \<Rightarrow> (case put cp len p of (n, p') \<Rightarrow>
          case fifo_run put get xs p' of (a, d, p'') \<Rightarrow> (map cp [0..<unat n] @ a, d, p''))
      | Get len \<Rightarrow> (case get len p of (ys, p') \<Rightarrow>
          case fifo_run put get xs p' of (a, d, p'') \<Rightarrow> (a, ys @ d, p'')))"

text \<open>
  What the console services and the drivers rely on: bytes come out in the order
  they went in, a put makes progress while there is room and a get while there
  are bytes.
\<close>
locale byte_fifo =
  fixes put :: "(nat \<Rightarrow> u8) \<Rightarrow> u32 \<Rightarrow> 'p \<Rightarrow> u32 \<times> 'p"
    and get :: "u32 \<Rightarrow> 'p \<Rightarrow> u8 list \<times> 'p"
    and contents :: "'p \<Rightarrow> u8 list"
    and ok :: "'p \<Rightarrow> bool"
    and cap :: nat
  assumes put: "ok p \<Longrightarrow> put cp len p = (n, p') \<Longrightarrow> ok p' \<and> unat n \<le> unat len
      \<and> contents p' = contents p @ map cp [0..<unat n] \<and> (0 < unat len \<longrightarrow> length (contents p) < cap \<longrightarrow> 0 < unat n)"
    and get: "ok p \<Longrightarrow> get len p = (xs, p') \<Longrightarrow> ok p' \<and> length xs \<le> unat len
      \<and> contents p = xs @ contents p' \<and> (0 < unat len \<longrightarrow> contents p \<noteq> [] \<longrightarrow> xs \<noteq> [])"
    and bounded: "ok p \<Longrightarrow> length (contents p) \<le> cap"
begin

lemma stream:
  "ok p \<Longrightarrow> fifo_run put get xs p = (a, d, p') \<Longrightarrow> ok p' \<and> contents p @ a = d @ contents p'"
proof (induction xs arbitrary: p a d p')
  case (Cons x xs)
  show ?case
  proof (cases x)
    case (Put cp len)
    obtain n q where q: "put cp len p = (n, q)" by (cases "put cp len p") auto
    obtain a' d' q' where r: "fifo_run put get xs q = (a', d', q')" by (rule prod_cases3)
    have o: "ok q" "contents q = contents p @ map cp [0..<unat n]" using put [OF Cons.prems(1) q] by simp_all
    have "a = map cp [0..<unat n] @ a'" "d = d'" "p' = q'" using Cons.prems(2) Put q r by simp_all
    then show ?thesis using Cons.IH [OF o(1) r] o(2) by simp
  next
    case (Get len)
    obtain ys q where q: "get len p = (ys, q)" by (cases "get len p") auto
    obtain a' d' q' where r: "fifo_run put get xs q = (a', d', q')" by (rule prod_cases3)
    have o: "ok q" "contents p = ys @ contents q" using get [OF Cons.prems(1) q] by simp_all
    have "a = a'" "d = ys @ d'" "p' = q'" using Cons.prems(2) Get q r by simp_all
    then show ?thesis using Cons.IH [OF o(1) r] o(2) by simp
  qed
qed auto

text \<open>Getting often enough empties the pipe.\<close>
lemma drained:
  "ok p \<Longrightarrow> 0 < unat len \<Longrightarrow> length (contents p) \<le> m \<Longrightarrow> fifo_run put get (replicate m (Get len)) p = (a, d, p') \<Longrightarrow>
   a = [] \<and> d = contents p \<and> contents p' = []"
proof (induction m arbitrary: p a d p')
  case (Suc m)
  obtain ys q where q: "get len p = (ys, q)" by (cases "get len p") auto
  obtain a' d' q' where r: "fifo_run put get (replicate m (Get len)) q = (a', d', q')"
    by (rule prod_cases3)
  have g: "ok q" "contents p = ys @ contents q" "contents p = [] \<or> ys \<noteq> []"
    using get [OF Suc.prems(1) q] Suc.prems(2) by blast+
  have "length ys + length (contents q) \<le> Suc m" using Suc.prems(3) by (simp add: g(2))
  moreover have "contents q = [] \<or> 0 < length ys" using g(2,3) by auto
  ultimately have "length (contents q) \<le> m" by (elim disjE) (simp, linarith)
  note IH = Suc.IH [OF g(1) Suc.prems(2) this r]
  have "a = a'" "d = ys @ d'" "p' = q'" using Suc.prems(4) q r by simp_all
  then show ?case using IH g(2) by simp
qed simp

end

interpretation tx: byte_fifo tx_pipe_write tx_drain pipe_abs pipe_inv 64
proof
  show "pipe_inv p \<Longrightarrow> tx_pipe_write cp len p = (n, p') \<Longrightarrow> pipe_inv p' \<and> unat n \<le> unat len
      \<and> pipe_abs p' = pipe_abs p @ map cp [0..<unat n] \<and> (0 < unat len \<longrightarrow> length (pipe_abs p) < 64 \<longrightarrow> 0 < unat n)" for p cp len n p'
    using tx_pipe_write_spec [of p cp len n p'] by auto
  show "pipe_inv p \<Longrightarrow> tx_drain len p = (xs, p') \<Longrightarrow> pipe_inv p' \<and> length xs \<le> unat len
      \<and> pipe_abs p = xs @ pipe_abs p' \<and> (0 < unat len \<longrightarrow> pipe_abs p \<noteq> [] \<longrightarrow> xs \<noteq> [])" for p len xs p'
    by (rule tx_drain_spec)
qed (simp add: pipe_inv_def)

interpretation rx: byte_fifo rx_fill rx_pipe_read pipe_abs pipe_inv 64
proof
  show "pipe_inv p \<Longrightarrow> rx_pipe_read len p = (xs, p') \<Longrightarrow> pipe_inv p' \<and> length xs \<le> unat len
      \<and> pipe_abs p = xs @ pipe_abs p' \<and> (0 < unat len \<longrightarrow> pipe_abs p \<noteq> [] \<longrightarrow> xs \<noteq> [])" for p len xs p'
    using rx_pipe_read_spec [of p len xs p'] by auto
  show "pipe_inv p \<Longrightarrow> rx_fill cp len p = (n, p') \<Longrightarrow> pipe_inv p' \<and> unat n \<le> unat len
      \<and> pipe_abs p' = pipe_abs p @ map cp [0..<unat n] \<and> (0 < unat len \<longrightarrow> length (pipe_abs p) < 64 \<longrightarrow> 0 < unat n)" for p cp len n p'
    by (rule rx_fill_spec)
qed (simp add: pipe_inv_def)

text \<open>
  C35. With the error trap off, as configured by default, both console pipes are bounded first-in first-out queues of bytes, for all values of the
  counters, the wrap around at 32 bits included, and also when the driver commits less than the block it was offered: for every sequence of writes by
  threads and reads by the driver, or receptions by the driver and reads by
  threads, the bytes delivered followed by those still in the pipe are the bytes
  in the pipe at the start followed by those accepted, and there are never more
  than 64 of them.
\<close>
theorem console_pipe_stream:
  assumes "pipe_inv p"
  shows "(case fifo_run tx_pipe_write tx_drain ops p of (a, d, p') \<Rightarrow>
      pipe_abs p @ a = d @ pipe_abs p' \<and> length (pipe_abs p') \<le> THINKOS_CONSOLE_FIFO_LEN)
    \<and> (case fifo_run rx_fill rx_pipe_read ops p of (a, d, p') \<Rightarrow>
      pipe_abs p @ a = d @ pipe_abs p' \<and> length (pipe_abs p') \<le> THINKOS_CONSOLE_FIFO_LEN)"
proof (rule conjI)
  obtain a d p' where t: "fifo_run tx_pipe_write tx_drain ops p = (a, d, p')" by (rule prod_cases3)
  show "case fifo_run tx_pipe_write tx_drain ops p of (a, d, p') \<Rightarrow>
      pipe_abs p @ a = d @ pipe_abs p' \<and> length (pipe_abs p') \<le> THINKOS_CONSOLE_FIFO_LEN"
    using tx.stream [OF assms t] tx.bounded [of p'] by (simp add: t)
  obtain a d p' where r: "fifo_run rx_fill rx_pipe_read ops p = (a, d, p')" by (rule prod_cases3)
  show "case fifo_run rx_fill rx_pipe_read ops p of (a, d, p') \<Rightarrow>
      pipe_abs p @ a = d @ pipe_abs p' \<and> length (pipe_abs p') \<le> THINKOS_CONSOLE_FIFO_LEN"
    using rx.stream [OF assms r] rx.bounded [of p'] by (simp add: r)
qed


text \<open>A pipe whose head is about to wrap, with one byte in it.\<close>
definition pipe_example :: console_pipe where
  "pipe_example = \<lparr>head = 0xffffffff, tail = 0xfffffffe, buf = replicate 64 7\<rparr>"

theorem console_pipe_stream_witness:
  "pipe_abs pipe_example = [7]
   \<and> (case fifo_run tx_pipe_write tx_drain [Put of_nat 5, Get 3, Get 9] pipe_example of (a, d, p') \<Rightarrow> [7] @ a = d @ pipe_abs p')
   \<and> (case fifo_run rx_fill rx_pipe_read [Put of_nat 5, Get 3] pipe_example of (a, d, p') \<Rightarrow> [7] @ a = d @ pipe_abs p')"
proof -
  have e: "pipe_abs pipe_example = [7]" by (simp add: pipe_abs_def pipe_example_def)
  have "pipe_inv pipe_example" by (simp add: pipe_inv_def pipe_example_def)
  note s = console_pipe_stream [OF this, unfolded e]
  show ?thesis
    using e s [of "[Put of_nat 5, Get 3, Get 9]", THEN conjunct1] s [of "[Put of_nat 5, Get 3]", THEN conjunct2]
    by (simp only: split_def simp_thms)
qed

end
