(* ===== verification/Kernel.thy ===== *)
theory Kernel
  imports Console_Pipe
begin

text \<open>
  The run time block of the kernel and the support functions every service is
  written with (\<open>thinkos/kernel.h\<close>). The configuration is the default one of
  \<open>kernel.h\<close> with the C scheduler, the monitor, the console and the timed
  interrupt wait enabled. Arrays are functions of the index; the wait queues
  \<open>wq_ready\<close>, \<open>wq_tmshare\<close>, \<open>wq_mutex[]\<close>, ... are entries of \<open>wq_lst\<close>, as in
  the C structure, where the code relies on \<open>wq_lst[0]\<close> being \<open>wq_ready\<close>.
  Besides the C fields the record holds the machine state the services touch:
  the word memory of the thread stacks, the pending bit of PendSV, the NVIC
  enable and pending bits and priorities, the bits of the debug monitor, the
  process stack pointer and the callee saved registers; \<open>bkpt\<close> records the last
  \<open>BKPT\<close> instruction executed by the kernel. The ghost bit \<open>wild\<close> is raised by every access through a null
  context pointer and every access outside the array it indexes. What such a store
  hits depends on the memory layout and is not modelled: a state with \<open>wild\<close> set says
  that this has happened and nothing else about the memory of the kernel, and no
  property relies on its other fields. The macro \<open>__THINKOS_ERROR\<close> is empty, because
  \<open>THINKOS_ENABLE_ERROR_TRAP\<close> is 0 by default, so the checks that only report an error
  through it have no counterpart in the definitions.
\<close>

section \<open>Configuration and constants\<close>

definition THINKOS_THREADS_MAX :: nat where [simp]: "THINKOS_THREADS_MAX = 8"
definition THINKOS_MUTEX_MAX :: nat where [simp]: "THINKOS_MUTEX_MAX = 8"
definition THINKOS_COND_MAX :: nat where [simp]: "THINKOS_COND_MAX = 8"
definition THINKOS_SEMAPHORE_MAX :: nat where [simp]: "THINKOS_SEMAPHORE_MAX = 8"
definition THINKOS_EVENT_MAX :: nat where [simp]: "THINKOS_EVENT_MAX = 4"
definition THINKOS_FLAG_MAX :: nat where [simp]: "THINKOS_FLAG_MAX = 8"
definition THINKOS_GATE_MAX :: nat where [simp]: "THINKOS_GATE_MAX = 8"
definition THINKOS_IRQ_MAX :: nat where [simp]: "THINKOS_IRQ_MAX = 80"
definition THINKOS_SCHED_LIMIT_MAX :: nat where [simp]: "THINKOS_SCHED_LIMIT_MAX = 32"
definition THINKOS_SCHED_LIMIT_MIN :: nat where [simp]: "THINKOS_SCHED_LIMIT_MIN = 1"

definition THINKOS_THREAD_NULL :: nat where [simp]: "THINKOS_THREAD_NULL = 32"
definition THINKOS_THREAD_IDLE :: nat where [simp]: "THINKOS_THREAD_IDLE = THINKOS_THREADS_MAX"
definition THINKOS_THREAD_VOID :: nat where [simp]: "THINKOS_THREAD_VOID = THINKOS_THREADS_MAX + 1"

text \<open>Index of each wait queue in \<open>wq_lst\<close>: the offsets of the members of the structure.\<close>
definition THINKOS_WQ_READY :: nat where [simp]: "THINKOS_WQ_READY = 0"
definition THINKOS_WQ_TMSHARE :: nat where "THINKOS_WQ_TMSHARE = THINKOS_WQ_READY + 1"
definition THINKOS_WQ_CLOCK :: nat where "THINKOS_WQ_CLOCK = THINKOS_WQ_TMSHARE + 1"
definition THINKOS_MUTEX_BASE :: nat where "THINKOS_MUTEX_BASE = THINKOS_WQ_CLOCK + 1"
definition THINKOS_COND_BASE :: nat where
  "THINKOS_COND_BASE = THINKOS_MUTEX_BASE + THINKOS_MUTEX_MAX"
definition THINKOS_SEM_BASE :: nat where
  "THINKOS_SEM_BASE = THINKOS_COND_BASE + THINKOS_COND_MAX"
definition THINKOS_EVENT_BASE :: nat where
  "THINKOS_EVENT_BASE = THINKOS_SEM_BASE + THINKOS_SEMAPHORE_MAX"
definition THINKOS_FLAG_BASE :: nat where
  "THINKOS_FLAG_BASE = THINKOS_EVENT_BASE + THINKOS_EVENT_MAX"
definition THINKOS_GATE_BASE :: nat where
  "THINKOS_GATE_BASE = THINKOS_FLAG_BASE + THINKOS_FLAG_MAX"
definition THINKOS_JOIN_BASE :: nat where
  "THINKOS_JOIN_BASE = THINKOS_GATE_BASE + THINKOS_GATE_MAX"
definition THINKOS_WQ_CONSOLE_WR :: nat where
  "THINKOS_WQ_CONSOLE_WR = THINKOS_JOIN_BASE + THINKOS_THREADS_MAX"
definition THINKOS_WQ_CONSOLE_RD :: nat where
  "THINKOS_WQ_CONSOLE_RD = THINKOS_WQ_CONSOLE_WR + 1"
definition THINKOS_WQ_PAUSED :: nat where "THINKOS_WQ_PAUSED = THINKOS_WQ_CONSOLE_RD + 1"
definition THINKOS_WQ_CANCELED :: nat where "THINKOS_WQ_CANCELED = THINKOS_WQ_PAUSED + 1"
definition THINKOS_WQ_IRQ :: nat where "THINKOS_WQ_IRQ = THINKOS_WQ_CANCELED + 1"
definition THINKOS_WQ_LST_END :: nat where "THINKOS_WQ_LST_END = THINKOS_WQ_IRQ + 1"

text \<open>Return codes (\<open>thinkos.h\<close>), as they appear in \<open>r0\<close>.\<close>
definition THINKOS_OK :: u32 where [simp]: "THINKOS_OK = 0"
definition THINKOS_ETIMEDOUT :: u32 where [simp]: "THINKOS_ETIMEDOUT = -1"
definition THINKOS_EINTR :: u32 where [simp]: "THINKOS_EINTR = -2"
definition THINKOS_EINVAL :: u32 where [simp]: "THINKOS_EINVAL = -3"
definition THINKOS_EAGAIN :: u32 where [simp]: "THINKOS_EAGAIN = -4"
definition THINKOS_EDEADLK :: u32 where [simp]: "THINKOS_EDEADLK = -5"
definition THINKOS_EPERM :: u32 where [simp]: "THINKOS_EPERM = -6"
definition THINKOS_ENOSYS :: u32 where [simp]: "THINKOS_ENOSYS = -7"
definition THINKOS_EFAULT :: u32 where [simp]: "THINKOS_EFAULT = -8"
definition THINKOS_ENOMEM :: u32 where [simp]: "THINKOS_ENOMEM = -9"
definition THINKOS_EBADF :: u32 where [simp]: "THINKOS_EBADF = -10"

section \<open>The run time block\<close>

record console_rt =
  open_cnt :: u8
  connected :: bool
  tx_last_cnt :: "16 word"
  tx_pipe :: console_pipe
  rx_pipe :: console_pipe

text \<open>The part of the exception buffer (\<open>struct thinkos_except\<close>) the kernel decides on.\<close>
record except_buf =
  x_xpsr :: u32
  x_ipsr :: u8
  x_active :: int
  x_type :: u8
  x_unroll :: u8

record thinkos_rt =
  ctx :: "nat \<Rightarrow> u32"
  critical_cnt :: u32
  active :: nat
  wq_lst :: "nat \<Rightarrow> u32"
  th_stat :: "nat \<Rightarrow> nat"
  sched_val :: "nat \<Rightarrow> u8"
  sched_pri :: "nat \<Rightarrow> u8"
  sched_limit :: u32
  ticks :: u32
  clock :: "nat \<Rightarrow> u32"
  sem_val :: "nat \<Rightarrow> u32"
  ev_pend :: "nat \<Rightarrow> u32"
  ev_mask :: "nat \<Rightarrow> u32"
  flag :: u32
  gate :: u32
  lock :: "nat \<Rightarrow> int"
  irq_th :: "nat \<Rightarrow> nat"
  th_alloc :: u32
  mutex_alloc :: u32
  cond_alloc :: u32
  sem_alloc :: u32
  ev_alloc :: u32
  flag_alloc :: u32
  gate_alloc :: u32
  th_inf :: "nat \<Rightarrow> u32"
  console :: console_rt
  dbgmon_events :: u32
  dbgmon_mask :: u32
  dbgmon_ctx :: u32
  dbgmon_comm :: u32
  dbgmon_task :: u32
  dbgmon_param :: u32
  xcpt :: except_buf
  irq_en_lst :: "nat \<Rightarrow> u8"
  nvic_ie :: "nat \<Rightarrow> u32"
  mon_en :: bool
  mon_pend :: bool
  mon_req :: bool
  mem :: "u32 \<Rightarrow> u32"
  umem :: "u32 \<Rightarrow> u8"
  pendsv :: bool
  irq_en :: "nat \<Rightarrow> bool"
  irq_pnd :: "nat \<Rightarrow> bool"
  irq_pri :: "nat \<Rightarrow> nat"
  exc_pri :: "nat \<Rightarrow> nat"
  systick_on :: bool
  bkpt :: "nat option"
  shcsr :: u32
  scr :: u32
  ccr :: u32
  control :: u32
  primask :: bool
  msp :: u32
  psp :: u32
  regs :: "nat \<Rightarrow> u32"
  wild :: bool

text \<open>The block as the reset code leaves it: all memory cleared.\<close>
definition pipe_clear :: console_pipe where
  "pipe_clear = \<lparr>head = 0, tail = 0, buf = replicate 64 0\<rparr>"

definition console_clear :: console_rt where
  "console_clear = \<lparr>open_cnt = 0, connected = False, tx_last_cnt = 0,
     tx_pipe = pipe_clear, rx_pipe = pipe_clear\<rparr>"

definition except_clear :: except_buf where
  "except_clear = \<lparr>x_xpsr = 0, x_ipsr = 0, x_active = 0, x_type = 0, x_unroll = 0\<rparr>"

definition rt_clear :: thinkos_rt where
  "rt_clear = \<lparr>ctx = (\<lambda>_. 0), critical_cnt = 0, active = 0, wq_lst = (\<lambda>_. 0), th_stat = (\<lambda>_. 0),
     sched_val = (\<lambda>_. 0), sched_pri = (\<lambda>_. 0), sched_limit = 0, ticks = 0, clock = (\<lambda>_. 0),
     sem_val = (\<lambda>_. 0), ev_pend = (\<lambda>_. 0), ev_mask = (\<lambda>_. 0), flag = 0, gate = 0,
     lock = (\<lambda>_. 0), irq_th = (\<lambda>_. 0), th_alloc = 0, mutex_alloc = 0, cond_alloc = 0,
     sem_alloc = 0, ev_alloc = 0, flag_alloc = 0, gate_alloc = 0, th_inf = (\<lambda>_. 0),
     console = console_clear, dbgmon_events = 0, dbgmon_mask = 0, dbgmon_ctx = 0, dbgmon_comm = 0, dbgmon_task = 0,
     dbgmon_param = 0, xcpt = except_clear, irq_en_lst = (\<lambda>_. 0), nvic_ie = (\<lambda>_. 0), mon_en = False, mon_pend = False, mon_req = False,
     mem = (\<lambda>_. 0), umem = (\<lambda>_. 0), pendsv = False, irq_en = (\<lambda>_. False),
     irq_pnd = (\<lambda>_. False), irq_pri = (\<lambda>_. 0), exc_pri = (\<lambda>_. 0), systick_on = False,
     bkpt = None, shcsr = 0, scr = 0, ccr = 0, control = 0, primask = False, msp = 0, psp = 0, regs = (\<lambda>_. 0), wild = False\<rparr>"

type_synonym svc_handler = "u32 \<Rightarrow> nat \<Rightarrow> thinkos_rt \<Rightarrow> thinkos_rt"

abbreviation wq_ready :: "thinkos_rt \<Rightarrow> u32" where "wq_ready rt \<equiv> wq_lst rt 0"
abbreviation wq_tmshare :: "thinkos_rt \<Rightarrow> u32" where "wq_tmshare rt \<equiv> wq_lst rt 1"
abbreviation wq_clock :: "thinkos_rt \<Rightarrow> u32" where "wq_clock rt \<equiv> wq_lst rt 2"
abbreviation wq_paused :: "thinkos_rt \<Rightarrow> u32" where "wq_paused rt \<equiv> wq_lst rt THINKOS_WQ_PAUSED"
abbreviation wq_canceled :: "thinkos_rt \<Rightarrow> u32" where "wq_canceled rt \<equiv> wq_lst rt THINKOS_WQ_CANCELED"

section \<open>Memory and machine primitives\<close>

text \<open>Word \<open>i\<close> of the exception frame at \<open>arg\<close>: \<open>arg[i]\<close>.\<close>
definition arg_ld :: "thinkos_rt \<Rightarrow> u32 \<Rightarrow> nat \<Rightarrow> u32" where
  "arg_ld rt arg i = mem rt (arg + 4 * of_nat i)"

definition mem_st :: "u32 \<Rightarrow> u32 \<Rightarrow> thinkos_rt \<Rightarrow> thinkos_rt" where
  "mem_st a v rt = rt\<lparr>mem := (mem rt)(a := v)\<rparr>"

text \<open>\<open>arg[0] = v\<close>: the value the system call returns.\<close>
definition arg_ret :: "u32 \<Rightarrow> u32 \<Rightarrow> thinkos_rt \<Rightarrow> thinkos_rt" where
  "arg_ret arg v rt = mem_st arg v rt"

text \<open>Byte offsets of the members of \<open>struct thinkos_context\<close> (no FPU); \<open>CTX_R0\<close> counts words.\<close>
definition CTX_R0 :: nat where [simp]: "CTX_R0 = 8"
definition CTX_PC :: nat where [simp]: "CTX_PC = 14"
definition CTX_SIZE :: nat where [simp]: "CTX_SIZE = 16"

text \<open>\<open>ctx[th]->r0 = v\<close>.\<close>
definition ctx_r0_st :: "nat \<Rightarrow> u32 \<Rightarrow> thinkos_rt \<Rightarrow> thinkos_rt" where
  "ctx_r0_st th v rt =
     (if ctx rt th = 0 then rt\<lparr>wild := True\<rparr> else mem_st (ctx rt th + 4 * of_nat CTX_R0) v rt)"

text \<open>\<open>ctx[self] = (struct thinkos_context *)&arg[-CTX_R0]\<close>.\<close>
definition ctx_save :: "nat \<Rightarrow> u32 \<Rightarrow> thinkos_rt \<Rightarrow> thinkos_rt" where
  "ctx_save th arg rt = rt\<lparr>ctx := (ctx rt)(th := arg - 4 * of_nat CTX_R0)\<rparr>"

text \<open>Write to \<open>th_stat[th]\<close>, an array with one entry per thread.\<close>
definition th_stat_st :: "nat \<Rightarrow> nat \<Rightarrow> thinkos_rt \<Rightarrow> thinkos_rt" where
  "th_stat_st th v rt =
     rt\<lparr>th_stat := (th_stat rt)(th := v), wild := (wild rt \<or> THINKOS_THREADS_MAX \<le> th)\<rparr>"

definition cm3_irq_enable :: "nat \<Rightarrow> thinkos_rt \<Rightarrow> thinkos_rt" where
  "cm3_irq_enable irq rt = rt\<lparr>irq_en := (irq_en rt)(irq := True)\<rparr>"

definition cm3_irq_disable :: "nat \<Rightarrow> thinkos_rt \<Rightarrow> thinkos_rt" where
  "cm3_irq_disable irq rt = rt\<lparr>irq_en := (irq_en rt)(irq := False)\<rparr>"

definition cm3_irq_pend_clr :: "nat \<Rightarrow> thinkos_rt \<Rightarrow> thinkos_rt" where
  "cm3_irq_pend_clr irq rt = rt\<lparr>irq_pnd := (irq_pnd rt)(irq := False)\<rparr>"

text \<open>Signals of the monitor (\<open>thinkos_dbgmon.c\<close>).\<close>
definition DBGMON_RX_PIPE :: nat where [simp]: "DBGMON_RX_PIPE = 3"
definition DBGMON_TX_PIPE :: nat where [simp]: "DBGMON_TX_PIPE = 4"
definition DBGMON_IDLE :: nat where [simp]: "DBGMON_IDLE = 30"

definition dbgmon_signal :: "nat \<Rightarrow> thinkos_rt \<Rightarrow> thinkos_rt" where
  "dbgmon_signal sig rt =
     rt\<lparr>dbgmon_events := bit_mem_wr (dbgmon_events rt) sig True, mon_pend := True\<rparr>"

definition dbgmon_signal_idle :: "thinkos_rt \<Rightarrow> thinkos_rt" where
  "dbgmon_signal_idle rt =
     (if mon_req rt
      then rt\<lparr>dbgmon_events := bit_mem_wr (dbgmon_events rt) DBGMON_IDLE True,
              mon_req := False, mon_pend := True\<rparr>
      else rt)"

definition dbgmon_clear :: "nat \<Rightarrow> thinkos_rt \<Rightarrow> thinkos_rt" where
  "dbgmon_clear sig rt = rt\<lparr>dbgmon_events := bit_mem_wr (dbgmon_events rt) sig False\<rparr>"

section \<open>Support functions\<close>

text \<open>\<open>__bit_mem_wr(&thinkos_rt.wq_lst[wq], th, v)\<close>.\<close>
definition wq_bit :: "nat \<Rightarrow> nat \<Rightarrow> bool \<Rightarrow> thinkos_rt \<Rightarrow> thinkos_rt" where
  "wq_bit wq th v rt = rt\<lparr>wq_lst := (wq_lst rt)(wq := bit_mem_wr (wq_lst rt wq) th v)\<rparr>"

definition alloc_lo :: "u32 \<Rightarrow> nat \<Rightarrow> (nat \<times> u32) option" where
  "alloc_lo bmp start =
     (let idx = clz (rbit (NOT (drop_bit start bmp))) + start in
      if 32 \<le> idx then None else Some (idx, bit_mem_wr bmp idx True))"

definition alloc_hi :: "u32 \<Rightarrow> nat \<Rightarrow> (nat \<times> u32) option" where
  "alloc_hi bmp start0 =
     (let start = (if 31 < start0 then 31 else start0);
          z = clz (NOT (push_bit (31 - start) bmp)) in
      if start < z then None else Some (start - z, bit_mem_wr bmp (start - z) True))"

definition defer_sched :: "thinkos_rt \<Rightarrow> thinkos_rt" where
  "defer_sched rt = rt\<lparr>pendsv := True\<rparr>"

definition preempt :: "thinkos_rt \<Rightarrow> thinkos_rt" where
  "preempt rt = (if critical_cnt rt = 0 then defer_sched rt else rt)"

definition ready_clr :: "thinkos_rt \<Rightarrow> thinkos_rt" where
  "ready_clr rt =
     wq_bit THINKOS_WQ_READY THINKOS_THREADS_MAX True
       (rt\<lparr>wq_lst := (wq_lst rt)(THINKOS_WQ_READY := 0, THINKOS_WQ_TMSHARE := 0)\<rparr>)"

definition suspend :: "nat \<Rightarrow> thinkos_rt \<Rightarrow> thinkos_rt" where
  "suspend thread rt =
     (let ready = wq_ready rt AND NOT (push_bit thread 1);
          tmshare = wq_tmshare rt in
      if ready = push_bit THINKOS_THREADS_MAX 1
      then rt\<lparr>wq_lst := (wq_lst rt)(THINKOS_WQ_READY := ready OR tmshare, THINKOS_WQ_TMSHARE := 0)\<rparr>
      else rt\<lparr>wq_lst := (wq_lst rt)(THINKOS_WQ_READY := ready, THINKOS_WQ_TMSHARE := tmshare)\<rparr>)"

definition wq_head :: "nat \<Rightarrow> thinkos_rt \<Rightarrow> nat" where
  "wq_head wq rt = clz (rbit (wq_lst rt wq))"

definition wq_insert :: "nat \<Rightarrow> nat \<Rightarrow> thinkos_rt \<Rightarrow> thinkos_rt" where
  "wq_insert wq th rt = th_stat_st th (2 * wq) (wq_bit wq th True rt)"

definition tmdwq_insert :: "nat \<Rightarrow> nat \<Rightarrow> u32 \<Rightarrow> thinkos_rt \<Rightarrow> thinkos_rt" where
  "tmdwq_insert wq th ms rt =
     th_stat_st th (2 * wq + 1)
       (wq_bit THINKOS_WQ_CLOCK th True
         (wq_bit wq th True
           (rt\<lparr>clock := (clock rt)(th := ticks rt + ms)\<rparr>)))"

definition wq_remove :: "nat \<Rightarrow> nat \<Rightarrow> thinkos_rt \<Rightarrow> thinkos_rt" where
  "wq_remove wq th rt =
     th_stat_st th 0 (wq_bit THINKOS_WQ_CLOCK th False (wq_bit wq th False rt))"

definition wakeup :: "nat \<Rightarrow> nat \<Rightarrow> thinkos_rt \<Rightarrow> thinkos_rt" where
  "wakeup wq th rt =
     th_stat_st th 0
       (ctx_r0_st th 0
         (wq_bit THINKOS_WQ_CLOCK th False
           (wq_bit wq th False
             (wq_bit THINKOS_WQ_READY th True rt))))"

definition wakeup_return :: "nat \<Rightarrow> nat \<Rightarrow> u32 \<Rightarrow> thinkos_rt \<Rightarrow> thinkos_rt" where
  "wakeup_return wq th ret rt =
     ctx_r0_st th ret
       (th_stat_st th 0
         (wq_bit THINKOS_WQ_CLOCK th False
           (wq_bit wq th False
             (wq_bit THINKOS_WQ_READY th True rt))))"


section \<open>Normal forms of the primitives\<close>

lemma wq_layout [simp]:
  "THINKOS_WQ_TMSHARE = Suc 0"
  "THINKOS_WQ_CLOCK = 2"
  "THINKOS_MUTEX_BASE = 3"
  "THINKOS_COND_BASE = 11"
  "THINKOS_SEM_BASE = 19"
  "THINKOS_EVENT_BASE = 27"
  "THINKOS_FLAG_BASE = 31"
  "THINKOS_GATE_BASE = 39"
  "THINKOS_JOIN_BASE = 47"
  "THINKOS_WQ_CONSOLE_WR = 55"
  "THINKOS_WQ_CONSOLE_RD = 56"
  "THINKOS_WQ_PAUSED = 57"
  "THINKOS_WQ_CANCELED = 58"
  "THINKOS_WQ_IRQ = 59"
  "THINKOS_WQ_LST_END = 60"
  by (simp_all add: THINKOS_WQ_TMSHARE_def THINKOS_WQ_CLOCK_def THINKOS_MUTEX_BASE_def THINKOS_COND_BASE_def THINKOS_SEM_BASE_def THINKOS_EVENT_BASE_def THINKOS_FLAG_BASE_def THINKOS_GATE_BASE_def
    THINKOS_JOIN_BASE_def THINKOS_WQ_CONSOLE_WR_def THINKOS_WQ_CONSOLE_RD_def THINKOS_WQ_PAUSED_def THINKOS_WQ_CANCELED_def THINKOS_WQ_IRQ_def THINKOS_WQ_LST_END_def)

text \<open>
  Each primitive is an update of a few fields; with these equations a handler
  simplifies to one record update and the record package computes its fields.
\<close>

lemmas machine_defs =
  arg_ld_def mem_st_def arg_ret_def ctx_save_def cm3_irq_enable_def cm3_irq_disable_def
  cm3_irq_pend_clr_def dbgmon_signal_def dbgmon_clear_def

declare machine_defs [kernel_simps] wq_bit_def [kernel_simps] th_stat_st_def [kernel_simps]
  defer_sched_def [kernel_simps]

lemma ctx_r0_st_eq [kernel_simps]:
  "ctx_r0_st th v rt =
     rt\<lparr>mem := (if ctx rt th = 0 then mem rt else (mem rt)(ctx rt th + 32 := v)),
        wild := (wild rt \<or> ctx rt th = 0)\<rparr>"
  by (simp add: ctx_r0_st_def mem_st_def)

lemma preempt_eq [kernel_simps]:
  "preempt rt = rt\<lparr>pendsv := (pendsv rt \<or> critical_cnt rt = 0)\<rparr>"
  by (simp add: preempt_def defer_sched_def)

lemma word_clear_bit [simp]: "(w :: u32) AND NOT (2 ^ n) = bit_mem_wr w n False"
  by (simp add: bit_mem_wr_def unset_bit_eq_and_not)

lemma word_put_bit [simp]: "(w :: u32) OR 2 ^ n = bit_mem_wr w n True"
  by (simp add: bit_mem_wr_def set_bit_eq_or)

text \<open>The effect of \<^const>\<open>suspend\<close> on the list of queues.\<close>
definition collects :: "nat \<Rightarrow> (nat \<Rightarrow> u32) \<Rightarrow> bool" where
  "collects t q \<longleftrightarrow> bit_mem_wr (q 0) t False = push_bit 8 1"

definition suspend_wq :: "nat \<Rightarrow> (nat \<Rightarrow> u32) \<Rightarrow> nat \<Rightarrow> u32" where
  "suspend_wq t q =
     (if collects t q then q(0 := push_bit 8 1 OR q 1, 1 := 0)
      else q(0 := bit_mem_wr (q 0) t False))"

lemma suspend_eq [kernel_simps]: "suspend t rt = rt\<lparr>wq_lst := suspend_wq t (wq_lst rt)\<rparr>"
  by (auto simp: suspend_def suspend_wq_def collects_def Let_def fun_eq_iff)

lemma suspend_wq_bits:
  "bit (suspend_wq t q w) th \<longleftrightarrow>
     (if w = 0 then (th \<noteq> t \<and> bit (q 0) th) \<or> (collects t q \<and> bit (q 1) th)
      else if w = 1 then \<not> collects t q \<and> bit (q 1) th
      else bit (q w) th)"
proof (cases "collects t q")
  case True
  then have "bit (push_bit 8 (1 :: u32)) th \<longleftrightarrow> bit (bit_mem_wr (q 0) t False) th"
    by (simp add: collects_def)
  then show ?thesis
    using True by (auto simp: suspend_wq_def bit_or_iff)
qed (simp add: suspend_wq_def)

lemma suspend_wq_other [simp]: "w \<noteq> 0 \<Longrightarrow> w \<noteq> 1 \<Longrightarrow> suspend_wq t q w = q w"
  by (simp add: suspend_wq_def)

lemma wakeup_return_eq:
  "wakeup_return wq th v rt =
     rt\<lparr>wq_lst := (let q = (wq_lst rt)(0 := bit_mem_wr (wq_ready rt) th True);
                       q = q(wq := bit_mem_wr (q wq) th False)
                   in q(2 := bit_mem_wr (q 2) th False)),
        th_stat := (th_stat rt)(th := 0),
        mem := (if ctx rt th = 0 then mem rt else (mem rt)(ctx rt th + 32 := v)),
        wild := (wild rt \<or> 8 \<le> th \<or> ctx rt th = 0)\<rparr>"
  by (auto simp: wakeup_return_def kernel_simps Let_def)

lemma wakeup_is_return: "wakeup wq th rt = wakeup_return wq th 0 rt"
  by (simp add: wakeup_def wakeup_return_def kernel_simps disj_commute disj_left_commute fun_upd_def)

lemma wq_head_eq [kernel_simps]: "wq_head wq rt = ctz (wq_lst rt wq)"
  by (simp add: wq_head_def clz_rbit)

text \<open>Range checks of descriptors: \<open>wq - BASE >= MAX\<close> in unsigned arithmetic.\<close>
lemma obj_index:
  assumes "\<not> of_nat m \<le> (w :: u32) - of_nat b" "b + m < 2 ^ 32"
  shows "unat w = b + unat (w - of_nat b)" "unat (w - of_nat b) < m"
proof -
  let ?i = "w - of_nat b"
  have "unat ?i < unat (of_nat m :: u32)"
    using assms(1) by (simp add: word_less_nat_alt not_le)
  then show i: "unat ?i < m"
    using assms(2) by (simp add: unat_of_nat)
  have "unat w = unat (of_nat b + ?i)" by simp
  also have "\<dots> = b + unat ?i"
    using assms(2) i by (subst unat_add_lem [THEN iffD1]) (simp_all add: unat_of_nat)
  finally show "unat w = b + unat ?i" .
qed

lemma obj_valid:
  assumes "\<not> of_nat m \<le> (w :: u32) - of_nat b" "b + m < 2 ^ 32"
  shows "w = of_nat (b + unat (w - of_nat b)) \<and> unat (w - of_nat b) < m"
proof -
  have "w = of_nat (unat w)" by simp
  then show ?thesis using obj_index [OF assms] by metis
qed

lemma obj_checks:
  assumes "(w :: u32) = of_nat (b + i)" "i < m" "b + m < 2 ^ 32"
  shows "\<not> of_nat m \<le> w - of_nat b" "unat (w - of_nat b) = i" "unat w = b + i"
proof -
  have d: "w - of_nat b = of_nat i" using assms(1) by simp
  show "unat w = b + i" unfolding assms(1) unat_of_nat using assms(2,3) by simp
  show "unat (w - of_nat b) = i" unfolding d unat_of_nat using assms(2,3) by simp
  then show "\<not> of_nat m \<le> w - of_nat b"
    using assms(2,3) by (simp add: word_le_nat_alt unat_of_nat)
qed

section \<open>Emptying a queue\<close>

lemma wakeup_return_queue:
  "bitset (wq_lst (wakeup_return wq th v rt) wq) = (if wq = 0 \<and> th < 32 then bitset (wq_ready rt) - {th} else bitset (wq_lst rt wq) - {th})"
  by (auto simp: wakeup_return_eq Let_def split: if_splits)

text \<open>
  \<open>while ((th = __thinkos_wq_head(wq)) != THINKOS_THREAD_NULL) __thinkos_wakeup_return(wq, th, v)\<close>,
  the loop that empties a queue.
\<close>
function wakeup_all_return :: "nat \<Rightarrow> u32 \<Rightarrow> thinkos_rt \<Rightarrow> thinkos_rt" where
  "wakeup_all_return wq v rt =
     (let th = wq_head wq rt in
      if th = THINKOS_THREAD_NULL then rt else wakeup_all_return wq v (wakeup_return wq th v rt))"
  by auto
termination
proof (relation "measure (\<lambda>(wq, v, rt). card (bitset (wq_lst rt wq)))")
  fix wq v rt and x :: nat
  assume x: "x = wq_head wq rt" "x \<noteq> THINKOS_THREAD_NULL"
  have "bit (wq_lst rt wq) x"
    using x bitset_ctz [of "wq_lst rt wq"] by (simp add: wq_head_eq ctz_eq_32)
  then show "((wq, v, wakeup_return wq x v rt), (wq, v, rt)) \<in> measure (\<lambda>(wq, v, rt). card (bitset (wq_lst rt wq)))"
    using card_Diff1_less [of "bitset (wq_lst rt wq)" x] by (auto simp: wakeup_return_queue)
qed simp

declare wakeup_all_return.simps [simp del]

text \<open>The same loop with \<open>__thinkos_wakeup\<close>.\<close>
function wakeup_all :: "nat \<Rightarrow> thinkos_rt \<Rightarrow> thinkos_rt" where
  "wakeup_all wq rt =
     (let th = wq_head wq rt in
      if th = THINKOS_THREAD_NULL then rt else wakeup_all wq (wakeup wq th rt))"
  by auto
termination
proof (relation "measure (\<lambda>(wq, rt). card (bitset (wq_lst rt wq)))")
  fix wq rt and x :: nat
  assume x: "x = wq_head wq rt" "x \<noteq> THINKOS_THREAD_NULL"
  have "bit (wq_lst rt wq) x"
    using x bitset_ctz [of "wq_lst rt wq"] by (simp add: wq_head_eq ctz_eq_32)
  then show "((wq, wakeup wq x rt), (wq, rt)) \<in> measure (\<lambda>(wq, rt). card (bitset (wq_lst rt wq)))"
    using card_Diff1_less [of "bitset (wq_lst rt wq)" x] by (auto simp: wakeup_is_return wakeup_return_queue)
qed simp

declare wakeup_all.simps [simp del]

lemma wakeup_all_is_return: "wakeup_all wq rt = wakeup_all_return wq 0 rt"
proof (induction wq rt rule: wakeup_all.induct)
  case (1 wq rt)
  then show ?case
    by (simp add: wakeup_all.simps [of wq rt] wakeup_all_return.simps [of wq 0 rt] Let_def wakeup_is_return)
qed

text \<open>Afterwards the queue is empty and its threads are ready; other queues lose nothing but the clock.\<close>
lemma wakeup_all_return_queues:
  assumes "3 \<le> wq"
  shows "wq_lst (wakeup_all_return wq v rt) wq = 0
    \<and> bitset (wq_ready (wakeup_all_return wq v rt)) = bitset (wq_ready rt) \<union> bitset (wq_lst rt wq)
    \<and> bitset (wq_clock (wakeup_all_return wq v rt)) = bitset (wq_clock rt) - bitset (wq_lst rt wq)
    \<and> (\<forall>w. w \<noteq> 0 \<longrightarrow> w \<noteq> 2 \<longrightarrow> w \<noteq> wq \<longrightarrow> wq_lst (wakeup_all_return wq v rt) w = wq_lst rt w)
    \<and> (\<forall>th. th_stat (wakeup_all_return wq v rt) th = (if bit (wq_lst rt wq) th then 0 else th_stat rt th))"
  using assms
proof (induction wq v rt rule: wakeup_all_return.induct)
  case (1 wq v rt)
  show ?case
  proof (cases "wq_lst rt wq = 0")
    case True
    then show ?thesis
      by (simp add: wakeup_all_return.simps [of wq v rt] Let_def wq_head_eq bitset_def)
  next
    case False
    let ?th = "ctz (wq_lst rt wq)" and ?rt = "wakeup_return wq (ctz (wq_lst rt wq)) v rt"
    have eq: "wakeup_all_return wq v rt = wakeup_all_return wq v ?rt"
      using False by (simp add: wakeup_all_return.simps [of wq v rt] Let_def wq_head_eq ctz_eq_32)
    have th: "bit (wq_lst rt wq) ?th" "?th < 32"
      using False by (simp_all add: ctz_bit ctz_less_32)
    have q: "wq_lst ?rt wq = bit_mem_wr (wq_lst rt wq) ?th False"
      "wq_ready ?rt = bit_mem_wr (wq_ready rt) ?th True"
      "wq_clock ?rt = bit_mem_wr (wq_clock rt) ?th False"
      "\<And>w. w \<noteq> 0 \<Longrightarrow> w \<noteq> 2 \<Longrightarrow> w \<noteq> wq \<Longrightarrow> wq_lst ?rt w = wq_lst rt w"
      "th_stat ?rt = (th_stat rt)(?th := 0)"
      using "1.prems" by (simp_all add: wakeup_return_eq Let_def)
    have IH: "wq_lst (wakeup_all_return wq v ?rt) wq = 0
      \<and> bitset (wq_ready (wakeup_all_return wq v ?rt)) = bitset (wq_ready ?rt) \<union> bitset (wq_lst ?rt wq)
      \<and> bitset (wq_clock (wakeup_all_return wq v ?rt)) = bitset (wq_clock ?rt) - bitset (wq_lst ?rt wq)
      \<and> (\<forall>w. w \<noteq> 0 \<longrightarrow> w \<noteq> 2 \<longrightarrow> w \<noteq> wq \<longrightarrow> wq_lst (wakeup_all_return wq v ?rt) w = wq_lst ?rt w)
      \<and> (\<forall>th. th_stat (wakeup_all_return wq v ?rt) th = (if bit (wq_lst ?rt wq) th then 0 else th_stat ?rt th))"
      using "1.IH" [of ?th] "1.prems" th(2) by (simp add: wq_head_eq)
    show ?thesis
      unfolding eq using IH th q by (auto simp: bitset_put bitset_clear)
  qed
qed


text \<open>The loop touches nothing but queues, status words and return values.\<close>
lemma wakeup_all_return_frame:
  "\<exists>q st w. wakeup_all_return wq v rt = rt\<lparr>wq_lst := q, th_stat := st,
     mem := (\<lambda>a. if \<exists>th. bit (wq_lst rt wq) th \<and> ctx rt th \<noteq> 0 \<and> a = ctx rt th + 32 then v else mem rt a),
     wild := w\<rparr>"
proof (induction wq v rt rule: wakeup_all_return.induct)
  case (1 wq v rt)
  show ?case
  proof (cases "wq_lst rt wq = 0")
    case True
    then show ?thesis
      by (intro exI [of _ "wq_lst rt"] exI [of _ "th_stat rt"] exI [of _ "wild rt"])
        (simp add: wakeup_all_return.simps [of wq v rt] Let_def wq_head_eq)
  next
    case False
    let ?th = "ctz (wq_lst rt wq)" and ?rt = "wakeup_return wq (ctz (wq_lst rt wq)) v rt"
    have eq: "wakeup_all_return wq v rt = wakeup_all_return wq v ?rt"
      using False by (simp add: wakeup_all_return.simps [of wq v rt] Let_def wq_head_eq ctz_eq_32)
    have th: "bit (wq_lst rt wq) ?th" "?th < 32"
      using False by (simp_all add: ctz_bit ctz_less_32)
    obtain q st w where IH: "wakeup_all_return wq v ?rt = ?rt\<lparr>wq_lst := q, th_stat := st,
      mem := (\<lambda>a. if \<exists>th. bit (wq_lst ?rt wq) th \<and> ctx ?rt th \<noteq> 0 \<and> a = ctx ?rt th + 32 then v else mem ?rt a),
      wild := w\<rparr>"
      using "1.IH" [of ?th] th(2) by (auto simp: wq_head_eq)
    have r: "bit (wq_lst ?rt wq) t \<longleftrightarrow> bit (wq_lst rt wq) t \<and> t \<noteq> ?th" "ctx ?rt = ctx rt"
      "mem ?rt = (if ctx rt ?th = 0 then mem rt else (mem rt)(ctx rt ?th + 32 := v))" for t
      by (auto simp: wakeup_return_eq Let_def split: if_splits)
    have m: "(\<lambda>a. if \<exists>th. bit (wq_lst ?rt wq) th \<and> ctx ?rt th \<noteq> 0 \<and> a = ctx ?rt th + 32 then v else mem ?rt a)
      = (\<lambda>a. if \<exists>th. bit (wq_lst rt wq) th \<and> ctx rt th \<noteq> 0 \<and> a = ctx rt th + 32 then v else mem rt a)"
      using th(1) by (auto simp: r fun_eq_iff)
    have "wakeup_all_return wq v rt = rt\<lparr>wq_lst := q, th_stat := st,
      mem := (\<lambda>a. if \<exists>th. bit (wq_lst rt wq) th \<and> ctx rt th \<noteq> 0 \<and> a = ctx rt th + 32 then v else mem rt a),
      wild := w\<rparr>"
      unfolding eq IH m by (simp add: wakeup_return_eq)
    then show ?thesis by blast
  qed
qed

lemma wakeup_all_return_step:
  "wq_head wq rt \<noteq> THINKOS_THREAD_NULL \<Longrightarrow>
   wakeup_all_return wq v (wakeup_return wq (wq_head wq rt) v rt) = wakeup_all_return wq v rt"
  by (simp add: wakeup_all_return.simps [of wq v rt] Let_def)

lemma wakeup_all_return_empty: "wq_lst rt wq = 0 \<Longrightarrow> wakeup_all_return wq v rt = rt"
  by (simp add: wakeup_all_return.simps [of wq v rt] Let_def wq_head_eq)

lemmas wakeup_all_queues = wakeup_all_return_queues [where v = 0, folded wakeup_all_is_return]
lemmas wakeup_all_frame = wakeup_all_return_frame [where v = 0, folded wakeup_all_is_return]
lemmas wakeup_all_step = wakeup_all_return_step [where v = 0, folded wakeup_all_is_return wakeup_is_return]
lemmas wakeup_all_empty = wakeup_all_return_empty [where v = 0, folded wakeup_all_is_return]

end
