(* ===== verification/Isr.thy ===== *)
theory Isr
  imports Kernel
begin

text \<open>
  The part of the kernel that runs in interrupt context. Device interrupts have
  a higher priority than the system call exception (\<open>IRQ_DEF_PRIORITY\<close> against
  \<open>SYSCALL_PRIORITY\<close>), so a handler may run between any two instructions of a
  service. The handlers reach the kernel through the \<open>_i\<close> routines (the
  exceptions 7, 9, 10 and 13), the default interrupt service routine that wakes
  the thread assigned to the interrupt line, and the two commit routines of the
  console pipes, called by the monitor. Each runs to completion once started.
\<close>

section \<open>Routines called from interrupt handlers\<close>

text \<open>\<open>__thinkos_sem_post_i\<close>: hand the token to the first waiting thread or count it.\<close>
definition sem_post_i :: "nat \<Rightarrow> thinkos_rt \<Rightarrow> thinkos_rt" where
  "sem_post_i wq rt =
     (let queue = wq_lst rt wq; th = clz (rbit queue) in
      if th = THINKOS_THREAD_NULL
      then let sem = wq - THINKOS_SEM_BASE
           in rt\<lparr>sem_val := (sem_val rt)(sem := sem_val rt sem + 1)\<rparr>
      else
        let rt = rt\<lparr>wq_lst := (wq_lst rt)(wq := queue AND NOT (push_bit th 1))\<rparr>;
            rt = wq_bit THINKOS_WQ_READY th True rt;
            rt = wq_bit THINKOS_WQ_CLOCK th False rt;
            rt = ctx_r0_st th 0 rt
        in th_stat_st th 0 rt)"

text \<open>\<open>__thinkos_flag_give_i\<close>.\<close>
definition flag_give_i :: "nat \<Rightarrow> thinkos_rt \<Rightarrow> thinkos_rt" where
  "flag_give_i wq rt =
     (let idx = wq - THINKOS_FLAG_BASE; queue = wq_lst rt wq; th = clz (rbit queue) in
      if th = THINKOS_THREAD_NULL
      then rt\<lparr>flag := flag rt OR push_bit idx 1\<rparr>
      else
        let rt = rt\<lparr>wq_lst := (wq_lst rt)(wq := queue AND NOT (push_bit th 1))\<rparr>;
            rt = wq_bit THINKOS_WQ_READY th True rt;
            rt = wq_bit THINKOS_WQ_CLOCK th False rt;
            rt = ctx_r0_st th 0 rt
        in th_stat_st th 0 rt)"

text \<open>
  \<open>__thinkos_ev_raise_i\<close>. The bit-band accesses address the array of
  \<open>{pend, mask}\<close> pairs: an event number above 31 reaches other memory, and the
  state is \<open>wild\<close> from then on.
\<close>
definition ev_raise_i :: "nat \<Rightarrow> nat \<Rightarrow> thinkos_rt \<Rightarrow> thinkos_rt" where
  "ev_raise_i wq ev rt =
     (let no = wq - THINKOS_EVENT_BASE in
      if 32 \<le> ev then rt\<lparr>wild := True\<rparr>
      else if \<not> bit_mem_rd (ev_mask rt no) ev
      then rt\<lparr>ev_pend := (ev_pend rt)(no := bit_mem_wr (ev_pend rt no) ev True)\<rparr>
      else
        let queue = wq_lst rt wq; th = clz (rbit queue) in
        if th = THINKOS_THREAD_NULL
        then rt\<lparr>ev_pend := (ev_pend rt)(no := bit_mem_wr (ev_pend rt no) ev True)\<rparr>
        else
          let rt = rt\<lparr>wq_lst := (wq_lst rt)(wq := queue AND NOT (push_bit th 1))\<rparr>;
              rt = wq_bit THINKOS_WQ_READY th True rt;
              rt = wq_bit THINKOS_WQ_CLOCK th False rt;
              rt = ctx_r0_st th (of_nat ev) rt
          in th_stat_st th 0 rt)"

definition GATE_CLOSED :: u32 where [simp]: "GATE_CLOSED = 0"
definition GATE_SIGNALED :: u32 where [simp]: "GATE_SIGNALED = 1"
definition GATE_LOCKED :: u32 where [simp]: "GATE_LOCKED = 2"

text \<open>
  \<open>__thinkos_gate_open_i\<close>: a locked gate is only signaled; otherwise the first
  waiting thread enters, and the gate is left locked and not signaled; with no
  thread waiting the gate is left signaled and unlocked.
\<close>
definition gate_open_i :: "nat \<Rightarrow> thinkos_rt \<Rightarrow> thinkos_rt" where
  "gate_open_i wq rt =
     (let idx = 2 * (wq - THINKOS_GATE_BASE) in
      if gate rt AND push_bit idx GATE_LOCKED \<noteq> 0
      then rt\<lparr>gate := gate rt OR push_bit idx GATE_SIGNALED\<rparr>
      else
        let rt = rt\<lparr>gate := gate rt OR push_bit idx (GATE_LOCKED OR GATE_SIGNALED)\<rparr>;
            queue = wq_lst rt wq; th = clz (rbit queue) in
        if th = THINKOS_THREAD_NULL
        then rt\<lparr>gate := gate rt AND NOT (push_bit idx GATE_LOCKED)\<rparr>
        else
          let rt = rt\<lparr>wq_lst := (wq_lst rt)(wq := queue AND NOT (push_bit th 1))\<rparr>;
              rt = rt\<lparr>gate := gate rt AND NOT (push_bit idx GATE_SIGNALED)\<rparr>;
              rt = wq_bit THINKOS_WQ_READY th True rt;
              rt = wq_bit THINKOS_WQ_CLOCK th False rt;
              rt = ctx_r0_st th 0 rt
          in th_stat_st th 0 rt)"

text \<open>The exception entries of the four routines.\<close>
definition cm3_except7_isr :: "nat \<Rightarrow> thinkos_rt \<Rightarrow> thinkos_rt" where
  "cm3_except7_isr wq rt = preempt (sem_post_i wq rt)"

definition cm3_except9_isr :: "nat \<Rightarrow> nat \<Rightarrow> thinkos_rt \<Rightarrow> thinkos_rt" where
  "cm3_except9_isr wq ev rt = preempt (ev_raise_i wq ev rt)"

definition cm3_except10_isr :: "nat \<Rightarrow> thinkos_rt \<Rightarrow> thinkos_rt" where
  "cm3_except10_isr wq rt = preempt (flag_give_i wq rt)"

definition cm3_except13_isr :: "nat \<Rightarrow> thinkos_rt \<Rightarrow> thinkos_rt" where
  "cm3_except13_isr wq rt = preempt (gate_open_i wq rt)"

text \<open>\<open>cm3_default_isr\<close>: wake the thread assigned to the interrupt line.\<close>
definition cm3_default_isr :: "nat \<Rightarrow> thinkos_rt \<Rightarrow> thinkos_rt" where
  "cm3_default_isr irq rt =
     (let rt = cm3_irq_disable irq rt;
          thread_id = irq_th rt irq;
          rt = rt\<lparr>irq_th := (irq_th rt)(irq := THINKOS_THREAD_IDLE)\<rparr>;
          rt = wq_bit THINKOS_WQ_READY thread_id True rt;
          rt = wq_remove THINKOS_WQ_IRQ thread_id rt
      in preempt rt)"

text \<open>
  \<open>__console_tx_pipe_commit\<close>: \<open>cnt\<close> bytes of the pipe have been sent. The checks of
  \<open>cnt\<close> before the update only call \<open>__THINKOS_ERROR\<close>, which is empty.
\<close>
definition console_tx_pipe_commit :: "nat \<Rightarrow> thinkos_rt \<Rightarrow> thinkos_rt" where
  "console_tx_pipe_commit cnt rt =
     (let con = console rt; p = tx_pipe con;
          rt = rt\<lparr>console := con\<lparr>tx_pipe := p\<lparr>tail := tail p + of_nat cnt\<rparr>\<rparr>\<rparr>;
          wq = THINKOS_WQ_CONSOLE_WR; th = wq_head wq rt in
      if th = THINKOS_THREAD_NULL then rt
      else defer_sched (wakeup wq th rt))"

text \<open>Copy of a block of bytes to the buffer of a thread (\<open>__thinkos_memcpy\<close>).\<close>
definition umem_st :: "u32 \<Rightarrow> u8 list \<Rightarrow> thinkos_rt \<Rightarrow> thinkos_rt" where
  "umem_st a xs rt =
     rt\<lparr>umem := (\<lambda>b. if unat (b - a) < length xs then xs ! unat (b - a) else umem rt b)\<rparr>"

text \<open>
  \<open>__console_rx_pipe_commit\<close>: \<open>cnt\<close> bytes were received into the pipe; a reading
  thread gets them through the buffer (\<open>r1\<close>) and the size (\<open>r2\<close>) of its call.
\<close>
definition console_rx_pipe_commit :: "nat \<Rightarrow> thinkos_rt \<Rightarrow> thinkos_rt" where
  "console_rx_pipe_commit cnt rt =
     (let con = console rt; p = rx_pipe con;
          rt = rt\<lparr>console := con\<lparr>rx_pipe := p\<lparr>head := head p + of_nat cnt\<rparr>\<rparr>\<rparr>;
          wq = THINKOS_WQ_CONSOLE_RD; th = wq_head wq rt in
      if th = THINKOS_THREAD_NULL then rt
      else
        let rt = (if ctx rt th = 0 then rt\<lparr>wild := True\<rparr> else rt);
            bp = mem rt (ctx rt th + 4 * of_nat (CTX_R0 + 1));
            mx = mem rt (ctx rt th + 4 * of_nat (CTX_R0 + 2));
            (xs, p) = rx_pipe_read mx (rx_pipe (console rt));
            rt = umem_st bp xs (rt\<lparr>console := (console rt)\<lparr>rx_pipe := p\<rparr>\<rparr>) in
        if xs = [] then rt
        else defer_sched (wakeup_return wq th (of_nat (length xs)) rt))"

section \<open>Interrupts as events\<close>

datatype isr =
    SemPost nat
  | EvRaise nat nat
  | FlagGive nat
  | GateOpen nat
  | IrqLine nat
  | ConsoleTx nat
  | ConsoleRx nat

fun isr_run :: "isr \<Rightarrow> thinkos_rt \<Rightarrow> thinkos_rt" where
  "isr_run (SemPost wq) rt = cm3_except7_isr wq rt"
| "isr_run (EvRaise wq ev) rt = cm3_except9_isr wq ev rt"
| "isr_run (FlagGive wq) rt = cm3_except10_isr wq rt"
| "isr_run (GateOpen wq) rt = cm3_except13_isr wq rt"
| "isr_run (IrqLine irq) rt = cm3_default_isr irq rt"
| "isr_run (ConsoleTx n) rt = console_tx_pipe_commit n rt"
| "isr_run (ConsoleRx n) rt = console_rx_pipe_commit n rt"

abbreviation isrs_run :: "isr list \<Rightarrow> thinkos_rt \<Rightarrow> thinkos_rt" where
  "isrs_run \<equiv> fold isr_run"

end
