(* ===== verification/Wait.thy ===== *)
theory Wait
  imports Isr
begin

text \<open>
  The blocking protocol shared by the services that wait on an object which an
  interrupt handler may signal (semaphores, flags, event sets, gates and the
  console pipe). The C code repeats it in every service:

    \<^item> \<open>LDREX\<close> the object; if it is available take it with \<open>STREX\<close>, starting
      over when the store fails;
    \<^item> otherwise suspend the thread, record its status (and its context
      pointer), \<open>LDREX\<close> the queue, look at the object again, and insert the thread
      with \<open>STREX\<close>, rolling back and starting over when the object was signaled
      meanwhile or the store fails.

  Taking an interrupt clears the exclusive monitor, so a \<open>STREX\<close> fails exactly
  if an interrupt ran since the matching \<open>LDREX\<close>. One pass is described by the
  interrupts that run at each of its interruption points.
\<close>

section \<open>Interrupted passes\<close>

record irqs =
  i_ld :: "isr list"     \<comment> \<open>after \<open>LDREX\<close> of the object\<close>
  i_susp :: "isr list"   \<comment> \<open>after suspending, before \<open>LDREX\<close> of the queue\<close>
  i_chk :: "isr list"    \<comment> \<open>after \<open>LDREX\<close> of the queue, before reading the object again\<close>
  i_strex :: "isr list"  \<comment> \<open>after reading the object again\<close>
  i_tail :: "isr list"   \<comment> \<open>after inserting the thread in the queue\<close>
  i_ret :: "isr list"    \<comment> \<open>after arming the clock, before storing the return value\<close>

definition no_irqs :: irqs where
  "no_irqs = \<lparr>i_ld = [], i_susp = [], i_chk = [], i_strex = [], i_tail = [], i_ret = []\<rparr>"

text \<open>Undo the suspension of the calling thread.\<close>
definition wait_rollback :: "nat \<Rightarrow> thinkos_rt \<Rightarrow> thinkos_rt" where
  "wait_rollback self rt = wq_bit THINKOS_WQ_READY self True (th_stat_st self 0 rt)"

definition wait_block ::
  "(thinkos_rt \<Rightarrow> bool) \<Rightarrow> (thinkos_rt \<Rightarrow> thinkos_rt) \<Rightarrow> (thinkos_rt \<Rightarrow> thinkos_rt) \<Rightarrow> (thinkos_rt \<Rightarrow> thinkos_rt)
   \<Rightarrow> nat \<Rightarrow> nat \<Rightarrow> irqs \<Rightarrow> thinkos_rt \<Rightarrow> bool \<times> thinkos_rt" where
  "wait_block avail prep arm fin wq self q rt =
     (let rt = isrs_run (i_ld q) rt;
          rt = isrs_run (i_susp q) (prep (suspend self rt));
          queue = wq_lst rt wq;
          rt = isrs_run (i_chk q) rt in
      if avail rt then (True, isrs_run (i_strex q) (wait_rollback self rt))
      else
        let rt = isrs_run (i_strex q) rt in
        if i_chk q \<noteq> [] \<or> i_strex q \<noteq> [] then (True, wait_rollback self rt)
        else
          let rt = rt\<lparr>wq_lst := (wq_lst rt)(wq := queue OR push_bit self 1)\<rparr>;
              rt = arm (isrs_run (i_tail q) rt)
          in (False, fin (isrs_run (i_ret q) rt)))"

definition wait_once ::
  "(thinkos_rt \<Rightarrow> bool) \<Rightarrow> (thinkos_rt \<Rightarrow> thinkos_rt) \<Rightarrow> (thinkos_rt \<Rightarrow> thinkos_rt)
   \<Rightarrow> (thinkos_rt \<Rightarrow> thinkos_rt) \<Rightarrow> (thinkos_rt \<Rightarrow> thinkos_rt) \<Rightarrow> nat \<Rightarrow> nat \<Rightarrow> irqs \<Rightarrow> thinkos_rt \<Rightarrow> bool \<times> thinkos_rt" where
  "wait_once avail tak prep arm fin wq self q rt =
     (if avail rt
      then if i_ld q = [] then (False, tak rt) else (True, isrs_run (i_ld q) rt)
      else wait_block avail prep arm fin wq self q rt)"

text \<open>The interrupts that run during a pass, and during the whole service.\<close>
definition once_isrs :: "(thinkos_rt \<Rightarrow> bool) \<Rightarrow> (thinkos_rt \<Rightarrow> thinkos_rt) \<Rightarrow> nat \<Rightarrow> irqs \<Rightarrow> thinkos_rt \<Rightarrow> isr list" where
  "once_isrs avail prep self q rt =
     (if avail rt then i_ld q
      else i_ld q @ i_susp q @ i_chk q @ i_strex q @
        (let rt = isrs_run (i_susp q) (prep (suspend self (isrs_run (i_ld q) rt))) in
         if avail rt \<or> i_chk q \<noteq> [] \<or> i_strex q \<noteq> [] then [] else i_tail q @ i_ret q))"

fun wait_isrs :: "(irqs \<Rightarrow> thinkos_rt \<Rightarrow> bool \<times> thinkos_rt) \<Rightarrow> (irqs \<Rightarrow> thinkos_rt \<Rightarrow> isr list)
    \<Rightarrow> irqs list \<Rightarrow> thinkos_rt \<Rightarrow> isr list" where
  "wait_isrs body log [] rt = []"
| "wait_isrs body log (q # qs) rt =
     log q rt @ (case body q rt of (again, rt') \<Rightarrow> if again then wait_isrs body log qs rt' else [])"

text \<open>
  Preparation of the wait: the status word of the thread and, where the service
  does so, its context pointer; and the end of a timed wait, which arms the
  clock and then presets the return value. Interrupts neither read nor write the
  \<open>clock\<close> table, so one that runs between the store to it and the insertion
  in the clock queue might as well run before both.
\<close>
definition prep_stat :: "nat \<Rightarrow> nat \<Rightarrow> thinkos_rt \<Rightarrow> thinkos_rt" where
  "prep_stat self st rt = th_stat_st self st rt"

definition prep_ctx :: "nat \<Rightarrow> nat \<Rightarrow> u32 \<Rightarrow> thinkos_rt \<Rightarrow> thinkos_rt" where
  "prep_ctx self st arg rt = ctx_save self arg (th_stat_st self st rt)"

definition arm_clock :: "nat \<Rightarrow> u32 \<Rightarrow> thinkos_rt \<Rightarrow> thinkos_rt" where
  "arm_clock self ms rt =
     (let rt = rt\<lparr>clock := (clock rt)(self := ticks rt + ms)\<rparr>
      in wq_bit THINKOS_WQ_CLOCK self True rt)"

definition tail_timed :: "u32 \<Rightarrow> thinkos_rt \<Rightarrow> thinkos_rt" where
  "tail_timed arg rt =
     (let rt = arg_ret arg THINKOS_ETIMEDOUT rt
      in defer_sched rt)"

section \<open>What interrupts may do\<close>

text \<open>
  A handler only signals objects through descriptors of the right kind, and events by their
  numbers 0 to 31: \<open>__thinkos_ev_raise_i\<close> does not check the number.
\<close>
fun isr_ok :: "isr \<Rightarrow> bool" where
  "isr_ok (SemPost wq) \<longleftrightarrow> THINKOS_SEM_BASE \<le> wq \<and> wq < THINKOS_SEM_BASE + THINKOS_SEMAPHORE_MAX"
| "isr_ok (EvRaise wq ev) \<longleftrightarrow> THINKOS_EVENT_BASE \<le> wq \<and> wq < THINKOS_EVENT_BASE + THINKOS_EVENT_MAX \<and> ev < 32"
| "isr_ok (FlagGive wq) \<longleftrightarrow> THINKOS_FLAG_BASE \<le> wq \<and> wq < THINKOS_FLAG_BASE + THINKOS_FLAG_MAX"
| "isr_ok (GateOpen wq) \<longleftrightarrow> THINKOS_GATE_BASE \<le> wq \<and> wq < THINKOS_GATE_BASE + THINKOS_GATE_MAX"
| "isr_ok (IrqLine irq) \<longleftrightarrow> irq < THINKOS_IRQ_MAX"
| "isr_ok (ConsoleTx n) \<longleftrightarrow> True"
| "isr_ok (ConsoleRx n) \<longleftrightarrow> True"

definition irqs_ok :: "irqs \<Rightarrow> bool" where
  "irqs_ok q \<longleftrightarrow> list_all isr_ok (i_ld q @ i_susp q @ i_chk q @ i_strex q @ i_tail q @ i_ret q)"

text \<open>Thread \<open>th\<close> waits for nothing an interrupt handler could signal.\<close>
definition detached :: "thinkos_rt \<Rightarrow> nat \<Rightarrow> bool" where
  "detached rt th \<longleftrightarrow> (\<forall>wq\<ge>3. \<not> bit (wq_lst rt wq) th) \<and> (\<forall>irq. irq_th rt irq \<noteq> th)"

text \<open>Thread \<open>th\<close> waits in queue \<open>wq\<close> and nowhere else.\<close>
definition parked :: "thinkos_rt \<Rightarrow> nat \<Rightarrow> nat \<Rightarrow> bool" where
  "parked rt wq th \<longleftrightarrow> bit (wq_lst rt wq) th \<and> \<not> bit (wq_ready rt) th
     \<and> (\<forall>w\<ge>3. w \<noteq> wq \<longrightarrow> \<not> bit (wq_lst rt w) th) \<and> (\<forall>irq. irq_th rt irq \<noteq> th)"

text \<open>Thread \<open>th\<close> can run and waits for nothing.\<close>
definition runnable :: "thinkos_rt \<Rightarrow> nat \<Rightarrow> bool" where
  "runnable rt th \<longleftrightarrow> detached rt th \<and> bit (wq_ready rt) th \<and> \<not> bit (wq_tmshare rt) th"

text \<open>
  The rely relation: everything an interrupt may change of the kernel state.
  Queues only lose threads, a thread that leaves its queue becomes ready, and a
  thread that waits for nothing is not touched.
\<close>
definition rely_queues :: "thinkos_rt \<Rightarrow> thinkos_rt \<Rightarrow> bool" where
  "rely_queues rt rt' \<longleftrightarrow>
     (\<forall>wq th. 0 < wq \<longrightarrow> bit (wq_lst rt' wq) th \<longrightarrow> bit (wq_lst rt wq) th)
   \<and> (\<forall>th. bit (wq_ready rt) th \<longrightarrow> bit (wq_ready rt') th)
   \<and> wq_tmshare rt' = wq_tmshare rt"

definition rely_threads :: "thinkos_rt \<Rightarrow> thinkos_rt \<Rightarrow> bool" where
  "rely_threads rt rt' \<longleftrightarrow>
     (\<forall>th. detached rt th \<longrightarrow> 8 \<noteq> th \<longrightarrow> detached rt' th \<and> th_stat rt' th = th_stat rt th
        \<and> bit (wq_ready rt') th = bit (wq_ready rt) th \<and> bit (wq_clock rt') th = bit (wq_clock rt) th)
   \<and> (\<forall>th wq. parked rt wq th \<longrightarrow> 3 \<le> wq \<longrightarrow> 8 \<noteq> th \<longrightarrow>
        (parked rt' wq th \<and> th_stat rt' th = th_stat rt th \<and> bit (wq_clock rt') th = bit (wq_clock rt) th)
        \<or> (detached rt' th \<and> bit (wq_ready rt') th \<and> th_stat rt' th = 0))"

definition rely_fields :: "thinkos_rt \<Rightarrow> thinkos_rt \<Rightarrow> bool" where
  "rely_fields rt rt' \<longleftrightarrow>
     ctx rt' = ctx rt \<and> active rt' = active rt \<and> ticks rt' = ticks rt \<and> clock rt' = clock rt
   \<and> lock rt' = lock rt \<and> critical_cnt rt' = critical_cnt rt \<and> ev_mask rt' = ev_mask rt
   \<and> sched_val rt' = sched_val rt \<and> sched_pri rt' = sched_pri rt \<and> sched_limit rt' = sched_limit rt
   \<and> th_alloc rt' = th_alloc rt \<and> mutex_alloc rt' = mutex_alloc rt \<and> cond_alloc rt' = cond_alloc rt
   \<and> sem_alloc rt' = sem_alloc rt \<and> ev_alloc rt' = ev_alloc rt \<and> flag_alloc rt' = flag_alloc rt
   \<and> gate_alloc rt' = gate_alloc rt \<and> th_inf rt' = th_inf rt \<and> psp rt' = psp rt \<and> regs rt' = regs rt"

definition rely :: "thinkos_rt \<Rightarrow> thinkos_rt \<Rightarrow> bool" where
  "rely rt rt' \<longleftrightarrow> rely_queues rt rt' \<and> rely_threads rt rt' \<and> rely_fields rt rt'"

lemmas rely_defs = rely_def rely_queues_def rely_threads_def rely_fields_def

lemma rely_refl [simp]: "rely rt rt"
  by (simp add: rely_defs)

lemma rely_threads_trans:
  assumes "rely_threads a b" "rely_threads b c"
  shows "rely_threads a c"
proof -
  have "detached a th \<Longrightarrow> 8 \<noteq> th \<Longrightarrow> detached c th \<and> th_stat c th = th_stat a th
      \<and> bit (wq_ready c) th = bit (wq_ready a) th \<and> bit (wq_clock c) th = bit (wq_clock a) th" for th
    using assms unfolding rely_threads_def by simp
  moreover have "parked a wq th \<Longrightarrow> 3 \<le> wq \<Longrightarrow> 8 \<noteq> th \<Longrightarrow>
      (parked c wq th \<and> th_stat c th = th_stat a th \<and> bit (wq_clock c) th = bit (wq_clock a) th)
      \<or> (detached c th \<and> bit (wq_ready c) th \<and> th_stat c th = 0)" for wq th
    using assms unfolding rely_threads_def by (metis (no_types, lifting))
  ultimately show ?thesis unfolding rely_threads_def by blast
qed

lemma rely_trans: "rely a b \<Longrightarrow> rely b c \<Longrightarrow> rely a c"
  using rely_threads_trans [of a b c]
  by (simp add: rely_def rely_queues_def rely_fields_def)

text \<open>The wake-up every signaling routine ends in is \<^const>\<open>wakeup_return\<close>.\<close>
lemma signal_wakes:
  assumes "3 \<le> wq"
  shows "th_stat_st th 0 (ctx_r0_st th v (wq_bit 2 th False (wq_bit 0 th True
           (rt\<lparr>wq_lst := (wq_lst rt)(wq := bit_mem_wr (wq_lst rt wq) th False)\<rparr>))))
         = wakeup_return wq th v rt"
  using assms
  by (auto simp: wakeup_return_eq kernel_simps Let_def fun_upd_twist fun_eq_iff)

lemma sem_post_i_eq:
  "3 \<le> wq \<Longrightarrow> sem_post_i wq rt =
     (if wq_lst rt wq = 0
      then rt\<lparr>sem_val := (sem_val rt)(wq - 19 := sem_val rt (wq - 19) + 1)\<rparr>
      else wakeup_return wq (ctz (wq_lst rt wq)) 0 rt)"
  by (simp add: sem_post_i_def Let_def clz_rbit signal_wakes ctz_eq_32)

lemma flag_give_i_eq:
  "3 \<le> wq \<Longrightarrow> flag_give_i wq rt =
     (if wq_lst rt wq = 0 then rt\<lparr>flag := bit_mem_wr (flag rt) (wq - 31) True\<rparr>
      else wakeup_return wq (ctz (wq_lst rt wq)) 0 rt)"
  by (simp add: flag_give_i_def Let_def clz_rbit signal_wakes ctz_eq_32)

lemma ev_raise_i_eq:
  "3 \<le> wq \<Longrightarrow> ev_raise_i wq ev rt =
     (if 32 \<le> ev then rt\<lparr>wild := True\<rparr>
      else if \<not> bit (ev_mask rt (wq - 27)) ev \<or> wq_lst rt wq = 0
      then rt\<lparr>ev_pend := (ev_pend rt)(wq - 27 := bit_mem_wr (ev_pend rt (wq - 27)) ev True)\<rparr>
      else wakeup_return wq (ctz (wq_lst rt wq)) (of_nat ev) rt)"
  by (simp add: ev_raise_i_def Let_def clz_rbit signal_wakes ctz_eq_32 bit_mem_rd_def)


text \<open>The two bits of a gate.\<close>
lemma bit_word_2: "bit (2 :: u32) n \<longleftrightarrow> n = Suc 0"
  and bit_word_3: "bit (3 :: u32) n \<longleftrightarrow> n = 0 \<or> n = Suc 0"
proof -
  show 2: "bit (2 :: u32) n \<longleftrightarrow> n = Suc 0"
    using bit_2_iff [where 'a = u32, of n] by auto
  have "(3 :: u32) = 2 OR 1" by simp
  then show "bit (3 :: u32) n \<longleftrightarrow> n = 0 \<or> n = Suc 0"
    using 2 by (auto simp only: bit_or_iff bit_1_iff)
qed

lemma gate_locked_bit: "(g :: u32) AND push_bit i 2 \<noteq> 0 \<longleftrightarrow> bit g (Suc i)"
proof -
  have "bit (g AND push_bit i 2) n \<longleftrightarrow> n = Suc i \<and> bit g n" for n
    by (auto simp: bit_and_iff bit_push_bit_iff bit_word_2 dest: bit_less_32 simp del: bit_numeral_word_iff)
  then show ?thesis by (metis bit_eq_iff bit_0_eq bot_apply bot_bool_def)
qed

lemma gate_put_locked: "(g :: u32) OR push_bit i 3 = bit_mem_wr (bit_mem_wr g i True) (Suc i) True"
  by (rule bit_word_eqI) (auto simp: bit_or_iff bit_push_bit_iff bit_word_3 simp del: bit_numeral_word_iff)

lemma gate_clear_locked: "(g :: u32) AND NOT (push_bit i 2) = bit_mem_wr g (Suc i) False"
  by (rule bit_word_eqI) (auto simp: bit_and_iff bit_not_iff bit_push_bit_iff bit_word_2 simp del: bit_numeral_word_iff)

lemma gate_state_signaled: "drop_bit i (g :: u32) AND 3 = 1 \<longleftrightarrow> bit g i \<and> \<not> bit g (Suc i)"
proof -
  have b: "bit (drop_bit i g AND 3) n \<longleftrightarrow> (n = 0 \<or> n = Suc 0) \<and> bit g (i + n)" for n
    by (auto simp: bit_and_iff bit_drop_bit_eq bit_word_3 simp del: bit_numeral_word_iff)
  have "drop_bit i g AND 3 = 1 \<longleftrightarrow> (\<forall>n. bit (drop_bit i g AND 3) n \<longleftrightarrow> n = 0)"
    by (auto simp: bit_eq_iff [of "drop_bit i g AND 3" 1] bit_1_iff dest: bit_less_32)
  also have "\<dots> \<longleftrightarrow> bit g i \<and> \<not> bit g (Suc i)"
    unfolding b by (metis add.right_neutral add_Suc_right nat.distinct(1))
  finally show ?thesis .
qed

lemma gate_enter:
  "bit_mem_wr (bit_mem_wr (bit_mem_wr g i True) (Suc i) True) i False
   = bit_mem_wr (bit_mem_wr g i False) (Suc i) True"
  by (rule bit_word_eqI) auto

lemma gate_open_i_eq:
  "3 \<le> wq \<Longrightarrow> gate_open_i wq rt =
     (let i = 2 * (wq - 39) in
      if bit (gate rt) (Suc i) \<or> wq_lst rt wq = 0
      then rt\<lparr>gate := bit_mem_wr (gate rt) i True\<rparr>
      else wakeup_return wq (ctz (wq_lst rt wq)) 0
             (rt\<lparr>gate := bit_mem_wr (bit_mem_wr (gate rt) i False) (Suc i) True\<rparr>))"
  by (auto simp: gate_open_i_def Let_def clz_rbit ctz_eq_32 gate_locked_bit
    gate_put_locked gate_clear_locked gate_enter kernel_simps simp flip: signal_wakes)

lemma rely_wakeup:
  assumes "3 \<le> wq" "bit (wq_lst rt wq) th"
  shows "rely rt (wakeup_return wq th v rt)"
  using assms
  by (auto simp: rely_defs wakeup_return_eq detached_def parked_def Let_def split: if_splits dest: bit_less_32)


text \<open>All entries of interrupt context, as updates of fields.\<close>
lemmas isr_defs =
  cm3_except7_isr_def cm3_except9_isr_def cm3_except10_isr_def cm3_except13_isr_def
  cm3_default_isr_def console_tx_pipe_commit_def console_rx_pipe_commit_def wq_remove_def
  sem_post_i_eq ev_raise_i_eq flag_give_i_eq gate_open_i_eq umem_st_def wakeup_is_return

text \<open>Fields the relation does not mention.\<close>
lemma rely_frame [simp]:
  "rely rt (rt'\<lparr>pendsv := b\<rparr>) = rely rt rt'"
  "rely rt (rt'\<lparr>sem_val := f\<rparr>) = rely rt rt'"
  "rely rt (rt'\<lparr>flag := w\<rparr>) = rely rt rt'"
  "rely rt (rt'\<lparr>gate := w\<rparr>) = rely rt rt'"
  "rely rt (rt'\<lparr>ev_pend := f\<rparr>) = rely rt rt'"
  "rely rt (rt'\<lparr>wild := b\<rparr>) = rely rt rt'"
  "rely rt (rt'\<lparr>console := c\<rparr>) = rely rt rt'"
  "rely rt (rt'\<lparr>umem := u\<rparr>) = rely rt rt'"
  "rely rt (rt'\<lparr>mem := m\<rparr>) = rely rt rt'"
  "rely rt (rt'\<lparr>irq_en := e\<rparr>) = rely rt rt'"
  by (simp_all add: rely_defs detached_def parked_def)

lemma rely_wakeup_head:
  assumes "3 \<le> wq" "w \<noteq> 0" "rely rt rt'" "wq_lst rt' wq = w"
  shows "rely rt (wakeup_return wq (ctz w) v rt')"
  using assms rely_trans [OF assms(3) rely_wakeup [OF assms(1)]]
  by (auto simp: ctz_bit ctz_less_32)

lemma rely_default_isr: "rely rt (cm3_default_isr irq rt)"
  by (auto simp: rely_defs cm3_default_isr_def detached_def parked_def Let_def wq_remove_def kernel_simps
      split: if_splits dest: bit_less_32)

lemma rely_console_rx: "rely rt (console_rx_pipe_commit n rt)"
  by (auto simp: console_rx_pipe_commit_def Let_def wq_head_eq umem_st_def defer_sched_def
      ctz_eq_32 split: prod.split intro!: rely_wakeup_head)

lemma rely_isr_run:
  assumes "isr_ok i"
  shows "rely rt (isr_run i rt)"
  using assms
proof (cases i)
  case (ConsoleTx n)
  then show ?thesis
    by (auto simp: console_tx_pipe_commit_def Let_def wq_head_eq defer_sched_def wakeup_is_return
        ctz_eq_32 intro!: rely_wakeup_head)
qed (auto simp: cm3_except7_isr_def cm3_except9_isr_def cm3_except10_isr_def cm3_except13_isr_def
      preempt_eq sem_post_i_eq ev_raise_i_eq flag_give_i_eq gate_open_i_eq Let_def
      rely_default_isr rely_console_rx intro!: rely_wakeup_head)

lemma rely_isrs_run: "list_all isr_ok is \<Longrightarrow> rely rt (isrs_run is rt)"
  by (induction "is" arbitrary: rt) (auto intro: rely_trans rely_isr_run)


text \<open>Thread \<open>th\<close> either can run or waits in \<open>wq\<close>.\<close>
definition settled :: "thinkos_rt \<Rightarrow> nat \<Rightarrow> nat \<Rightarrow> bool" where
  "settled rt wq th \<longleftrightarrow> runnable rt th \<or> (parked rt wq th \<and> \<not> bit (wq_tmshare rt) th)"

definition suspended :: "thinkos_rt \<Rightarrow> nat \<Rightarrow> bool" where
  "suspended rt th \<longleftrightarrow> detached rt th \<and> \<not> bit (wq_ready rt) th \<and> \<not> bit (wq_tmshare rt) th"

lemma rely_settled:
  assumes "rely rt rt'" "th < 8" "3 \<le> wq" "settled rt wq th"
  shows "settled rt' wq th"
  using assms unfolding rely_def rely_queues_def rely_threads_def settled_def runnable_def
  by (metis less_irrefl_nat)

lemma rely_runnable:
  assumes "rely rt rt'" "th < 8"
  shows "runnable rt th \<Longrightarrow> runnable rt' th" "suspended rt th \<Longrightarrow> suspended rt' th"
  using assms unfolding rely_def rely_queues_def rely_threads_def suspended_def runnable_def
  by (metis less_irrefl_nat)+

section \<open>The protocol of a waiting service\<close>

text \<open>
  The contract between the objects of one kind and the protocol. Object \<open>x\<close> has
  the queue \<open>base + x\<close>; \<open>avail x\<close> says whether it can be taken. The law \<open>signal\<close>
  is the promise of the signaling routines: as long as a thread waits on the
  object, a signal goes to a waiting thread and does not make the object
  available. The other laws say which parts of the state the steps of a service
  leave alone.
\<close>
locale wait_object =
  fixes avail :: "nat \<Rightarrow> thinkos_rt \<Rightarrow> bool"
    and tak :: "nat \<Rightarrow> u32 \<Rightarrow> thinkos_rt \<Rightarrow> thinkos_rt"
    and prep :: "nat \<Rightarrow> nat \<Rightarrow> u32 \<Rightarrow> thinkos_rt \<Rightarrow> thinkos_rt"
    and arm :: "nat \<Rightarrow> u32 \<Rightarrow> thinkos_rt \<Rightarrow> thinkos_rt"
    and fin :: "u32 \<Rightarrow> thinkos_rt \<Rightarrow> thinkos_rt"
    and base num :: nat
  assumes base: "3 \<le> base"
    and avail_queues: "avail x (rt\<lparr>wq_lst := f\<rparr>) = avail x rt"
    and avail_stat: "avail x (th_stat_st self st rt) = avail x rt"
    and avail_prep: "avail x (prep self wq arg rt) = avail x rt"
    and avail_arm: "avail x (arm self ms rt) = avail x rt"
    and avail_fin: "avail x (fin arg rt) = avail x rt"
    and signal: "isr_ok i \<Longrightarrow> x < num \<Longrightarrow> \<not> avail x rt \<Longrightarrow> wq_lst rt (base + x) \<noteq> 0
      \<Longrightarrow> \<not> avail x (isr_run i rt)"
    and prep_queues: "wq_lst (prep self wq arg rt) = wq_lst rt"
    and prep_lines: "irq_th (prep self wq arg rt) = irq_th rt"
    and arm_queues: "w \<noteq> 2 \<Longrightarrow> wq_lst (arm self ms rt) w = wq_lst rt w"
    and arm_lines: "irq_th (arm self ms rt) = irq_th rt"
    and fin_queues: "wq_lst (fin arg rt) = wq_lst rt"
    and fin_lines: "irq_th (fin arg rt) = irq_th rt"
    and tak_queues: "wq_lst (tak x arg rt) = wq_lst rt"
    and tak_lines: "irq_th (tak x arg rt) = irq_th rt"
    and tak_avail: "avail x rt \<Longrightarrow> avail y (tak x arg rt) \<Longrightarrow> avail y rt"
begin

abbreviation block where
  "block x self arg ms \<equiv> wait_block (avail x) (prep self (base + x) arg) (arm self ms) (fin arg) (base + x) self"

abbreviation once where
  "once x self arg ms \<equiv>
     wait_once (avail x) (tak x arg) (prep self (base + x) arg) (arm self ms) (fin arg) (base + x) self"

text \<open>No thread waits on an available object.\<close>
definition served :: "nat \<Rightarrow> thinkos_rt \<Rightarrow> bool" where
  "served x rt \<longleftrightarrow> (wq_lst rt (base + x) \<noteq> 0 \<longrightarrow> \<not> avail x rt)"

lemma served_isr:
  assumes "isr_ok i" "x < num" "served x rt"
  shows "served x (isr_run i rt)"
proof -
  have "wq_lst rt (base + x) = 0 \<Longrightarrow> wq_lst (isr_run i rt) (base + x) = 0"
    using rely_isr_run [OF \<open>isr_ok i\<close>, of rt] base
    by (auto simp: rely_def rely_queues_def word_eq_0_bits)
  then show ?thesis using assms signal [of i x rt] by (auto simp: served_def)
qed

lemma served_isrs: "list_all isr_ok is \<Longrightarrow> x < num \<Longrightarrow> served x rt \<Longrightarrow> served x (isrs_run is rt)"
  by (induction "is" arbitrary: rt) (auto intro: served_isr)

lemma served_suspend: "served x (prep self wq arg (suspend self rt)) = served x rt"
  using base by (simp add: served_def avail_prep prep_queues suspend_eq avail_queues)

lemma served_rollback: "served x (wait_rollback self rt) = served x rt"
  using base
  by (simp add: served_def wait_rollback_def wq_bit_def avail_queues avail_stat) (simp add: th_stat_st_def)

lemma served_end: "served x (arm self ms rt) = served x rt" "served x (fin arg rt) = served x rt"
  using base by (simp_all add: served_def avail_arm avail_fin arm_queues fin_queues)

lemma served_tak: "avail x rt \<Longrightarrow> served y rt \<Longrightarrow> served y (tak x arg rt)"
  using tak_avail [of x rt y arg] by (auto simp: served_def tak_queues)

lemma served_put: "\<not> avail x rt \<Longrightarrow> served y rt \<Longrightarrow> served y (rt\<lparr>wq_lst := (wq_lst rt)(base + x := w)\<rparr>)"
  by (auto simp: served_def avail_queues)

lemma served_block:
  assumes "irqs_ok q" "y < num" "served y rt"
  shows "served y (snd (block x self arg ms q rt))"
  using assms
  by (auto simp: wait_block_def Let_def irqs_ok_def served_isrs served_suspend served_rollback
      served_end intro!: served_isrs served_put)

lemma served_once:
  assumes "irqs_ok q" "y < num" "served y rt"
  shows "served y (snd (once x self arg ms q rt))"
  using assms served_block [where q = q and x = x and y = y and rt = rt and self = self and arg = arg and ms = ms]
  by (simp add: wait_once_def served_tak served_isrs irqs_ok_def)

text \<open>The undisturbed pass ends the loop.\<close>
lemma once_quiet: "\<not> fst (once x self arg ms no_irqs rt)"
  by (simp add: wait_once_def wait_block_def no_irqs_def Let_def avail_prep suspend_eq avail_queues)

text \<open>No wake-up is lost, whatever interrupts the passes.\<close>
lemma served_wait:
  assumes "list_all irqs_ok qs" "y < num" "served y rt"
  shows "served y (retry (once x self arg ms) no_irqs qs rt)"
  using assms
proof (induction qs arbitrary: rt)
  case Nil
  then show ?case using served_once [where q = no_irqs and x = x and y = y and rt = rt] by (simp add: irqs_ok_def no_irqs_def)
next
  case (Cons q qs)
  then show ?case
    using served_once [where q = q and x = x and y = y and rt = rt and self = self and arg = arg and ms = ms] by (cases "once x self arg ms q rt") auto
qed

lemma runnable_suspend: "runnable rt self \<Longrightarrow> suspended (prep self wq arg (suspend self rt)) self"
  by (auto simp: runnable_def suspended_def detached_def prep_queues prep_lines suspend_eq suspend_wq_bits)

lemma suspended_rollback: "self < 8 \<Longrightarrow> suspended rt self \<Longrightarrow> runnable (wait_rollback self rt) self"
  by (auto simp: runnable_def suspended_def detached_def wait_rollback_def kernel_simps)

lemma suspended_put:
  assumes "suspended rt self" "self < 8" "3 \<le> wq"
  shows "settled (rt\<lparr>wq_lst := (wq_lst rt)(wq := bit_mem_wr (wq_lst rt wq) self True)\<rparr>) wq self"
  using assms by (auto simp: settled_def suspended_def detached_def parked_def)

lemma settled_end:
  "3 \<le> wq \<Longrightarrow> settled (arm self ms rt) wq th = settled rt wq th"
  "settled (fin arg rt) wq th = settled rt wq th"
  by (auto simp: settled_def runnable_def parked_def detached_def arm_queues arm_lines fin_queues fin_lines)

lemma runnable_tak: "runnable (tak x arg rt) self = runnable rt self"
  by (simp add: runnable_def detached_def tak_queues tak_lines)

lemma block_outcome:
  assumes "irqs_ok q" "self < 8" "runnable rt self" "block x self arg ms q rt = (again, rt')"
  shows "if again then runnable rt' self else settled rt' (base + x) self"
proof -
  note ok = assms(1) [unfolded irqs_ok_def, simplified]
  define a where "a = isrs_run (i_ld q) rt"
  define b where "b = isrs_run (i_susp q) (prep self (base + x) arg (suspend self a))"
  define c where "c = isrs_run (i_chk q) b"
  have "runnable a self"
    using ok assms(2,3) by (auto simp: a_def intro: rely_runnable rely_isrs_run)
  then have b: "suspended b self"
    using ok assms(2) by (auto simp: b_def intro: rely_runnable rely_isrs_run runnable_suspend)
  then have c: "suspended c self"
    using ok assms(2) by (auto simp: c_def intro: rely_runnable rely_isrs_run)
  have bc: "i_chk q = [] \<Longrightarrow> c = b" by (simp add: c_def)
  show ?thesis
  proof (cases "avail x c \<or> i_chk q \<noteq> [] \<or> i_strex q \<noteq> []")
    case True
    then have "again" "runnable rt' self"
      using assms(2,4) ok c
      by (auto simp: wait_block_def Let_def split: if_splits simp flip: a_def b_def c_def
          intro!: suspended_rollback rely_runnable [OF rely_isrs_run])
    then show ?thesis by simp
  next
    case False
    then have "rt' = fin arg (isrs_run (i_ret q) (arm self ms (isrs_run (i_tail q)
        (b\<lparr>wq_lst := (wq_lst b)(base + x := bit_mem_wr (wq_lst b (base + x)) self True)\<rparr>))))" "\<not> again"
      using assms(4) bc by (auto simp: wait_block_def Let_def simp flip: a_def b_def c_def)
    then show ?thesis
      using ok base assms(2) suspended_put [OF b]
      by (simp add: settled_end rely_settled [OF rely_isrs_run])
  qed
qed

lemma once_outcome:
  assumes "irqs_ok q" "self < 8" "runnable rt self" "once x self arg ms q rt = (again, rt')"
  shows "if again then runnable rt' self else settled rt' (base + x) self"
proof (cases "avail x rt")
  case True
  have "runnable (isrs_run (i_ld q) rt) self"
    using assms by (auto simp: irqs_ok_def intro: rely_runnable rely_isrs_run)
  then show ?thesis
    using assms True by (auto simp: wait_once_def runnable_tak settled_def split: if_splits)
next
  case False
  then show ?thesis
    using assms block_outcome [where q = q and self = self and rt = rt and x = x and arg = arg and ms = ms] by (simp add: wait_once_def)
qed

text \<open>The caller ends up either able to run or waiting in the queue of the object.\<close>
lemma settled_wait:
  assumes "list_all irqs_ok qs" "self < 8" "runnable rt self"
  shows "settled (retry (once x self arg ms) no_irqs qs rt) (base + x) self"
  using assms
proof (induction qs arbitrary: rt)
  case Nil
  have "irqs_ok no_irqs" by (simp add: irqs_ok_def no_irqs_def)
  then show ?case
    using once_outcome [where q = no_irqs and self = self and rt = rt and x = x and arg = arg and ms = ms] once_quiet [where x = x and self = self and rt = rt and arg = arg and ms = ms] Nil
    by (cases "once x self arg ms no_irqs rt") fastforce
next
  case (Cons q qs)
  show ?case
  proof (cases "once x self arg ms q rt")
    case (Pair again rt')
    then show ?thesis
      using Cons once_outcome [where q = q and self = self and rt = rt and x = x and arg = arg and ms = ms] by (cases again) simp_all
  qed
qed

end

section \<open>Waiting with a timeout\<close>

text \<open>A thread that stays in its queue stays in the clock queue.\<close>
lemma rely_armed:
  assumes "rely rt rt'" "th < 8" "3 \<le> wq" "settled rt wq th" "parked rt' wq th" "bit (wq_clock rt) th"
  shows "bit (wq_clock rt') th"
proof -
  have "bit (wq_lst rt wq) th" using assms(1,3,5) by (auto simp: rely_def rely_queues_def parked_def)
  then have "parked rt wq th"
    using assms(3,4) by (auto simp: settled_def runnable_def detached_def)
  moreover have "\<not> detached rt' th" using assms(3,5) by (auto simp: parked_def detached_def)
  ultimately show ?thesis using assms(1-3,6) unfolding rely_def rely_threads_def by (metis less_irrefl_nat)
qed

text \<open>The contract of a waiting object extended with the clock.\<close>
locale timed_object = wait_object +
  assumes arm_bit: "self < 8 \<Longrightarrow> bit (wq_clock (arm self ms rt)) self"
    and arm_due: "clock (arm self ms rt) self = ticks rt + ms"
    and fin_clock: "clock (fin arg rt) = clock rt"
    and prep_ticks: "ticks (prep self wq arg rt) = ticks rt"
begin

definition armed :: "thinkos_rt \<Rightarrow> nat \<Rightarrow> u32 \<Rightarrow> nat \<Rightarrow> bool" where
  "armed rt wq due th \<longleftrightarrow> (parked rt wq th \<longrightarrow> bit (wq_clock rt) th \<and> clock rt th = due)"

lemma runnable_armed: "runnable rt th \<Longrightarrow> armed rt (base + x) due th"
  using base by (auto simp: armed_def runnable_def detached_def parked_def)

lemma ticks_isrs: "list_all isr_ok is \<Longrightarrow> ticks (isrs_run is rt) = ticks rt"
  using rely_isrs_run [of "is" rt] by (simp add: rely_def rely_fields_def)

lemma ticks_wait: "ticks (suspend self rt) = ticks rt" "ticks (wait_rollback self rt) = ticks rt"
  by (simp_all add: suspend_eq wait_rollback_def kernel_simps)

lemma block_armed:
  assumes "irqs_ok q" "self < 8" "runnable rt self" "block x self arg ms q rt = (again, rt')"
  shows "if again then ticks rt' = ticks rt else armed rt' (base + x) (ticks rt + ms) self"
proof -
  note ok = assms(1) [unfolded irqs_ok_def, simplified]
  define a where "a = isrs_run (i_ld q) rt"
  define b where "b = isrs_run (i_susp q) (prep self (base + x) arg (suspend self a))"
  define c where "c = isrs_run (i_chk q) b"
  have t: "ticks b = ticks rt" "ticks c = ticks rt" using ok by (simp_all add: a_def b_def c_def ticks_isrs prep_ticks ticks_wait)
  have "runnable a self" using ok assms(2,3) by (auto simp: a_def intro: rely_runnable rely_isrs_run)
  then have b: "suspended b self"
    using ok assms(2) by (auto simp: b_def intro: rely_runnable rely_isrs_run runnable_suspend)
  have bc: "i_chk q = [] \<Longrightarrow> c = b" by (simp add: c_def)
  show ?thesis
  proof (cases "avail x c \<or> i_chk q \<noteq> [] \<or> i_strex q \<noteq> []")
    case True
    then have "again" "ticks rt' = ticks rt"
      using assms(4) ok t by (auto simp: wait_block_def Let_def ticks_isrs ticks_wait split: if_splits simp flip: a_def b_def c_def)
    then show ?thesis by simp
  next
    case False
    define d where "d = isrs_run (i_tail q) (b\<lparr>wq_lst := (wq_lst b)(base + x := bit_mem_wr (wq_lst b (base + x)) self True)\<rparr>)"
    define e where "e = arm self ms d"
    have r: "rt' = fin arg (isrs_run (i_ret q) e)" "\<not> again"
      using assms(4) bc False by (auto simp: wait_block_def Let_def d_def e_def simp flip: a_def b_def c_def)
    have "settled e (base + x) self"
      using ok base assms(2) suspended_put [OF b] by (simp add: e_def d_def settled_end rely_settled [OF rely_isrs_run])
    moreover have "bit (wq_clock e) self" "clock e self = ticks rt + ms"
      using ok t assms(2) arm_bit [of self ms d] by (simp_all add: e_def arm_due d_def ticks_isrs)
    moreover have "rely e (isrs_run (i_ret q) e)" using ok by (simp add: rely_isrs_run)
    moreover from this have "clock (isrs_run (i_ret q) e) = clock e" by (simp add: rely_def rely_fields_def)
    ultimately have "armed (isrs_run (i_ret q) e) (base + x) (ticks rt + ms) self"
      using rely_armed [of e "isrs_run (i_ret q) e" self "base + x"] assms(2) base by (auto simp: armed_def)
    then show ?thesis using r by (simp add: armed_def parked_def fin_queues fin_lines fin_clock)
  qed
qed

lemma once_armed:
  assumes "irqs_ok q" "self < 8" "runnable rt self" "once x self arg ms q rt = (again, rt')"
  shows "if again then ticks rt' = ticks rt \<and> runnable rt' self else armed rt' (base + x) (ticks rt + ms) self"
proof (cases "avail x rt")
  case True
  then show ?thesis
    using assms once_outcome [OF assms] runnable_armed [of rt' self x]
    by (auto simp: wait_once_def irqs_ok_def ticks_isrs runnable_tak runnable_armed split: if_splits)
next
  case False
  then show ?thesis
    using assms once_outcome [OF assms] block_armed [where q = q and self = self and rt = rt and x = x and arg = arg and ms = ms]
    by (auto simp: wait_once_def split: if_splits)
qed

text \<open>A caller that ends up waiting is due \<open>ms\<close> ticks after the call.\<close>
lemma armed_wait:
  assumes "list_all irqs_ok qs" "self < 8" "runnable rt self"
  shows "armed (retry (once x self arg ms) no_irqs qs rt) (base + x) (ticks rt + ms) self"
  using assms(1,3)
proof (induction qs arbitrary: rt)
  case Nil
  have no: "irqs_ok no_irqs" by (simp add: irqs_ok_def no_irqs_def)
  obtain again s where o: "once x self arg ms no_irqs rt = (again, s)" by (cases "once x self arg ms no_irqs rt") auto
  then have "\<not> again" using once_quiet [where x = x and self = self and rt = rt and arg = arg and ms = ms] by simp
  then show ?case using once_armed [OF no assms(2) Nil.prems(2) o] o by simp
next
  case (Cons q qs)
  obtain again s where o: "once x self arg ms q rt = (again, s)" by (cases "once x self arg ms q rt") auto
  have q: "irqs_ok q" "list_all irqs_ok qs" using Cons.prems(1) by simp_all
  show ?case using once_armed [OF q(1) assms(2) Cons.prems(2) o] o Cons.IH [OF q(2), of s] by (cases again) simp_all
qed

end

end
