(* ===== verification/Alloc.thy ===== *)
theory Alloc
  imports Kernel
begin

text \<open>
  The allocation bitmaps (\<open>misc/bmp_alloc.c\<close>): one bit per object, set while
  the object is in use; the bits past the last object are set at initialization
  and stay set. The interface the object services use is the locale
  \<open>id_allocator\<close>.
\<close>

function bmp_alloc_loop :: "nat \<Rightarrow> u32 list \<Rightarrow> nat \<Rightarrow> u32 list \<times> int" where
  "bmp_alloc_loop n bmp i =
     (if i < n
      then let j = clz (rbit (NOT (bmp ! i))) in
           if j < 32 then (bmp[i := bit_mem_wr (bmp ! i) j True], int (32 * i + j))
           else bmp_alloc_loop n bmp (i + 1)
      else (bmp, -9))"
  by auto
termination by (relation "measure (\<lambda>(n, _, i). n - i)") auto

declare bmp_alloc_loop.simps [simp del]

definition bmp_alloc :: "u32 list \<Rightarrow> nat \<Rightarrow> u32 list \<times> int" where
  "bmp_alloc bmp bits = bmp_alloc_loop ((bits + 31) div 32) bmp 0"

definition bmp_init :: "u32 list \<Rightarrow> nat \<Rightarrow> u32 list" where
  "bmp_init bmp bits =
     (let n = bits div 32; bmp = replicate n 0 @ drop n bmp in
      if bits mod 32 \<noteq> 0 then bmp[n := push_bit (bits mod 32) (- 1)] else bmp)"

text \<open>The bitmaps of the run time block are single words.\<close>
definition bmp_alloc1 :: "u32 \<Rightarrow> nat \<Rightarrow> u32 \<times> int" where
  "bmp_alloc1 w bits = (case bmp_alloc [w] bits of (b, i) \<Rightarrow> (hd b, i))"

definition bmp_init1 :: "nat \<Rightarrow> u32" where
  "bmp_init1 bits = hd (bmp_init [0] bits)"

section \<open>The bitmap as a set of identifiers\<close>

definition bmp_used :: "u32 list \<Rightarrow> nat set" where
  "bmp_used bmp = {k. k < 32 * length bmp \<and> bit (bmp ! (k div 32)) (k mod 32)}"

lemma ctz_not: "clz (rbit (NOT w)) = j \<Longrightarrow> j < 32 \<Longrightarrow> \<not> bit w j \<and> (\<forall>m<j. bit w m)"
  using ctz_bit [of "NOT w"] ctz_min [of _ "NOT w"] by (auto simp: clz_rbit bit_not_iff)

lemma ctz_not_full: "\<not> clz (rbit (NOT w)) < 32 \<Longrightarrow> \<forall>m<32. bit w m"
proof -
  assume "\<not> clz (rbit (NOT w)) < 32"
  then have "NOT w = 0" by (simp add: clz_rbit ctz_less_32)
  then have "\<not> bit (NOT w) m" for m by simp
  then show ?thesis by (auto simp: bit_not_iff)
qed

text \<open>A word index and a bit index determine the identifier.\<close>
lemma bmp_used_upd:
  assumes "i < length bmp" "j < 32"
  shows "bmp_used (bmp[i := bit_mem_wr (bmp ! i) j True]) = insert (32 * i + j) (bmp_used bmp)"
    and "bmp_used (bmp[i := bit_mem_wr (bmp ! i) j False]) = bmp_used bmp - {32 * i + j}"
proof -
  have eq: "k = 32 * i + j \<longleftrightarrow> k div 32 = i \<and> k mod 32 = j" for k
    using assms(2) by auto
  have lt: "32 * i + j < 32 * length bmp" using assms by linarith
  have d: "(32 * i + j) div 32 = i" "(32 * i + j) mod 32 = j" using assms(2) by auto
  show "bmp_used (bmp[i := bit_mem_wr (bmp ! i) j True]) = insert (32 * i + j) (bmp_used bmp)"
    using assms lt d by (auto simp: bmp_used_def nth_list_update eq)
  show "bmp_used (bmp[i := bit_mem_wr (bmp ! i) j False]) = bmp_used bmp - {32 * i + j}"
    using assms lt d by (auto simp: bmp_used_def nth_list_update eq)
qed

lemma bmp_alloc_loop_spec:
  assumes "n \<le> length bmp" "\<forall>k<32 * i. k \<in> bmp_used bmp" "i \<le> n"
    and "bmp_alloc_loop n bmp i = (bmp', r)"
  shows "if \<forall>k<32 * n. k \<in> bmp_used bmp then r = -9 \<and> bmp' = bmp
         else \<exists>k<32 * n. r = int k \<and> k \<notin> bmp_used bmp \<and> (\<forall>m<k. m \<in> bmp_used bmp)
               \<and> bmp_used bmp' = insert k (bmp_used bmp) \<and> length bmp' = length bmp"
  using assms
proof (induction n bmp i rule: bmp_alloc_loop.induct)
  case (1 n bmp i)
  let ?j = "clz (rbit (NOT (bmp ! i)))"
  note unfold = bmp_alloc_loop.simps [of n bmp i]
  show ?case
  proof (cases "i < n")
    case True
    note i = this
    show ?thesis
    proof (cases "?j < 32")
      case True
      note f = ctz_not [OF refl True]
      have lt: "32 * i + ?j < 32 * n" using True i by linarith
      have free: "32 * i + ?j \<notin> bmp_used bmp"
        using f True by (simp add: bmp_used_def)
      have low: "m \<in> bmp_used bmp" if "m < 32 * i + ?j" for m
      proof (cases "m < 32 * i")
        case False
        define d where "d = m - 32 * i"
        with False that have "m = 32 * i + d" "d < ?j" by auto
        then show ?thesis
          using f True i "1.prems"(1) by (simp add: bmp_used_def)
      qed (use "1.prems"(2) in simp)
      have "r = int (32 * i + ?j)" "bmp' = bmp[i := bit_mem_wr (bmp ! i) ?j True]"
        using "1.prems"(4) i True unfold by (simp_all add: Let_def)
      then show ?thesis
        using lt free low bmp_used_upd(1) [of i bmp ?j] True i "1.prems"(1)
        by (auto intro!: exI [of _ "32 * i + ?j"])
    next
      case False
      have "k \<in> bmp_used bmp" if "k < 32 * Suc i" for k
      proof (cases "k < 32 * i")
        case False
        define d where "d = k - 32 * i"
        with False \<open>k < 32 * Suc i\<close> have "k = 32 * i + d" "d < 32" by auto
        then show ?thesis
          using ctz_not_full [OF \<open>\<not> ?j < 32\<close>] i "1.prems"(1) by (simp add: bmp_used_def)
      qed (use "1.prems"(2) in simp)
      then show ?thesis
        using "1.IH" [OF i refl False] "1.prems" i False unfold by (simp add: Let_def)
    qed
  next
    case False
    then show ?thesis using "1.prems" unfold by simp
  qed
qed

lemma bmp_alloc_spec:
  assumes "(bits + 31) div 32 \<le> length bmp" "bmp_alloc bmp bits = (bmp', r)"
  shows "if \<forall>k<32 * ((bits + 31) div 32). k \<in> bmp_used bmp then r = -9 \<and> bmp' = bmp
         else \<exists>k<32 * ((bits + 31) div 32). r = int k \<and> k \<notin> bmp_used bmp \<and> (\<forall>m<k. m \<in> bmp_used bmp)
               \<and> bmp_used bmp' = insert k (bmp_used bmp) \<and> length bmp' = length bmp"
  using bmp_alloc_loop_spec [OF assms(1), of 0 bmp' r] assms(2) by (simp add: bmp_alloc_def)

lemma bmp_init_used:
  assumes "length bmp = (bits + 31) div 32"
  shows "length (bmp_init bmp bits) = length bmp"
    and "bmp_used (bmp_init bmp bits) = {bits..<32 * length bmp}"
proof -
  show len: "length (bmp_init bmp bits) = length bmp"
    using assms by (simp add: bmp_init_def Let_def)
  have "k \<in> bmp_used (bmp_init bmp bits) \<longleftrightarrow> bits \<le> k" if k: "k < 32 * length bmp" for k
  proof (cases "k div 32 < bits div 32")
    case True
    then have "\<not> bits \<le> k" "bmp_init bmp bits ! (k div 32) = 0"
      using div_le_mono [of bits k 32]
      by (auto simp: bmp_init_def Let_def nth_append)
    then show ?thesis by (simp add: bmp_used_def)
  next
    case False
    have e: "k div 32 = bits div 32" "bits mod 32 \<noteq> 0"
    proof -
      have "k div 32 < (bits + 31) div 32"
        using k by (simp add: assms less_mult_imp_div_less mult.commute)
      moreover have "(bits + 31) div 32 = bits div 32 + (bits mod 32 + 31) div 32"
      proof -
        have "bits + 31 = 32 * (bits div 32) + (bits mod 32 + 31)" by simp
        then show ?thesis by (simp only: div_mult_self4)
      qed
      moreover have "(bits mod 32 + 31) div 32 \<le> 1"
        using div_le_mono [of "bits mod 32 + 31" 63 32] mod_less_divisor [of 32 bits] by simp
      moreover have "bits mod 32 = 0 \<Longrightarrow> (bits mod 32 + 31) div 32 = 0"
        by simp
      ultimately show "k div 32 = bits div 32" "bits mod 32 \<noteq> 0"
        using False by linarith+
    qed
    then have "bmp_init bmp bits ! (k div 32) = push_bit (bits mod 32) (- 1)"
      using k assms by (simp add: bmp_init_def Let_def)
    moreover have "bits \<le> k \<longleftrightarrow> bits mod 32 \<le> k mod 32"
      using e(1) by (metis div_mult_mod_eq nat_add_left_cancel_le)
    ultimately show ?thesis
      using k len by (simp add: bmp_used_def bit_not_iff bit_mask_iff not_less)
  qed
  then show "bmp_used (bmp_init bmp bits) = {bits..<32 * length bmp}"
    using len by (auto simp: bmp_used_def)
qed


section \<open>The allocator interface\<close>

text \<open>
  What the object services rely on: an allocation returns the lowest identifier
  not in use and marks it, or \<open>THINKOS_ENOMEM\<close> when all are in use; releasing an
  identifier makes it free again.
\<close>
locale id_allocator =
  fixes alloc :: "'s \<Rightarrow> 's \<times> int"
    and free :: "nat \<Rightarrow> 's \<Rightarrow> 's"
    and used :: "'s \<Rightarrow> nat set"
    and ok :: "'s \<Rightarrow> bool"
    and cap :: nat
  assumes used_cap: "used s \<subseteq> {..<cap}"
    and alloc_some: "ok s \<Longrightarrow> \<not> {..<cap} \<subseteq> used s \<Longrightarrow> alloc s = (s', r) \<Longrightarrow>
      ok s' \<and> (\<exists>k<cap. r = int k \<and> k \<notin> used s \<and> (\<forall>m<k. m \<in> used s) \<and> used s' = insert k (used s))"
    and alloc_none: "ok s \<Longrightarrow> {..<cap} \<subseteq> used s \<Longrightarrow> alloc s = (s, -9)"
    and free: "ok s \<Longrightarrow> k < cap \<Longrightarrow> ok (free k s) \<and> used (free k s) = used s - {k}"
begin

lemma alloc_ok: "ok s \<Longrightarrow> ok (fst (alloc s))"
  using alloc_some [of s "fst (alloc s)" "snd (alloc s)"] alloc_none [of s]
  by (cases "{..<cap} \<subseteq> used s") (simp_all del: lessThan_subset_iff)

lemma alloc_result:
  assumes "ok s" "alloc s = (s', r)"
  shows "r < 0 \<longleftrightarrow> {..<cap} \<subseteq> used s" "r < 0 \<Longrightarrow> r = -9 \<and> s' = s"
    and "0 \<le> r \<Longrightarrow> nat r < cap \<and> nat r \<notin> used s \<and> used s' = insert (nat r) (used s)"
proof -
  consider (full) "{..<cap} \<subseteq> used s" "s' = s" "r = -9"
    | (room) k where "\<not> {..<cap} \<subseteq> used s" "k < cap" "r = int k" "k \<notin> used s" "used s' = insert k (used s)"
    using alloc_some [OF assms(1) _ assms(2)] alloc_none [OF assms(1)] assms(2) by (metis prod.inject)
  then show "r < 0 \<longleftrightarrow> {..<cap} \<subseteq> used s" "r < 0 \<Longrightarrow> r = -9 \<and> s' = s"
    "0 \<le> r \<Longrightarrow> nat r < cap \<and> nat r \<notin> used s \<and> used s' = insert (nat r) (used s)"
    by (cases; simp)+
qed

text \<open>Releasing the identifier just allocated restores the set in use.\<close>
lemma alloc_free:
  assumes "ok s" "alloc s = (s', r)" "0 \<le> r"
  shows "used (free (nat r) s') = used s"
proof -
  note a = alloc_result(3) [OF assms]
  have "ok s'" using alloc_ok [OF assms(1)] assms(2) by simp
  then have "used (free (nat r) s') = used s' - {nat r}" using free a by blast
  also have "\<dots> = used s" using a by blast
  finally show ?thesis .
qed

text \<open>Two allocations without a release in between return different identifiers.\<close>
lemma alloc_distinct:
  assumes "ok s" "alloc s = (s', r)" "0 \<le> r" "alloc s' = (s'', r')" "0 \<le> r'"
  shows "r \<noteq> r'"
proof
  assume "r = r'"
  have "ok s'" using alloc_ok [OF assms(1)] assms(2) by simp
  then have "nat r' \<notin> used s'" using alloc_result(3) [OF _ assms(4,5)] by blast
  then show False using alloc_result(3) [OF assms(1-3)] \<open>r = r'\<close> by blast
qed

primrec alloc_many :: "nat \<Rightarrow> 's \<Rightarrow> int list" where
  "alloc_many 0 s = []"
| "alloc_many (Suc n) s = (case alloc s of (s', r) \<Rightarrow> r # alloc_many n s')"

lemma alloc_many_from:
  assumes "ok s" "used s = {..<k}" "k + n \<le> cap"
  shows "alloc_many n s = map int [k..<k + n]"
  using assms
proof (induction n arbitrary: s k)
  case (Suc n)
  obtain s' r where a: "alloc s = (s', r)" by (cases "alloc s") auto
  have "k \<in> {..<cap}" "k \<notin> used s" using Suc.prems by simp_all
  then have "\<not> {..<cap} \<subseteq> used s" by blast
  then obtain j where j: "ok s'" "r = int j" "j \<notin> used s" "\<forall>m<j. m \<in> used s" "used s' = insert j (used s)"
    using alloc_some [OF Suc.prems(1) _ a] by blast
  then have "j = k" using Suc.prems(2) by (metis lessThan_iff less_irrefl_nat nat_neq_iff)
  then have "used s' = {..<Suc k}" using j(5) Suc.prems(2) by (simp add: lessThan_Suc)
  then show ?case
    using Suc.IH [of s' "Suc k"] Suc.prems j(1,2) a \<open>j = k\<close> by (simp add: upt_conv_Cons del: upt_Suc)
qed simp

end

definition word_used :: "nat \<Rightarrow> u32 \<Rightarrow> nat set" where
  "word_used n w = {k. k < n \<and> bit w k}"

definition word_bmp_ok :: "nat \<Rightarrow> u32 \<Rightarrow> bool" where
  "word_bmp_ok n w \<longleftrightarrow> (\<forall>k. n \<le> k \<longrightarrow> k < 32 \<longrightarrow> bit w k)"

lemma bmp_alloc1_eq:
  assumes "0 < n" "n \<le> 32"
  shows "bmp_alloc1 w n = (if w = - 1 then (w, -9)
     else (bit_mem_wr w (ctz (NOT w)) True, int (ctz (NOT w))))"
proof -
  have "(n + 31) div 32 = 1" using assms by (simp add: div_nat_eqI)
  moreover have "NOT w = 0 \<longleftrightarrow> w = - 1" by (metis bit.compl_zero bit.double_compl)
  moreover have "bmp_alloc_loop 1 [w] 0 =
      (if NOT w = 0 then ([w], -9) else ([bit_mem_wr w (ctz (NOT w)) True], int (ctz (NOT w))))"
    using bmp_alloc_loop.simps [of 1 "[w]" 0] bmp_alloc_loop.simps [of 1 "[w]" 1]
    by (simp add: clz_rbit ctz_less_32 Let_def)
  ultimately show ?thesis
    by (simp only: bmp_alloc1_def bmp_alloc_def) simp
qed

lemma word_full: "(\<forall>k<32. bit w k) \<longleftrightarrow> w = (- 1 :: u32)"
  by (auto intro: bit_word_eqI)

lemma word_allocator:
  assumes n: "0 < n" "n \<le> 32"
  shows "id_allocator (\<lambda>w. bmp_alloc1 w n) (\<lambda>k w. bit_mem_wr w k False) (word_used n) (word_bmp_ok n) n"
proof
  fix s s' :: u32 and r :: int and k :: nat
  show "word_used n s \<subseteq> {..<n}" by (auto simp: word_used_def)
  have full: "word_bmp_ok n s \<Longrightarrow> {..<n} \<subseteq> word_used n s \<longleftrightarrow> s = - 1"
  proof -
    assume "word_bmp_ok n s"
    then have "(\<forall>k<n. bit s k) \<longleftrightarrow> (\<forall>k<32. bit s k)"
      using n by (meson less_le_trans not_less word_bmp_ok_def)
    then show ?thesis by (auto simp: word_used_def word_full)
  qed
  show "bmp_alloc1 s n = (s, -9)" if "word_bmp_ok n s" "{..<n} \<subseteq> word_used n s"
    using full that n by (simp add: bmp_alloc1_eq)
  show "word_bmp_ok n (bit_mem_wr s k False) \<and> word_used n (bit_mem_wr s k False) = word_used n s - {k}"
    if "word_bmp_ok n s" "k < n"
    using that by (auto simp: word_bmp_ok_def word_used_def)
  show "word_bmp_ok n s' \<and> (\<exists>k<n. r = int k \<and> k \<notin> word_used n s \<and> (\<forall>m<k. m \<in> word_used n s)
      \<and> word_used n s' = insert k (word_used n s))"
    if "word_bmp_ok n s" "\<not> {..<n} \<subseteq> word_used n s" "bmp_alloc1 s n = (s', r)"
  proof -
    let ?k = "ctz (NOT s)"
    have "NOT s \<noteq> 0" using full that(1,2) by (metis bit.compl_zero bit.double_compl)
    then have k: "\<not> bit s ?k" "\<forall>m<?k. bit s m" "?k < 32"
      using ctz_not [of s ?k] by (simp_all add: ctz_less_32 clz_rbit)
    then have "?k < n" using that(1) by (meson not_less word_bmp_ok_def)
    then show ?thesis
      using that k full n
      by (intro conjI exI [of _ ?k]) (auto simp: bmp_alloc1_eq word_bmp_ok_def word_used_def split: if_splits)
  qed
qed

interpretation bmp8: id_allocator "\<lambda>w. bmp_alloc1 w 8" "\<lambda>k w. bit_mem_wr w k False" "word_used 8" "word_bmp_ok 8" 8
  by (rule word_allocator) simp_all

interpretation bmp4: id_allocator "\<lambda>w. bmp_alloc1 w 4" "\<lambda>k w. bit_mem_wr w k False" "word_used 4" "word_bmp_ok 4" 4
  by (rule word_allocator) simp_all

end
