(* ===== verification/Objects.thy ===== *)
theory Objects
  imports Wait Alloc
begin

text \<open>
  The tables that classify the wait queues (\<open>misc/thinkos_type.c\<close>) and the
  service that breaks the waiting threads out of a queue (\<open>thinkos_break.c\<close>).
\<close>

section \<open>Object types\<close>

datatype obj_type =
    THINKOS_OBJ_READY | THINKOS_OBJ_TMSHARE | THINKOS_OBJ_CLOCK | THINKOS_OBJ_MUTEX | THINKOS_OBJ_COND
  | THINKOS_OBJ_SEMAPHORE | THINKOS_OBJ_EVENT | THINKOS_OBJ_FLAG | THINKOS_OBJ_GATE | THINKOS_OBJ_JOIN
  | THINKOS_OBJ_CONREAD | THINKOS_OBJ_CONWRITE | THINKOS_OBJ_PAUSED | THINKOS_OBJ_CANCELED
  | THINKOS_OBJ_COMMSEND | THINKOS_OBJ_COMMRECV | THINKOS_OBJ_IRQ | THINKOS_OBJ_FAULT | THINKOS_OBJ_INVALID

text \<open>The numbers of the enumeration.\<close>
fun obj_type_no :: "obj_type \<Rightarrow> nat" where
  "obj_type_no THINKOS_OBJ_READY = 0"
| "obj_type_no THINKOS_OBJ_TMSHARE = 1"
| "obj_type_no THINKOS_OBJ_CLOCK = 2"
| "obj_type_no THINKOS_OBJ_MUTEX = 3"
| "obj_type_no THINKOS_OBJ_COND = 4"
| "obj_type_no THINKOS_OBJ_SEMAPHORE = 5"
| "obj_type_no THINKOS_OBJ_EVENT = 6"
| "obj_type_no THINKOS_OBJ_FLAG = 7"
| "obj_type_no THINKOS_OBJ_GATE = 8"
| "obj_type_no THINKOS_OBJ_JOIN = 9"
| "obj_type_no THINKOS_OBJ_CONREAD = 10"
| "obj_type_no THINKOS_OBJ_CONWRITE = 11"
| "obj_type_no THINKOS_OBJ_PAUSED = 12"
| "obj_type_no THINKOS_OBJ_CANCELED = 13"
| "obj_type_no THINKOS_OBJ_COMMSEND = 14"
| "obj_type_no THINKOS_OBJ_COMMRECV = 15"
| "obj_type_no THINKOS_OBJ_IRQ = 16"
| "obj_type_no THINKOS_OBJ_FAULT = 17"
| "obj_type_no THINKOS_OBJ_INVALID = 18"

text \<open>The structure \<open>thinkos_obj_type_lut\<close>, read as an array of bytes.\<close>
definition thinkos_obj_type_lut :: "obj_type list" where
  "thinkos_obj_type_lut =
     [THINKOS_OBJ_READY, THINKOS_OBJ_TMSHARE, THINKOS_OBJ_CLOCK]
     @ replicate THINKOS_MUTEX_MAX THINKOS_OBJ_MUTEX
     @ replicate THINKOS_COND_MAX THINKOS_OBJ_COND
     @ replicate THINKOS_SEMAPHORE_MAX THINKOS_OBJ_SEMAPHORE
     @ replicate THINKOS_EVENT_MAX THINKOS_OBJ_EVENT
     @ replicate THINKOS_FLAG_MAX THINKOS_OBJ_FLAG
     @ replicate THINKOS_GATE_MAX THINKOS_OBJ_GATE
     @ replicate THINKOS_THREADS_MAX THINKOS_OBJ_JOIN
     @ [THINKOS_OBJ_CONWRITE, THINKOS_OBJ_CONREAD, THINKOS_OBJ_PAUSED, THINKOS_OBJ_CANCELED, THINKOS_OBJ_IRQ]"

text \<open>The allocation bitmap of each type, if there is one.\<close>
fun thinkos_obj_alloc_lut :: "obj_type \<Rightarrow> thinkos_rt \<Rightarrow> u32 option" where
  "thinkos_obj_alloc_lut THINKOS_OBJ_COND rt = Some (cond_alloc rt)"
| "thinkos_obj_alloc_lut THINKOS_OBJ_SEMAPHORE rt = Some (sem_alloc rt)"
| "thinkos_obj_alloc_lut THINKOS_OBJ_EVENT rt = Some (ev_alloc rt)"
| "thinkos_obj_alloc_lut THINKOS_OBJ_FLAG rt = Some (flag_alloc rt)"
| "thinkos_obj_alloc_lut THINKOS_OBJ_GATE rt = Some (gate_alloc rt)"
| "thinkos_obj_alloc_lut THINKOS_OBJ_JOIN rt = Some (th_alloc rt)"
| "thinkos_obj_alloc_lut _ rt = None"

text \<open>The first queue of each type; entries the table does not initialize are 0.\<close>
fun thinkos_wq_base_lut :: "obj_type \<Rightarrow> nat" where
  "thinkos_wq_base_lut THINKOS_OBJ_READY = THINKOS_WQ_READY"
| "thinkos_wq_base_lut THINKOS_OBJ_TMSHARE = THINKOS_WQ_TMSHARE"
| "thinkos_wq_base_lut THINKOS_OBJ_CLOCK = THINKOS_WQ_CLOCK"
| "thinkos_wq_base_lut THINKOS_OBJ_MUTEX = THINKOS_MUTEX_BASE"
| "thinkos_wq_base_lut THINKOS_OBJ_COND = THINKOS_COND_BASE"
| "thinkos_wq_base_lut THINKOS_OBJ_SEMAPHORE = THINKOS_SEM_BASE"
| "thinkos_wq_base_lut THINKOS_OBJ_EVENT = THINKOS_EVENT_BASE"
| "thinkos_wq_base_lut THINKOS_OBJ_FLAG = THINKOS_FLAG_BASE"
| "thinkos_wq_base_lut THINKOS_OBJ_GATE = THINKOS_GATE_BASE"
| "thinkos_wq_base_lut THINKOS_OBJ_JOIN = THINKOS_JOIN_BASE"
| "thinkos_wq_base_lut THINKOS_OBJ_CONWRITE = THINKOS_WQ_CONSOLE_WR"
| "thinkos_wq_base_lut THINKOS_OBJ_CONREAD = THINKOS_WQ_CONSOLE_RD"
| "thinkos_wq_base_lut THINKOS_OBJ_PAUSED = THINKOS_WQ_PAUSED"
| "thinkos_wq_base_lut THINKOS_OBJ_CANCELED = THINKOS_WQ_CANCELED"
| "thinkos_wq_base_lut THINKOS_OBJ_IRQ = THINKOS_WQ_IRQ"
| "thinkos_wq_base_lut _ = 0"

definition thinkos_obj_type_get :: "nat \<Rightarrow> u32" where
  "thinkos_obj_type_get oid =
     (if THINKOS_WQ_LST_END \<le> oid then THINKOS_EINVAL
      else of_nat (obj_type_no (thinkos_obj_type_lut ! oid)))"

definition thinkos_alloc_bmp_get :: "obj_type \<Rightarrow> thinkos_rt \<Rightarrow> u32 option" where
  "thinkos_alloc_bmp_get t rt = thinkos_obj_alloc_lut t rt"

section \<open>Breaking threads out of a queue\<close>

definition break_svc :: svc_handler where
  "break_svc arg self rt =
     (let wq = unat (arg_ld rt arg 0) in
      if THINKOS_WQ_LST_END \<le> wq then arg_ret arg THINKOS_EINVAL rt
      else
        let type = thinkos_obj_type_lut ! wq;
            alloc = thinkos_obj_alloc_lut type rt;
            idx = wq - thinkos_wq_base_lut type in
        if (case alloc of None \<Rightarrow> False | Some bmp \<Rightarrow> \<not> bit_mem_rd bmp idx)
        then arg_ret arg THINKOS_EINVAL rt
        else
          let rt = (if wq_head wq rt \<noteq> THINKOS_THREAD_NULL
                    then defer_sched (wakeup_all_return wq THINKOS_EINTR rt) else rt)
          in arg_ret arg 0 rt)"

declare break_svc_def [handler_defs]

section \<open>Lemmas\<close>

lemma obj_type_lut_length: "length thinkos_obj_type_lut = THINKOS_WQ_LST_END"
  by (simp add: thinkos_obj_type_lut_def)

lemma obj_type_lut_eq: "thinkos_obj_type_lut ! w =
  (if w < 1 then THINKOS_OBJ_READY else if w < 2 then THINKOS_OBJ_TMSHARE else if w < 3 then THINKOS_OBJ_CLOCK
   else if w < 11 then THINKOS_OBJ_MUTEX else if w < 19 then THINKOS_OBJ_COND else if w < 27 then THINKOS_OBJ_SEMAPHORE
   else if w < 31 then THINKOS_OBJ_EVENT else if w < 39 then THINKOS_OBJ_FLAG else if w < 47 then THINKOS_OBJ_GATE
   else if w < 55 then THINKOS_OBJ_JOIN else if w < 56 then THINKOS_OBJ_CONWRITE else if w < 57 then THINKOS_OBJ_CONREAD
   else if w < 58 then THINKOS_OBJ_PAUSED else if w < 59 then THINKOS_OBJ_CANCELED else THINKOS_OBJ_IRQ)"
  if "w < 60"
proof -
  have "\<forall>w\<in>set [0..<60]. thinkos_obj_type_lut ! w =
    (if w < 1 then THINKOS_OBJ_READY else if w < 2 then THINKOS_OBJ_TMSHARE else if w < 3 then THINKOS_OBJ_CLOCK
     else if w < 11 then THINKOS_OBJ_MUTEX else if w < 19 then THINKOS_OBJ_COND else if w < 27 then THINKOS_OBJ_SEMAPHORE
     else if w < 31 then THINKOS_OBJ_EVENT else if w < 39 then THINKOS_OBJ_FLAG else if w < 47 then THINKOS_OBJ_GATE
     else if w < 55 then THINKOS_OBJ_JOIN else if w < 56 then THINKOS_OBJ_CONWRITE else if w < 57 then THINKOS_OBJ_CONREAD
     else if w < 58 then THINKOS_OBJ_PAUSED else if w < 59 then THINKOS_OBJ_CANCELED else THINKOS_OBJ_IRQ)"
    by code_simp
  then show ?thesis using that by simp
qed

text \<open>The number of queues of each type, from the configuration.\<close>
fun obj_type_count :: "obj_type \<Rightarrow> nat" where
  "obj_type_count THINKOS_OBJ_MUTEX = THINKOS_MUTEX_MAX"
| "obj_type_count THINKOS_OBJ_COND = THINKOS_COND_MAX"
| "obj_type_count THINKOS_OBJ_SEMAPHORE = THINKOS_SEMAPHORE_MAX"
| "obj_type_count THINKOS_OBJ_EVENT = THINKOS_EVENT_MAX"
| "obj_type_count THINKOS_OBJ_FLAG = THINKOS_FLAG_MAX"
| "obj_type_count THINKOS_OBJ_GATE = THINKOS_GATE_MAX"
| "obj_type_count THINKOS_OBJ_JOIN = THINKOS_THREADS_MAX"
| "obj_type_count THINKOS_OBJ_COMMSEND = 0"
| "obj_type_count THINKOS_OBJ_COMMRECV = 0"
| "obj_type_count THINKOS_OBJ_FAULT = 0"
| "obj_type_count THINKOS_OBJ_INVALID = 0"
| "obj_type_count _ = 1"

section \<open>Properties\<close>

text \<open>
  The type table agrees with the layout of the queue list: it has an entry for
  every queue, and queue \<open>wq\<close> is listed with a type exactly if it lies in the
  block of queues of that type, so a descriptor is classified by its number
  alone.
\<close>
lemma type_lut_matches_layout:
  "length thinkos_obj_type_lut = THINKOS_WQ_LST_END
   \<and> (\<forall>wq<THINKOS_WQ_LST_END. \<forall>t. thinkos_obj_type_lut ! wq = t \<longleftrightarrow>
        thinkos_wq_base_lut t \<le> wq \<and> wq < thinkos_wq_base_lut t + obj_type_count t)"
proof -
  have "thinkos_obj_type_lut ! wq = t \<longleftrightarrow> thinkos_wq_base_lut t \<le> wq \<and> wq < thinkos_wq_base_lut t + obj_type_count t"
    if "wq < 60" for wq t
    unfolding obj_type_lut_eq [OF that] using that by (cases t) (auto split: if_splits)
  then show ?thesis by (simp add: obj_type_lut_length)
qed

text \<open>
  A break wakes every thread of a queue of an object and lets their calls
  return \<open>THINKOS_EINTR\<close>.
\<close>
lemma break_wakes_all:
  assumes "mem rt arg = of_nat wq" "3 \<le> wq" "wq < 60"
    and "\<forall>bmp. thinkos_obj_alloc_lut (thinkos_obj_type_lut ! wq) rt = Some bmp \<longrightarrow>
      bit bmp (wq - thinkos_wq_base_lut (thinkos_obj_type_lut ! wq))"
  shows "wq_lst (break_svc arg self rt) wq = 0
    \<and> bitset (wq_ready (break_svc arg self rt)) = bitset (wq_ready rt) \<union> bitset (wq_lst rt wq)"
proof -
  have u: "unat (mem rt arg) = wq" using assms(1,3) by (simp add: unat_of_nat)
  have v: "\<not> (case thinkos_obj_alloc_lut (thinkos_obj_type_lut ! wq) rt of None \<Rightarrow> False
      | Some bmp \<Rightarrow> \<not> bit_mem_rd bmp (wq - thinkos_wq_base_lut (thinkos_obj_type_lut ! wq)))"
    using assms(4) by (simp add: bit_mem_rd_def split: option.split)
  have "break_svc arg self rt = arg_ret arg 0 (if wq_head wq rt \<noteq> 32
      then defer_sched (wakeup_all_return wq (- 2) rt) else rt)"
    using u v assms(3) by (simp add: break_svc_def arg_ld_def Let_def)
  then show ?thesis
    using wakeup_all_return_queues [OF assms(2), of "- 2" rt]
    by (auto simp: kernel_simps ctz_eq_32 bitset_empty)
qed

end
