(* ===== verification/Mutex.thy ===== *)
theory Mutex
  imports Wait Alloc
begin

text \<open>
  Mutexes (\<open>thinkos_mutex.c\<close>): \<open>lock[m]\<close> is the owner or -1. An unlock hands
  the mutex over to the lowest numbered waiting thread. The services are not
  called from interrupt handlers. \<open>mutex_spec\<close> is the abstract mutex they
  implement.
\<close>

section \<open>Services\<close>

definition mutex_alloc_svc :: svc_handler where
  "mutex_alloc_svc arg self rt =
     (let (bmp, idx) = bmp_alloc1 (mutex_alloc rt) THINKOS_MUTEX_MAX;
          rt = rt\<lparr>mutex_alloc := bmp\<rparr> in
      if 0 \<le> idx
      then arg_ret arg (of_int idx + of_nat THINKOS_MUTEX_BASE) (rt\<lparr>lock := (lock rt)(nat idx := -1)\<rparr>)
      else arg_ret arg (of_int idx) rt)"

definition mutex_free_svc :: svc_handler where
  "mutex_free_svc arg self rt =
     (let wq = arg_ld rt arg 0; idx = wq - of_nat THINKOS_MUTEX_BASE in
      if of_nat THINKOS_MUTEX_MAX \<le> idx then arg_ret arg THINKOS_EINVAL rt
      else rt\<lparr>mutex_alloc := bit_mem_wr (mutex_alloc rt) (unat idx) False\<rparr>)"

definition mutex_lock_svc :: svc_handler where
  "mutex_lock_svc arg self rt =
     (let wq = arg_ld rt arg 0; mutex = wq - of_nat THINKOS_MUTEX_BASE in
      if of_nat THINKOS_MUTEX_MAX \<le> mutex then arg_ret arg THINKOS_EINVAL rt
      else if \<not> bit_mem_rd (mutex_alloc rt) (unat mutex) then arg_ret arg THINKOS_EINVAL rt
      else if lock rt (unat mutex) = -1
      then arg_ret arg 0 (rt\<lparr>lock := (lock rt)(unat mutex := int self)\<rparr>)
      else if lock rt (unat mutex) = int self then arg_ret arg THINKOS_EDEADLK rt
      else
        let rt = wq_insert (unat wq) self rt;
            rt = arg_ret arg 0 rt;
            rt = suspend self rt
        in defer_sched rt)"

definition mutex_trylock_svc :: svc_handler where
  "mutex_trylock_svc arg self rt =
     (let wq = arg_ld rt arg 0; mutex = wq - of_nat THINKOS_MUTEX_BASE in
      if of_nat THINKOS_MUTEX_MAX \<le> mutex then arg_ret arg THINKOS_EINVAL rt
      else if \<not> bit_mem_rd (mutex_alloc rt) (unat mutex) then arg_ret arg THINKOS_EINVAL rt
      else if lock rt (unat mutex) = -1
      then arg_ret arg 0 (rt\<lparr>lock := (lock rt)(unat mutex := int self)\<rparr>)
      else if lock rt (unat mutex) = int self then arg_ret arg THINKOS_EDEADLK rt
      else arg_ret arg THINKOS_EAGAIN rt)"

definition mutex_timedlock_svc :: svc_handler where
  "mutex_timedlock_svc arg self rt =
     (let wq = arg_ld rt arg 0; ms = arg_ld rt arg 1; mutex = wq - of_nat THINKOS_MUTEX_BASE in
      if of_nat THINKOS_MUTEX_MAX \<le> mutex then arg_ret arg THINKOS_EINVAL rt
      else if \<not> bit_mem_rd (mutex_alloc rt) (unat mutex) then arg_ret arg THINKOS_EINVAL rt
      else if lock rt (unat mutex) = -1
      then arg_ret arg 0 (rt\<lparr>lock := (lock rt)(unat mutex := int self)\<rparr>)
      else if lock rt (unat mutex) = int self then arg_ret arg THINKOS_EDEADLK rt
      else
        let rt = tmdwq_insert (unat wq) self ms rt;
            rt = arg_ret arg THINKOS_ETIMEDOUT rt;
            rt = suspend self rt
        in defer_sched rt)"

definition mutex_unlock_svc :: svc_handler where
  "mutex_unlock_svc arg self rt =
     (let wq = arg_ld rt arg 0; mutex = wq - of_nat THINKOS_MUTEX_BASE in
      if of_nat THINKOS_MUTEX_MAX \<le> mutex then arg_ret arg THINKOS_EINVAL rt
      else if \<not> bit_mem_rd (mutex_alloc rt) (unat mutex) then arg_ret arg THINKOS_EINVAL rt
      else if lock rt (unat mutex) \<noteq> int self then arg_ret arg THINKOS_EPERM rt
      else
        let rt = arg_ret arg 0 rt; th = wq_head (unat wq) rt in
        if th = THINKOS_THREAD_NULL
        then rt\<lparr>lock := (lock rt)(unat mutex := -1)\<rparr>
        else
          let rt = rt\<lparr>lock := (lock rt)(unat mutex := int th)\<rparr>
          in defer_sched (wakeup (unat wq) th rt))"

declare mutex_alloc_svc_def [handler_defs] mutex_free_svc_def [handler_defs] mutex_lock_svc_def [handler_defs]
  mutex_trylock_svc_def [handler_defs] mutex_timedlock_svc_def [handler_defs] mutex_unlock_svc_def [handler_defs]

section \<open>The abstract mutex\<close>

record mutex_spec =
  owner :: "nat option"
  waiters :: "nat set"

datatype lock_result = Acquired | Deadlock | Queued | NotOwner | Released

definition spec_lock :: "nat \<Rightarrow> mutex_spec \<Rightarrow> lock_result \<times> mutex_spec" where
  "spec_lock t s =
     (case owner s of
        None \<Rightarrow> (Acquired, s\<lparr>owner := Some t\<rparr>)
      | Some u \<Rightarrow> if u = t then (Deadlock, s) else (Queued, s\<lparr>waiters := insert t (waiters s)\<rparr>))"

definition spec_unlock :: "nat \<Rightarrow> mutex_spec \<Rightarrow> lock_result \<times> mutex_spec" where
  "spec_unlock t s =
     (if owner s \<noteq> Some t then (NotOwner, s)
      else if waiters s = {} then (Released, s\<lparr>owner := None\<rparr>)
      else (Released, s\<lparr>owner := Some (Min (waiters s)), waiters := waiters s - {Min (waiters s)}\<rparr>))"

text \<open>A mutex with waiting threads is owned, and not by one of them.\<close>
definition spec_inv :: "mutex_spec \<Rightarrow> bool" where
  "spec_inv s \<longleftrightarrow> finite (waiters s) \<and> (waiters s \<noteq> {} \<longrightarrow> owner s \<noteq> None)
     \<and> (\<forall>t. owner s = Some t \<longrightarrow> t \<notin> waiters s)"

text \<open>The abstraction function.\<close>
definition mutex_abs :: "nat \<Rightarrow> thinkos_rt \<Rightarrow> mutex_spec" where
  "mutex_abs m rt = \<lparr>owner = (if lock rt m = -1 then None else Some (nat (lock rt m))),
                     waiters = bitset (wq_lst rt (3 + m))\<rparr>"

definition result_code :: "lock_result \<Rightarrow> u32" where
  "result_code r = (case r of Deadlock \<Rightarrow> THINKOS_EDEADLK | NotOwner \<Rightarrow> THINKOS_EPERM | _ \<Rightarrow> 0)"

text \<open>Every mutex of a state is sane: its owner is a thread or none, and it satisfies \<^const>\<open>spec_inv\<close>.\<close>
definition mutex_inv :: "thinkos_rt \<Rightarrow> bool" where
  "mutex_inv rt \<longleftrightarrow> (\<forall>m<8. -1 \<le> lock rt m \<and> spec_inv (mutex_abs m rt))"

lemma spec_lock_inv: "spec_inv s \<Longrightarrow> t \<notin> waiters s \<Longrightarrow> spec_inv (snd (spec_lock t s))"
  by (auto simp: spec_lock_def spec_inv_def split: option.splits)

lemma spec_unlock_inv: "spec_inv s \<Longrightarrow> spec_inv (snd (spec_unlock t s))"
  by (auto simp: spec_unlock_def spec_inv_def)

text \<open>Ownership changes hands only through the owner.\<close>
lemma spec_lock_owner: "owner s = Some u \<Longrightarrow> owner (snd (spec_lock t s)) = Some u"
  by (simp add: spec_lock_def)

section \<open>Refinement\<close>

definition mutex_valid :: "thinkos_rt \<Rightarrow> u32 \<Rightarrow> nat \<Rightarrow> bool" where
  "mutex_valid rt arg m \<longleftrightarrow> m < 8 \<and> mem rt arg = of_nat (3 + m) \<and> bit (mutex_alloc rt) m"

lemma mutex_checks:
  assumes "mutex_valid rt arg m"
  shows "\<not> 8 \<le> mem rt arg - 3" "unat (mem rt arg - 3) = m" "unat (mem rt arg) = 3 + m" "bit (mutex_alloc rt) m"
  using assms obj_checks [of "mem rt arg" 3 m 8] by (simp_all add: mutex_valid_def)

lemma mutex_valid_cases:
  obtains (invalid) "8 \<le> mem rt arg - 3 \<or> \<not> bit (mutex_alloc rt) (unat (mem rt arg - 3))"
    | (valid) m where "mutex_valid rt arg m"
proof (cases "8 \<le> mem rt arg - 3 \<or> \<not> bit (mutex_alloc rt) (unat (mem rt arg - 3))")
  case False
  then have "mutex_valid rt arg (unat (mem rt arg - 3))"
    using obj_valid [of 8 "mem rt arg" 3] by (simp add: mutex_valid_def)
  then show ?thesis by (rule valid)
qed (rule invalid)

lemmas mutex_handlers =
  mutex_lock_svc_def mutex_trylock_svc_def mutex_timedlock_svc_def mutex_unlock_svc_def

lemma mutex_invalid:
  assumes "8 \<le> mem rt arg - 3 \<or> \<not> bit (mutex_alloc rt) (unat (mem rt arg - 3))"
  shows "mutex_lock_svc arg self rt = arg_ret arg (- 3) rt"
    and "mutex_trylock_svc arg self rt = arg_ret arg (- 3) rt"
    and "mutex_timedlock_svc arg self rt = arg_ret arg (- 3) rt"
    and "mutex_unlock_svc arg self rt = arg_ret arg (- 3) rt"
  using assms by (auto simp: mutex_handlers arg_ld_def bit_mem_rd_def Let_def)

lemma mutex_abs_ret [simp]: "mutex_abs m (arg_ret arg v rt) = mutex_abs m rt"
  by (simp add: mutex_abs_def arg_ret_def mem_st_def)

lemma mutex_lock_refines:
  assumes "mutex_valid rt arg m" "self < 8" "-1 \<le> lock rt m"
  shows "mutex_abs m (mutex_lock_svc arg self rt) = snd (spec_lock self (mutex_abs m rt))"
    and "mutex_abs m (mutex_timedlock_svc arg self rt) = snd (spec_lock self (mutex_abs m rt))"
    and "mem (mutex_lock_svc arg self rt) arg = result_code (fst (spec_lock self (mutex_abs m rt)))"
    and "k \<noteq> m \<Longrightarrow> k < 8 \<Longrightarrow> mutex_abs k (mutex_lock_svc arg self rt) = mutex_abs k rt"
    and "k \<noteq> m \<Longrightarrow> k < 8 \<Longrightarrow> mutex_abs k (mutex_timedlock_svc arg self rt) = mutex_abs k rt"
  using mutex_checks [OF assms(1)] assms(2,3)
  by (auto simp: mutex_handlers mutex_abs_def spec_lock_def result_code_def wq_insert_def tmdwq_insert_def
      kernel_simps bit_mem_rd_def Let_def bitset_put nat_eq_iff)

lemma mutex_trylock_refines:
  assumes "mutex_valid rt arg m" "self < 8" "-1 \<le> lock rt m"
  shows "mutex_abs m (mutex_trylock_svc arg self rt) =
      (if owner (mutex_abs m rt) = None then snd (spec_lock self (mutex_abs m rt)) else mutex_abs m rt)"
    and "k \<noteq> m \<Longrightarrow> mutex_abs k (mutex_trylock_svc arg self rt) = mutex_abs k rt"
  using mutex_checks [OF assms(1)] assms(2,3)
  by (auto simp: mutex_handlers mutex_abs_def spec_lock_def kernel_simps bit_mem_rd_def Let_def)

lemma mutex_unlock_refines:
  assumes "mutex_valid rt arg m" "-1 \<le> lock rt m"
  shows "mutex_abs m (mutex_unlock_svc arg self rt) = snd (spec_unlock self (mutex_abs m rt))"
    and "k \<noteq> m \<Longrightarrow> k < 8 \<Longrightarrow> mutex_abs k (mutex_unlock_svc arg self rt) = mutex_abs k rt"
proof -
  have m: "m < 8" using assms(1) by (simp add: mutex_valid_def)
  note c = mutex_checks [OF assms(1)]
  show "mutex_abs m (mutex_unlock_svc arg self rt) = snd (spec_unlock self (mutex_abs m rt))"
  proof (cases "wq_lst rt (3 + m) = 0")
    case True
    then show ?thesis
      using c assms(2)
      by (auto simp: mutex_handlers mutex_abs_def spec_unlock_def kernel_simps bit_mem_rd_def Let_def bitset_empty)
  next
    case False
    then show ?thesis
      using c assms(2) m bitset_ctz_min [OF False]
      by (auto simp: mutex_handlers mutex_abs_def spec_unlock_def kernel_simps bit_mem_rd_def Let_def
          bitset_empty wakeup_is_return wakeup_return_eq bitset_clear ctz_eq_32 nat_eq_iff)
  qed
  show "mutex_abs k (mutex_unlock_svc arg self rt) = mutex_abs k rt" if "k \<noteq> m" "k < 8"
    using c that
    by (auto simp: mutex_handlers mutex_abs_def kernel_simps bit_mem_rd_def Let_def
        wakeup_is_return wakeup_return_eq)
qed


text \<open>Lifting a step on one mutex to all of them.\<close>
lemma mutex_inv_step:
  assumes "mutex_inv rt" "\<And>k. -1 \<le> lock rt k \<Longrightarrow> -1 \<le> lock rt' k"
    and "spec_inv (mutex_abs m rt')" "\<And>k. k \<noteq> m \<Longrightarrow> k < 8 \<Longrightarrow> mutex_abs k rt' = mutex_abs k rt"
  shows "mutex_inv rt'"
  using assms unfolding mutex_inv_def by metis

lemma mutex_lock_range:
  "-1 \<le> lock rt k \<Longrightarrow> -1 \<le> lock (mutex_lock_svc arg self rt) k"
  "-1 \<le> lock rt k \<Longrightarrow> -1 \<le> lock (mutex_trylock_svc arg self rt) k"
  "-1 \<le> lock rt k \<Longrightarrow> -1 \<le> lock (mutex_timedlock_svc arg self rt) k"
  "-1 \<le> lock rt k \<Longrightarrow> -1 \<le> lock (mutex_unlock_svc arg self rt) k"
  by (auto simp: mutex_handlers kernel_simps wq_insert_def tmdwq_insert_def wakeup_is_return
      wakeup_return_eq Let_def)

lemma mutex_inv_ret [simp]: "mutex_inv (arg_ret arg v rt) = mutex_inv rt"
  by (simp add: mutex_inv_def) (simp add: arg_ret_def mem_st_def)





text \<open>Giving a mutex back changes no mutex; handing one out leaves it free.\<close>
lemma mutex_inv_free: "mutex_inv rt \<Longrightarrow> mutex_inv (mutex_free_svc arg self rt)"
  by (auto simp: mutex_free_svc_def mutex_inv_def mutex_abs_def arg_ret_def mem_st_def Let_def)

lemma mutex_inv_alloc:
  assumes "mutex_inv rt" "\<forall>m<8. \<not> bit (mutex_alloc rt) m \<longrightarrow> wq_lst rt (3 + m) = 0"
  shows "mutex_inv (mutex_alloc_svc arg self rt)"
proof (cases "mutex_alloc rt = -1")
  case True
  then show ?thesis
    using assms(1) by (simp add: mutex_alloc_svc_def bmp_alloc1_eq) (auto simp: mutex_inv_def mutex_abs_def)
next
  case False
  define k where "k = ctz (NOT (mutex_alloc rt))"
  have "NOT (mutex_alloc rt) \<noteq> 0" using False by (metis bit.compl_zero bit.double_compl)
  then have "\<not> bit (mutex_alloc rt) k" using ctz_not [of "mutex_alloc rt" k] by (simp add: k_def ctz_less_32 clz_rbit)
  then have "wq_lst rt (3 + k) = 0" if "k < 8" using assms(2) that by simp
  then show ?thesis
    using assms(1) False
    by (simp add: mutex_alloc_svc_def bmp_alloc1_eq flip: k_def)
      (auto simp: mutex_inv_def mutex_abs_def spec_inv_def bitset_empty)
qed

section \<open>Properties\<close>


definition mutex_example :: thinkos_rt where
  "mutex_example = rt_clear\<lparr>wq_lst := (\<lambda>_. 0)(0 := 0x108, 3 := 6), irq_th := (\<lambda>_. 8), active := 3,
     mutex_alloc := 1, lock := (\<lambda>_. -1)(0 := 3), mem := (\<lambda>_. 0)(0x1000 := 3), ctx := (\<lambda>_. 0x2000)\<rparr>"


text \<open>
  C18. \<open>mutex_unlock\<close> implements the abstract unlock: only the owner may release, and
  the mutex is handed directly to the lowest numbered waiting thread, which
  becomes ready with return value 0; there is no moment at which another thread
  could take it.
\<close>
theorem mutex_unlock_hand_over:
  fixes self :: nat
  assumes "mutex_valid rt arg m" "-1 \<le> lock rt m"
  defines "rt' \<equiv> mutex_unlock_svc arg self rt" and "s \<equiv> mutex_abs m rt"
  shows "mutex_abs m rt' = snd (spec_unlock self s)
    \<and> (owner s \<noteq> Some self \<longrightarrow> rt' = arg_ret arg THINKOS_EPERM rt)
    \<and> (owner s = Some self \<longrightarrow> waiters s \<noteq> {} \<longrightarrow>
        (let th = Min (waiters s) in owner (mutex_abs m rt') = Some th \<and> bit (wq_ready rt') th \<and> th_stat rt' th = 0
          \<and> \<not> bit (wq_clock rt') th \<and> (ctx rt th \<noteq> 0 \<longrightarrow> mem rt' (ctx rt th + 32) = 0)))"
proof -
  have m: "m < 8" using assms(1) by (simp add: mutex_valid_def)
  note c = mutex_checks [OF assms(1)]
  have 1: "mutex_abs m rt' = snd (spec_unlock self s)"
    using mutex_unlock_refines(1) [OF assms(1,2)] by (simp add: rt'_def s_def)
  have 2: "owner s \<noteq> Some self \<Longrightarrow> rt' = arg_ret arg THINKOS_EPERM rt"
    using c assms(2) by (auto simp: rt'_def s_def mutex_unlock_svc_def mutex_abs_def arg_ld_def bit_mem_rd_def Let_def)
  have 3: "owner (mutex_abs m rt') = Some th \<and> bit (wq_ready rt') th \<and> th_stat rt' th = 0
      \<and> \<not> bit (wq_clock rt') th \<and> (ctx rt th \<noteq> 0 \<longrightarrow> mem rt' (ctx rt th + 32) = 0)"
    if "owner s = Some self" "waiters s \<noteq> {}" and th: "th = Min (waiters s)" for th
  proof -
    have nz: "wq_lst rt (3 + m) \<noteq> 0" using that(2) by (auto simp: s_def mutex_abs_def bitset_empty)
    have t: "th = ctz (wq_lst rt (3 + m))" "th < 32"
      using bitset_ctz_min [OF nz] th nz by (simp_all add: s_def mutex_abs_def ctz_less_32 flip: bitset_ctz_min)
    have "lock rt m = int self"
      using that(1) assms(2) by (auto simp: s_def mutex_abs_def split: if_splits)
    then show ?thesis
      using c nz t m 1 that
      by (simp add: spec_unlock_def) (simp add: rt'_def mutex_unlock_svc_def kernel_simps bit_mem_rd_def Let_def
          wakeup_is_return wakeup_return_eq ctz_eq_32)
  qed
  show ?thesis using 1 2 3 by (auto simp: Let_def)
qed

theorem mutex_unlock_hand_over_witness:
  "bit (wq_ready (mutex_unlock_svc 0x1000 3 mutex_example)) 1"
proof -
  have w: "waiters (mutex_abs 0 mutex_example) = {1, 2}"
  proof -
    have "bitset 6 = {1, 2}" by code_simp
    then show ?thesis by (simp add: mutex_abs_def mutex_example_def)
  qed
  show ?thesis
    using mutex_unlock_hand_over [where rt = mutex_example and arg = "0x1000" and m = 0 and self = 3] w
    by (simp add: mutex_valid_def Let_def) (simp add: mutex_example_def rt_clear_def mutex_abs_def)
qed

text \<open>
  C19. Mutual exclusion: the lock, try, timed lock and unlock calls of a running thread keep, for all
  mutexes, that waiting threads imply an owner and that the owner is not one of
  the waiting threads. So does giving a mutex back, and handing one out if no
  thread waits for a mutex that is not in use; the code does not check that condition.
\<close>
theorem mutex_ops_keep_inv:
  assumes "mutex_inv rt" "self < 8" "runnable rt self"
  shows "mutex_inv (mutex_lock_svc arg self rt) \<and> mutex_inv (mutex_trylock_svc arg self rt)
    \<and> mutex_inv (mutex_timedlock_svc arg self rt) \<and> mutex_inv (mutex_unlock_svc arg self rt)
    \<and> mutex_inv (mutex_free_svc arg self rt)
    \<and> ((\<forall>m<8. \<not> bit (mutex_alloc rt) m \<longrightarrow> wq_lst rt (3 + m) = 0) \<longrightarrow> mutex_inv (mutex_alloc_svc arg self rt))"
proof (cases rule: mutex_valid_cases [of rt arg])
  case invalid
  then show ?thesis using assms(1) mutex_inv_free mutex_inv_alloc by (simp add: mutex_invalid)
next
  case (valid m)
  have m: "m < 8" "-1 \<le> lock rt m" "spec_inv (mutex_abs m rt)"
    using valid assms(1) by (simp_all add: mutex_valid_def mutex_inv_def)
  have w: "self \<notin> waiters (mutex_abs m rt)"
    using assms(3) by (simp add: mutex_abs_def runnable_def detached_def)
  note inv = spec_lock_inv [OF m(3) w] spec_unlock_inv [OF m(3), of self]
  note lk = mutex_lock_refines [OF valid assms(2) m(2)]
  note tl = mutex_trylock_refines [OF valid assms(2) m(2)]
  note ul = mutex_unlock_refines [OF valid m(2)]
  have "mutex_inv (mutex_lock_svc arg self rt)"
    by (rule mutex_inv_step [where m = m, OF assms(1) mutex_lock_range(1)]) (use lk inv in simp_all)
  moreover have "mutex_inv (mutex_trylock_svc arg self rt)"
    by (rule mutex_inv_step [where m = m, OF assms(1) mutex_lock_range(2)]) (use tl inv m(3) in simp_all)
  moreover have "mutex_inv (mutex_timedlock_svc arg self rt)"
    by (rule mutex_inv_step [where m = m, OF assms(1) mutex_lock_range(3)]) (use lk inv in simp_all)
  moreover have "mutex_inv (mutex_unlock_svc arg self rt)"
    by (rule mutex_inv_step [where m = m, OF assms(1) mutex_lock_range(4)]) (use ul inv in simp_all)
  ultimately show ?thesis using assms(1) mutex_inv_free mutex_inv_alloc by simp
qed

theorem mutex_ops_keep_inv_witness:
  "mutex_inv (mutex_unlock_svc 0x1000 3 mutex_example)"
proof -
  have "runnable mutex_example 3" "mutex_inv mutex_example"
    by (auto simp: runnable_def detached_def mutex_inv_def mutex_abs_def spec_inv_def bitset_def
        mutex_example_def rt_clear_def bit_numeral_rec)
  then show ?thesis using mutex_ops_keep_inv [of mutex_example 3 "0x1000"] by simp
qed

text \<open>
  Without that condition the invariant is lost: the mutex of the example, owned
  by thread 3 with threads 1 and 2 waiting, is given back and handed out again, free with two waiting threads.
\<close>
lemma mutex_free_with_waiters:
  "mutex_inv mutex_example"
  "\<not> mutex_inv (mutex_alloc_svc 0x1004 3 (mutex_free_svc 0x1000 3 mutex_example))"
proof -
  show "mutex_inv mutex_example"
    by (auto simp: mutex_inv_def mutex_abs_def spec_inv_def bitset_def mutex_example_def rt_clear_def bit_numeral_rec)
  have "ctz (NOT (bit_mem_wr 1 0 False)) = 0" by code_simp
  moreover have "bit_mem_wr 1 0 False \<noteq> -1" by code_simp
  ultimately have "mutex_alloc_svc 0x1004 3 (mutex_free_svc 0x1000 3 mutex_example) =
      arg_ret 0x1004 3 (mutex_example\<lparr>mutex_alloc := bit_mem_wr (bit_mem_wr 1 0 False) 0 True, lock := (lock mutex_example)(0 := -1)\<rparr>)"
    by (simp add: mutex_alloc_svc_def mutex_free_svc_def bmp_alloc1_eq mutex_example_def rt_clear_def arg_ld_def)
  moreover have "\<not> spec_inv (mutex_abs 0 (mutex_example\<lparr>mutex_alloc := b, lock := (lock mutex_example)(0 := -1)\<rparr>))" for b
    by (simp add: spec_inv_def mutex_abs_def mutex_example_def bitset_empty)
  ultimately show "\<not> mutex_inv (mutex_alloc_svc 0x1004 3 (mutex_free_svc 0x1000 3 mutex_example))"
    unfolding mutex_inv_def by (metis mutex_abs_ret zero_less_numeral)
qed

end
