(* ===== verification/Cond.thy ===== *)
theory Cond
  imports Mutex
begin

text \<open>
  Condition variables (\<open>thinkos_cond.c\<close>): waiting releases the mutex in the same
  system call that queues the caller; a signal wakes the lowest numbered waiting
  thread, a broadcast wakes all of them.
\<close>

section \<open>Services\<close>

definition cond_alloc_svc :: svc_handler where
  "cond_alloc_svc arg self rt =
     (let (bmp, idx) = bmp_alloc1 (cond_alloc rt) THINKOS_COND_MAX;
          rt = rt\<lparr>cond_alloc := bmp\<rparr> in
      if 0 \<le> idx then arg_ret arg (of_int idx + of_nat THINKOS_COND_BASE) rt
      else arg_ret arg (of_int idx) rt)"

definition cond_free_svc :: svc_handler where
  "cond_free_svc arg self rt =
     (let wq = arg_ld rt arg 0; cond = wq - of_nat THINKOS_COND_BASE in
      if of_nat THINKOS_COND_MAX \<le> cond then arg_ret arg THINKOS_EINVAL rt
      else rt\<lparr>cond_alloc := bit_mem_wr (cond_alloc rt) (unat cond) False\<rparr>)"

definition cond_wait_svc :: svc_handler where
  "cond_wait_svc arg self rt =
     (let cwq = arg_ld rt arg 0; mwq = arg_ld rt arg 1;
          cond = cwq - of_nat THINKOS_COND_BASE; mutex = mwq - of_nat THINKOS_MUTEX_BASE in
      if of_nat THINKOS_COND_MAX \<le> cond then arg_ret arg THINKOS_EINVAL rt
      else if of_nat THINKOS_MUTEX_MAX \<le> mutex then arg_ret arg THINKOS_EINVAL rt
      else if \<not> bit_mem_rd (cond_alloc rt) (unat cond) then arg_ret arg THINKOS_EINVAL rt
      else if \<not> bit_mem_rd (mutex_alloc rt) (unat mutex) then arg_ret arg THINKOS_EINVAL rt
      else if lock rt (unat mutex) \<noteq> int self then arg_ret arg THINKOS_EPERM rt
      else
        let rt = wq_insert (unat cwq) self rt;
            th = wq_head (unat mwq) rt;
            rt = (if th = THINKOS_THREAD_NULL
                  then rt\<lparr>lock := (lock rt)(unat mutex := -1)\<rparr>
                  else wakeup (unat mwq) th (rt\<lparr>lock := (lock rt)(unat mutex := int th)\<rparr>));
            rt = arg_ret arg 0 rt;
            rt = suspend self rt
        in defer_sched rt)"

definition cond_timedwait_svc :: svc_handler where
  "cond_timedwait_svc arg self rt =
     (let cwq = arg_ld rt arg 0; mwq = arg_ld rt arg 1; ms = arg_ld rt arg 2;
          cond = cwq - of_nat THINKOS_COND_BASE; mutex = mwq - of_nat THINKOS_MUTEX_BASE in
      if of_nat THINKOS_COND_MAX \<le> cond then arg_ret arg THINKOS_EINVAL rt
      else if of_nat THINKOS_MUTEX_MAX \<le> mutex then arg_ret arg THINKOS_EINVAL rt
      else if \<not> bit_mem_rd (cond_alloc rt) (unat cond) then arg_ret arg THINKOS_EINVAL rt
      else if \<not> bit_mem_rd (mutex_alloc rt) (unat mutex) then arg_ret arg THINKOS_EINVAL rt
      else if lock rt (unat mutex) \<noteq> int self then arg_ret arg THINKOS_EPERM rt
      else
        let rt = tmdwq_insert (unat cwq) self ms rt;
            th = wq_head (unat mwq) rt;
            rt = (if th = THINKOS_THREAD_NULL
                  then rt\<lparr>lock := (lock rt)(unat mutex := -1)\<rparr>
                  else wakeup (unat mwq) th (rt\<lparr>lock := (lock rt)(unat mutex := int th)\<rparr>));
            rt = arg_ret arg THINKOS_ETIMEDOUT rt;
            rt = suspend self rt
        in defer_sched rt)"

definition cond_signal_svc :: svc_handler where
  "cond_signal_svc arg self rt =
     (let cwq = arg_ld rt arg 0; cond = cwq - of_nat THINKOS_COND_BASE in
      if of_nat THINKOS_COND_MAX \<le> cond then arg_ret arg THINKOS_EINVAL rt
      else if \<not> bit_mem_rd (cond_alloc rt) (unat cond) then arg_ret arg THINKOS_EINVAL rt
      else
        let th = wq_head (unat cwq) rt;
            rt = (if th \<noteq> THINKOS_THREAD_NULL then defer_sched (wakeup (unat cwq) th rt) else rt)
        in arg_ret arg 0 rt)"

definition cond_broadcast_svc :: svc_handler where
  "cond_broadcast_svc arg self rt =
     (let cwq = arg_ld rt arg 0; cond = cwq - of_nat THINKOS_COND_BASE in
      if of_nat THINKOS_COND_MAX \<le> cond then arg_ret arg THINKOS_EINVAL rt
      else if \<not> bit_mem_rd (cond_alloc rt) (unat cond) then arg_ret arg THINKOS_EINVAL rt
      else
        let th = wq_head (unat cwq) rt;
            rt = (if th \<noteq> THINKOS_THREAD_NULL
                  then defer_sched (wakeup_all (unat cwq) (wakeup (unat cwq) th rt)) else rt)
        in arg_ret arg 0 rt)"

declare cond_alloc_svc_def [handler_defs] cond_free_svc_def [handler_defs] cond_wait_svc_def [handler_defs]
  cond_timedwait_svc_def [handler_defs] cond_signal_svc_def [handler_defs] cond_broadcast_svc_def [handler_defs]

section \<open>Properties\<close>

definition cond_valid :: "thinkos_rt \<Rightarrow> u32 \<Rightarrow> nat \<Rightarrow> bool" where
  "cond_valid rt arg c \<longleftrightarrow> c < 8 \<and> mem rt arg = of_nat (11 + c) \<and> bit (cond_alloc rt) c"

lemma cond_checks:
  assumes "cond_valid rt arg c"
  shows "\<not> 8 \<le> mem rt arg - 11" "unat (mem rt arg - 11) = c" "unat (mem rt arg) = 11 + c" "bit (cond_alloc rt) c"
  using assms obj_checks [of "mem rt arg" 11 c 8] by (simp_all add: cond_valid_def)


definition cond_example :: thinkos_rt where
  "cond_example = rt_clear\<lparr>wq_lst := (\<lambda>_. 0)(0 := 0x108, 3 := 6, 12 := 0x30), irq_th := (\<lambda>_. 8), active := 3,
     mutex_alloc := 1, cond_alloc := 2, lock := (\<lambda>_. -1)(0 := 3),
     mem := (\<lambda>_. 0)(0x1000 := 12, 0x1004 := 3), ctx := (\<lambda>_. 0x2000)\<rparr>"


text \<open>
  C21. A broadcast wakes every thread waiting on the variable, in a loop that
  ends: the queue is empty afterwards and exactly its threads joined the ready
  queue, each with return value 0.
\<close>
theorem cond_broadcast_wakes_all:
  fixes self :: nat
  assumes "cond_valid rt arg c"
  defines "rt' \<equiv> cond_broadcast_svc arg self rt"
  shows "wq_lst rt' (11 + c) = 0 \<and> bitset (wq_ready rt') = bitset (wq_ready rt) \<union> bitset (wq_lst rt (11 + c))
    \<and> (\<forall>th\<in>bitset (wq_lst rt (11 + c)). th_stat rt' th = 0
         \<and> (ctx rt th \<noteq> 0 \<longrightarrow> mem rt' (ctx rt th + 32) = 0))"
proof -
  have c: "c < 8" using assms(1) by (simp add: cond_valid_def)
  have "rt' = arg_ret arg 0 (if wq_lst rt (11 + c) = 0 then rt else defer_sched (wakeup_all (11 + c) rt))"
    using cond_checks [OF assms(1)] wakeup_all_step [of "11 + c" rt]
    by (simp add: rt'_def cond_broadcast_svc_def arg_ld_def bit_mem_rd_def Let_def wq_head_eq ctz_eq_32)
  then have w: "wq_lst rt' = wq_lst (wakeup_all (11 + c) rt)" "th_stat rt' = th_stat (wakeup_all (11 + c) rt)"
    "mem rt' = (mem (wakeup_all (11 + c) rt))(arg := 0)"
    by (simp_all add: wakeup_all_empty defer_sched_def arg_ret_def mem_st_def)
  show ?thesis
    using wakeup_all_queues [of "11 + c" rt] wakeup_all_frame [of "11 + c" rt] c
    by (auto simp: w)
qed

theorem cond_broadcast_wakes_all_witness:
  "wq_lst (cond_broadcast_svc 0x1000 3 cond_example) 12 = 0"
  using cond_broadcast_wakes_all [where rt = cond_example and arg = "0x1000" and c = 1 and self = 3]
  by (simp add: cond_valid_def) (simp add: cond_example_def rt_clear_def bit_numeral_rec)

end
