(* ===== verification/Gate.thy ===== *)
theory Gate
  imports Wait Alloc
begin

text \<open>
  Gates (\<open>thinkos_gate.c\<close>): two bits per gate, \<open>signaled\<close> and \<open>locked\<close>. An
  open gate (signaled, not locked) admits one thread, which leaves it locked
  until it exits; opening a locked gate is remembered in the signal bit.
\<close>

section \<open>Services\<close>

definition gate_alloc_svc :: svc_handler where
  "gate_alloc_svc arg self rt =
     (let (bmp, idx) = bmp_alloc1 (gate_alloc rt) THINKOS_GATE_MAX;
          rt = rt\<lparr>gate_alloc := bmp\<rparr> in
      if 0 \<le> idx
      then arg_ret arg (of_int idx + of_nat THINKOS_GATE_BASE)
             (rt\<lparr>gate := bit_mem_wr (bit_mem_wr (gate rt) (nat idx * 2) False) (nat idx * 2 + 1) False\<rparr>)
      else arg_ret arg (of_int idx) rt)"

definition gate_free_svc :: svc_handler where
  "gate_free_svc arg self rt =
     (let wq = arg_ld rt arg 0; idx = wq - of_nat THINKOS_GATE_BASE in
      if of_nat THINKOS_GATE_MAX \<le> idx then arg_ret arg THINKOS_EINVAL rt
      else rt\<lparr>gate_alloc := bit_mem_wr (gate_alloc rt) (unat idx) False\<rparr>)"

text \<open>\<open>((gates >> idx) & 3) == __GATE_SIGNALED\<close>, with \<open>idx\<close> twice the number of the gate.\<close>
definition gate_avail :: "nat \<Rightarrow> thinkos_rt \<Rightarrow> bool" where
  "gate_avail g rt \<longleftrightarrow> drop_bit (2 * g) (gate rt) AND 3 = GATE_SIGNALED"

definition gate_pass :: "nat \<Rightarrow> u32 \<Rightarrow> thinkos_rt \<Rightarrow> thinkos_rt" where
  "gate_pass g arg rt =
     arg_ret arg 0 (rt\<lparr>gate := (gate rt AND NOT (push_bit (2 * g) 3)) OR push_bit (2 * g) GATE_LOCKED\<rparr>)"

definition gate_wait_svc :: "irqs list \<Rightarrow> svc_handler" where
  "gate_wait_svc qs arg self rt =
     (let wq = arg_ld rt arg 0; idx = wq - of_nat THINKOS_GATE_BASE in
      if of_nat THINKOS_GATE_MAX \<le> idx then arg_ret arg THINKOS_EINVAL rt
      else if \<not> bit_mem_rd (gate_alloc rt) (unat idx) then arg_ret arg THINKOS_EINVAL rt
      else retry (wait_once (gate_avail (unat idx)) (gate_pass (unat idx) arg)
                    (prep_ctx self (2 * unat wq) arg) (\<lambda>rt. rt) defer_sched (unat wq) self)
             no_irqs qs rt)"

text \<open>One pass of the timed wait: the state \<open>signaled and locked\<close> returns at once.\<close>
definition gate_timed_once :: "nat \<Rightarrow> nat \<Rightarrow> u32 \<Rightarrow> u32 \<Rightarrow> irqs \<Rightarrow> thinkos_rt \<Rightarrow> bool \<times> thinkos_rt" where
  "gate_timed_once g self arg ms q rt =
     (if drop_bit (2 * g) (gate rt) AND 3 = 3 then (False, arg_ret arg 0 rt)
      else wait_once (gate_avail g) (gate_pass g arg) (prep_ctx self (2 * (THINKOS_GATE_BASE + g) + 1) arg)
             (arm_clock self ms) (tail_timed arg) (THINKOS_GATE_BASE + g) self q rt)"

definition gate_timedwait_svc :: "irqs list \<Rightarrow> svc_handler" where
  "gate_timedwait_svc qs arg self rt =
     (let wq = arg_ld rt arg 0; ms = arg_ld rt arg 1; idx = wq - of_nat THINKOS_GATE_BASE in
      if of_nat THINKOS_GATE_MAX \<le> idx then arg_ret arg THINKOS_EINVAL rt
      else if \<not> bit_mem_rd (gate_alloc rt) (unat idx) then arg_ret arg THINKOS_EINVAL rt
      else retry (gate_timed_once (unat idx) self arg ms) no_irqs qs rt)"

text \<open>
  \<open>thinkos_gate_exit_svc\<close>. With \<open>open == 0\<close> the code looks for a pending signal
  with \<open>gates & (__GATE_SIGNALED << 3)\<close>: bit 3 of the word, whatever the gate.
\<close>
definition gate_exit_svc :: svc_handler where
  "gate_exit_svc arg self rt =
     (let wq = arg_ld rt arg 0; opn = arg_ld rt arg 1; idx = wq - of_nat THINKOS_GATE_BASE in
      if of_nat THINKOS_GATE_MAX \<le> idx then arg_ret arg THINKOS_EINVAL rt
      else if \<not> bit_mem_rd (gate_alloc rt) (unat idx) then arg_ret arg THINKOS_EINVAL rt
      else if \<not> bit_mem_rd (gate rt) (unat idx * 2 + 1) then arg_ret arg THINKOS_EPERM rt
      else
        let i = unat idx * 2; rt = arg_ret arg 0 rt in
        if opn = 0 \<and> gate rt AND push_bit 3 GATE_SIGNALED = 0
        then rt\<lparr>gate := gate rt AND NOT (push_bit i GATE_LOCKED)\<rparr>
        else
          let rt = (if 0 < opn then rt\<lparr>gate := gate rt OR push_bit i GATE_SIGNALED\<rparr> else rt);
              queue = wq_lst rt (unat wq); th = clz (rbit queue) in
          if th = THINKOS_THREAD_NULL
          then rt\<lparr>gate := gate rt AND NOT (push_bit i GATE_LOCKED)\<rparr>
          else
            let rt = rt\<lparr>wq_lst := (wq_lst rt)(unat wq := queue AND NOT (push_bit th 1))\<rparr>;
                rt = rt\<lparr>gate := gate rt AND NOT (push_bit i GATE_SIGNALED)\<rparr>;
                rt = wq_bit THINKOS_WQ_READY th True rt;
                rt = wq_bit THINKOS_WQ_CLOCK th False rt;
                rt = ctx_r0_st th 0 rt;
                rt = th_stat_st th 0 rt
            in defer_sched rt)"

definition gate_open_svc :: svc_handler where
  "gate_open_svc arg self rt =
     (let wq = arg_ld rt arg 0; idx = wq - of_nat THINKOS_GATE_BASE in
      if of_nat THINKOS_GATE_MAX \<le> idx then arg_ret arg THINKOS_EINVAL rt
      else if \<not> bit_mem_rd (gate_alloc rt) (unat idx) then arg_ret arg THINKOS_EINVAL rt
      else defer_sched (gate_open_i (unat wq) (arg_ret arg 0 rt)))"

definition gate_close_svc :: svc_handler where
  "gate_close_svc arg self rt =
     (let wq = arg_ld rt arg 0; idx = wq - of_nat THINKOS_GATE_BASE in
      if of_nat THINKOS_GATE_MAX \<le> idx then arg_ret arg THINKOS_EINVAL rt
      else if \<not> bit_mem_rd (gate_alloc rt) (unat idx) then arg_ret arg THINKOS_EINVAL rt
      else
        let rt = arg_ret arg 0 rt
        in rt\<lparr>gate := bit_mem_wr (gate rt) (unat idx * 2) False\<rparr>)"

declare gate_alloc_svc_def [handler_defs] gate_free_svc_def [handler_defs] gate_wait_svc_def [handler_defs]
  gate_timedwait_svc_def [handler_defs] gate_exit_svc_def [handler_defs] gate_open_svc_def [handler_defs]
  gate_close_svc_def [handler_defs]

section \<open>The gate as a waiting object\<close>

abbreviation gate_sig :: "thinkos_rt \<Rightarrow> nat \<Rightarrow> bool" where "gate_sig rt g \<equiv> bit (gate rt) (2 * g)"
abbreviation gate_lck :: "thinkos_rt \<Rightarrow> nat \<Rightarrow> bool" where "gate_lck rt g \<equiv> bit (gate rt) (Suc (2 * g))"




lemma gate_index: "2 * a = Suc (2 * b) \<longleftrightarrow> False" "Suc (2 * a) = 2 * b \<longleftrightarrow> False" for a b :: nat
  by presburger+





definition gate_valid :: "thinkos_rt \<Rightarrow> u32 \<Rightarrow> nat \<Rightarrow> bool" where
  "gate_valid rt arg g \<longleftrightarrow> g < 8 \<and> mem rt arg = of_nat (39 + g) \<and> bit (gate_alloc rt) g"

lemma gate_checks:
  assumes "gate_valid rt arg g"
  shows "\<not> 8 \<le> mem rt arg - 39" "unat (mem rt arg - 39) = g" "unat (mem rt arg) = 39 + g" "bit (gate_alloc rt) g"
  using assms obj_checks [of "mem rt arg" 39 g 8] by (simp_all add: gate_valid_def)







section \<open>Properties\<close>

text \<open>No thread waits at an open gate.\<close>
definition gate_inv :: "thinkos_rt \<Rightarrow> bool" where
  "gate_inv rt \<longleftrightarrow> (\<forall>g<8. wq_lst rt (39 + g) \<noteq> 0 \<longrightarrow> \<not> (gate_sig rt g \<and> \<not> gate_lck rt g))"



definition gate_example :: thinkos_rt where
  "gate_example = rt_clear\<lparr>wq_lst := (\<lambda>_. 0)(0 := 0x108), irq_th := (\<lambda>_. 8), active := 3,
     gate_alloc := 0xff, mem := (\<lambda>_. 0)(0x1000 := 39, 0x1004 := 0)\<rparr>"



text \<open>
  C15. Opening a gate admits at most one thread: with threads waiting at an
  unlocked gate the lowest numbered one enters and the gate is left locked and
  not signaled; a locked gate only remembers the signal; with nobody waiting the
  gate is left open. No other gate changes.
\<close>
theorem gate_open_admits_one:
  fixes self :: nat
  assumes "gate_valid rt arg g"
  defines "rt' \<equiv> gate_open_svc arg self rt" and "th \<equiv> Min (bitset (wq_lst rt (39 + g)))"
  shows "(gate_lck rt g \<or> wq_lst rt (39 + g) = 0 \<longrightarrow>
      gate_sig rt' g \<and> gate_lck rt' g = gate_lck rt g \<and> wq_lst rt' = wq_lst rt)
    \<and> (\<not> gate_lck rt g \<longrightarrow> wq_lst rt (39 + g) \<noteq> 0 \<longrightarrow>
      \<not> gate_sig rt' g \<and> gate_lck rt' g \<and> bit (wq_ready rt') th
      \<and> bitset (wq_lst rt' (39 + g)) = bitset (wq_lst rt (39 + g)) - {th})
    \<and> (\<forall>h. h \<noteq> g \<longrightarrow> gate_sig rt' h = gate_sig rt h \<and> gate_lck rt' h = gate_lck rt h)"
proof -
  have g: "g < 8" using assms(1) by (simp add: gate_valid_def)
  have eq: "rt' = defer_sched (gate_open_i (39 + g) (arg_ret arg 0 rt))"
    using gate_checks [OF assms(1)] by (simp add: rt'_def gate_open_svc_def arg_ld_def bit_mem_rd_def Let_def)
  show ?thesis
  proof (cases "gate_lck rt g \<or> wq_lst rt (39 + g) = 0")
    case True
    then show ?thesis
      using g by (auto simp: eq gate_open_i_eq kernel_simps Let_def gate_index)
  next
    case False
    then have th: "ctz (wq_lst rt (39 + g)) = th" "th < 32"
      using bitset_ctz_min [of "wq_lst rt (39 + g)"] by (simp_all add: th_def ctz_less_32 flip: bitset_ctz_min)
    show ?thesis
      using False g th
      by (auto simp: eq gate_open_i_eq wakeup_return_eq kernel_simps Let_def gate_index bitset_clear)
  qed
qed

theorem gate_open_admits_one_witness:
  "gate_lck (gate_open_svc 0x1000 3 (gate_example\<lparr>wq_lst := (\<lambda>_. 0)(0 := 0x108, 39 := 6)\<rparr>)) 0"
  using gate_open_admits_one [where rt = "gate_example\<lparr>wq_lst := (\<lambda>_. 0)(0 := 0x108, 39 := 6)\<rparr>"
      and arg = "0x1000" and g = 0 and self = 3]
  by (simp add: gate_valid_def gate_example_def rt_clear_def bit_numeral_rec)

text \<open>
  C16. Leaving a gate with \<open>open == 0\<close> while an opening is pending strands the
  waiting threads: unless gate 1 happens to be locked, the gate is unlocked with
  its signal set and nobody is admitted, so threads wait at an open gate.
\<close>
theorem gate_exit_strands:
  assumes "gate_valid rt arg g" "g \<noteq> 1" "gate_sig rt g" "gate_lck rt g" "wq_lst rt (39 + g) \<noteq> 0"
    and "mem rt (arg + 4) = 0" "\<not> gate_lck rt 1"
  shows "\<not> gate_inv (gate_exit_svc arg self rt)"
proof -
  have g: "g < 8" using assms(1) by (simp add: gate_valid_def)
  have z: "gate rt AND 8 = 0"
    using assms(7) by (simp add: bit_iff_and_push_bit_not_eq_0 numeral_3_eq_3)
  have "gate_exit_svc arg self rt = rt\<lparr>mem := (mem rt)(arg := 0), gate := bit_mem_wr (gate rt) (Suc (2 * g)) False\<rparr>"
    using gate_checks [OF assms(1)] assms(4,6) z
    by (simp add: gate_exit_svc_def arg_ld_def bit_mem_rd_def Let_def arg_ret_def mem_st_def gate_clear_locked mult.commute)
  then show ?thesis
    using assms(3,5) g by (auto simp: gate_inv_def gate_index intro!: exI [of _ g])
qed

theorem gate_exit_strands_witness:
  "\<not> gate_inv (gate_exit_svc 0x1000 3 (gate_example\<lparr>wq_lst := (\<lambda>_. 0)(0 := 0x108, 39 := 6), gate := 3\<rparr>))"
  using gate_exit_strands [of "gate_example\<lparr>wq_lst := (\<lambda>_. 0)(0 := 0x108, 39 := 6), gate := 3\<rparr>" "0x1000" 0 3]
  by (simp add: gate_valid_def gate_example_def rt_clear_def bit_numeral_rec)

section \<open>Opening a gate twice\<close>

text \<open>
  \<^const>\<open>gate_open_i\<close> as called by a service, with the interrupts that run between
  taking the first thread out of the queue and clearing the signal.
\<close>
definition gate_open_i_at :: "isr list \<Rightarrow> nat \<Rightarrow> thinkos_rt \<Rightarrow> thinkos_rt" where
  "gate_open_i_at is wq rt =
     (let idx = 2 * (wq - THINKOS_GATE_BASE) in
      if gate rt AND push_bit idx GATE_LOCKED \<noteq> 0
      then rt\<lparr>gate := gate rt OR push_bit idx GATE_SIGNALED\<rparr>
      else
        let rt = rt\<lparr>gate := gate rt OR push_bit idx (GATE_LOCKED OR GATE_SIGNALED)\<rparr>;
            queue = wq_lst rt wq; th = clz (rbit queue) in
        if th = THINKOS_THREAD_NULL
        then rt\<lparr>gate := gate rt AND NOT (push_bit idx GATE_LOCKED)\<rparr>
        else
          let rt = rt\<lparr>wq_lst := (wq_lst rt)(wq := queue AND NOT (push_bit th 1))\<rparr>;
              rt = isrs_run is rt;
              rt = rt\<lparr>gate := gate rt AND NOT (push_bit idx GATE_SIGNALED)\<rparr>;
              rt = wq_bit THINKOS_WQ_READY th True rt;
              rt = wq_bit THINKOS_WQ_CLOCK th False rt;
              rt = ctx_r0_st th 0 rt
          in th_stat_st th 0 rt)"

lemma gate_open_i_at_quiet: "gate_open_i_at [] wq rt = gate_open_i wq rt"
  by (simp add: gate_open_i_at_def gate_open_i_def Let_def)

text \<open>
  An opening by an interrupt at that point is lost: the gate is locked and
  signaled already, and then the signal is cleared. Two openings admit one thread.
\<close>
lemma gate_open_race:
  assumes "g < 8" "\<not> gate_lck rt g" "wq_lst rt (39 + g) \<noteq> 0"
  shows "gate_open_i_at [GateOpen (39 + g)] (39 + g) rt = preempt (gate_open_i (39 + g) rt)"
proof -
  have bits: "(w OR push_bit n 3) AND push_bit n 2 \<noteq> 0" if "n < 16" for w :: u32 and n
  proof -
    have "bit ((w OR push_bit n 3) AND push_bit n 2) (Suc n)" using that by (simp add: bit_simps)
    then show ?thesis by auto
  qed
  have again: "(w OR push_bit n 3) OR push_bit n 1 = w OR push_bit n 3" for w :: u32 and n
    by (rule bit_word_eqI) (auto simp: bit_simps)
  have shut: "gate_open_i (39 + g) s = s" if "gate s = w OR push_bit (2 * g) 3" for s w
    using that assms(1) bits [of "2 * g" w] again [of w "2 * g"] by (simp add: gate_open_i_def Let_def)
  have lck: "gate rt AND push_bit (2 * g) 2 = 0"
    using assms(1,2) by (intro bit_word_eqI) (auto simp: bit_simps dest!: le_Suc_ex)
  have head: "ctz (wq_lst rt (39 + g)) \<noteq> 32"
    using assms(3) ctz_min [of _ "wq_lst rt (39 + g)"] word_eq_0_bits by metis
  have three: "push_bit (2 * g) (2 OR 1) = (push_bit (2 * g) 3 :: u32)" by simp
  show ?thesis
    using lck three head
    by (intro thinkos_rt.equality) (simp_all add: gate_open_i_at_def gate_open_i_def [of _ rt] Let_def cm3_except13_isr_def
      shut clz_rbit kernel_simps wq_bit_def)
qed

end
