(* ===== verification/Event.thy ===== *)
theory Event
  imports Wait Alloc
begin

text \<open>
  Event sets (\<open>thinkos_event.c\<close>): 32 pending bits and 32 mask bits per set. A
  thread waits for any event that is pending and not masked (mask bit 1); events
  are delivered in the order of their numbers.
\<close>

section \<open>Services\<close>

definition ev_alloc_svc :: svc_handler where
  "ev_alloc_svc arg self rt =
     (let (bmp, idx) = bmp_alloc1 (ev_alloc rt) THINKOS_EVENT_MAX;
          rt = rt\<lparr>ev_alloc := bmp\<rparr> in
      if 0 \<le> idx
      then arg_ret arg (of_int idx + of_nat THINKOS_EVENT_BASE)
             (rt\<lparr>ev_mask := (ev_mask rt)(nat idx := 0xffffffff), ev_pend := (ev_pend rt)(nat idx := 0)\<rparr>)
      else arg_ret arg (of_int idx) rt)"

definition ev_free_svc :: svc_handler where
  "ev_free_svc arg self rt =
     (let wq = arg_ld rt arg 0 in
      if wq < of_nat THINKOS_EVENT_BASE \<or> of_nat (THINKOS_EVENT_BASE + THINKOS_EVENT_MAX) \<le> wq
      then arg_ret arg THINKOS_EINVAL rt
      else rt\<lparr>ev_alloc := bit_mem_wr (ev_alloc rt) (unat (wq - of_nat THINKOS_EVENT_BASE)) False\<rparr>)"

text \<open>The mask is read once, before the loop.\<close>
definition ev_avail :: "u32 \<Rightarrow> nat \<Rightarrow> thinkos_rt \<Rightarrow> bool" where
  "ev_avail msk no rt \<longleftrightarrow> clz (rbit (ev_pend rt no AND msk)) < 32"

definition ev_take :: "u32 \<Rightarrow> nat \<Rightarrow> u32 \<Rightarrow> thinkos_rt \<Rightarrow> thinkos_rt" where
  "ev_take msk no arg rt =
     (let pend = ev_pend rt no; ev = clz (rbit (pend AND msk)) in
      arg_ret arg (of_nat ev)
        (rt\<lparr>ev_pend := (ev_pend rt)(no := pend AND NOT (push_bit ev 1))\<rparr>))"

definition ev_wait_svc :: "irqs list \<Rightarrow> svc_handler" where
  "ev_wait_svc qs arg self rt =
     (let wq = arg_ld rt arg 0; no = wq - of_nat THINKOS_EVENT_BASE in
      if of_nat THINKOS_EVENT_MAX \<le> no then arg_ret arg THINKOS_EINVAL rt
      else if \<not> bit_mem_rd (ev_alloc rt) (unat no) then arg_ret arg THINKOS_EINVAL rt
      else
        let msk = ev_mask rt (unat no) in
        retry (wait_once (ev_avail msk (unat no)) (ev_take msk (unat no) arg)
                 (prep_ctx self (2 * unat wq) arg) (\<lambda>rt. rt) defer_sched (unat wq) self)
          no_irqs qs rt)"

definition ev_timedwait_svc :: "irqs list \<Rightarrow> svc_handler" where
  "ev_timedwait_svc qs arg self rt =
     (let wq = arg_ld rt arg 0; ms = arg_ld rt arg 1; no = wq - of_nat THINKOS_EVENT_BASE in
      if of_nat THINKOS_EVENT_MAX \<le> no then arg_ret arg THINKOS_EINVAL rt
      else if \<not> bit_mem_rd (ev_alloc rt) (unat no) then arg_ret arg THINKOS_EINVAL rt
      else
        let msk = ev_mask rt (unat no) in
        retry (wait_once (ev_avail msk (unat no)) (ev_take msk (unat no) arg)
                 (prep_ctx self (2 * unat wq + 1) arg) (arm_clock self ms) (tail_timed arg) (unat wq) self)
          no_irqs qs rt)"

definition ev_raise_svc :: svc_handler where
  "ev_raise_svc arg self rt =
     (let wq = arg_ld rt arg 0; ev = arg_ld rt arg 1; no = wq - of_nat THINKOS_EVENT_BASE in
      if 31 < ev then arg_ret arg THINKOS_EINVAL rt
      else if of_nat THINKOS_EVENT_MAX \<le> no then arg_ret arg THINKOS_EINVAL rt
      else if \<not> bit_mem_rd (ev_alloc rt) (unat no) then arg_ret arg THINKOS_EINVAL rt
      else defer_sched (ev_raise_i (unat wq) (unat ev) (arg_ret arg 0 rt)))"

text \<open>
  \<open>thinkos_ev_mask_svc\<close>. The event number is not checked: above 31 the bit-band
  accesses leave the event set and the state is \<open>wild\<close> from then on. Enabling an event that is pending while a thread
  waits delivers it.
\<close>
definition ev_mask_svc :: svc_handler where
  "ev_mask_svc arg self rt =
     (let wq = arg_ld rt arg 0; ev = arg_ld rt arg 1; val = arg_ld rt arg 2;
          no = wq - of_nat THINKOS_EVENT_BASE in
      if of_nat THINKOS_EVENT_MAX \<le> no then arg_ret arg THINKOS_EINVAL rt
      else if \<not> bit_mem_rd (ev_alloc rt) (unat no) then arg_ret arg THINKOS_EINVAL rt
      else
        let rt = arg_ret arg 0 rt; n = unat no; e = unat ev; msk = ev_mask rt n in
        if 32 \<le> e then rt\<lparr>wild := True\<rparr>
        else if val = 0 then rt\<lparr>ev_mask := (ev_mask rt)(n := bit_mem_wr msk e False)\<rparr>
        else if msk AND push_bit e 1 \<noteq> 0 then rt
        else if \<not> bit_mem_rd (ev_pend rt n) e
        then rt\<lparr>ev_mask := (ev_mask rt)(n := msk OR push_bit e 1)\<rparr>
        else
          let queue = wq_lst rt (unat wq); th = clz (rbit queue) in
          if th = THINKOS_THREAD_NULL
          then rt\<lparr>ev_mask := (ev_mask rt)(n := bit_mem_wr msk e True)\<rparr>
          else
            let rt = rt\<lparr>wq_lst := (wq_lst rt)(unat wq := queue AND NOT (push_bit th 1))\<rparr>;
                rt = rt\<lparr>ev_pend := (ev_pend rt)(n := bit_mem_wr (ev_pend rt n) e False)\<rparr>;
                rt = rt\<lparr>ev_mask := (ev_mask rt)(n := bit_mem_wr (ev_mask rt n) e True)\<rparr>;
                rt = wq_bit THINKOS_WQ_READY th True rt;
                rt = wq_bit THINKOS_WQ_CLOCK th False rt;
                rt = ctx_r0_st th ev rt;
                rt = th_stat_st th 0 rt
            in defer_sched rt)"

definition ev_clear_svc :: svc_handler where
  "ev_clear_svc arg self rt =
     (let wq = arg_ld rt arg 0; ev = arg_ld rt arg 1; no = wq - of_nat THINKOS_EVENT_BASE in
      if of_nat THINKOS_EVENT_MAX \<le> no then arg_ret arg THINKOS_EINVAL rt
      else if \<not> bit_mem_rd (ev_alloc rt) (unat no) then arg_ret arg THINKOS_EINVAL rt
      else
        let rt = arg_ret arg 0 rt; n = unat no; e = unat ev in
        if 32 \<le> e then rt\<lparr>wild := True\<rparr>
        else rt\<lparr>ev_pend := (ev_pend rt)(n := bit_mem_wr (ev_pend rt n) e False)\<rparr>)"

declare ev_alloc_svc_def [handler_defs] ev_free_svc_def [handler_defs] ev_wait_svc_def [handler_defs]
  ev_timedwait_svc_def [handler_defs] ev_raise_svc_def [handler_defs] ev_mask_svc_def [handler_defs]
  ev_clear_svc_def [handler_defs]

section \<open>The event set as a waiting object\<close>

text \<open>An event is pending and enabled, with the mask as it is now.\<close>
definition ev_ready :: "nat \<Rightarrow> thinkos_rt \<Rightarrow> bool" where
  "ev_ready no rt \<longleftrightarrow> ev_pend rt no AND ev_mask rt no \<noteq> 0"

definition ev_deliver :: "nat \<Rightarrow> u32 \<Rightarrow> thinkos_rt \<Rightarrow> thinkos_rt" where
  "ev_deliver no arg rt = ev_take (ev_mask rt no) no arg rt"

lemma ev_avail_ready: "ev_mask rt no = msk \<Longrightarrow> ev_avail msk no rt = ev_ready no rt"
  by (simp add: ev_avail_def ev_ready_def clz_rbit ctz_less_32)

lemma ev_pend_isr:
  "isr_ok i \<Longrightarrow> ev_pend (isr_run i rt) =
     (case i of EvRaise wq ev \<Rightarrow>
        if \<not> bit (ev_mask rt (wq - 27)) ev \<or> wq_lst rt wq = 0
        then (ev_pend rt)(wq - 27 := bit_mem_wr (ev_pend rt (wq - 27)) ev True) else ev_pend rt
      | _ \<Rightarrow> ev_pend rt)"
  by (cases i) (auto simp: isr_defs wakeup_return_eq kernel_simps Let_def split: prod.split)

lemma ev_mask_isr: "isr_ok i \<Longrightarrow> ev_mask (isr_run i rt) = ev_mask rt"
  using rely_isr_run [of i rt] by (simp add: rely_def rely_fields_def)

lemma and_masked: "\<not> bit m e \<Longrightarrow> bit_mem_wr p e v AND m = p AND m"
  by (rule bit_word_eqI) (auto simp: bit_and_iff)

lemma ev_signal:
  assumes "isr_ok i" "x < 4" "\<not> ev_ready x rt" "wq_lst rt (27 + x) \<noteq> 0"
  shows "\<not> ev_ready x (isr_run i rt)"
  using assms
  by (auto simp: ev_ready_def ev_pend_isr ev_mask_isr and_masked simp del: isr_run.simps split: isr.splits)

lemma ev_take_other: "ev_ready y (ev_deliver x arg rt) \<Longrightarrow> ev_ready x rt \<Longrightarrow> ev_ready y rt"
  by (cases "x = y") (auto simp: ev_ready_def ev_deliver_def ev_take_def kernel_simps Let_def)

interpretation ev: wait_object ev_ready ev_deliver "\<lambda>self wq arg. prep_ctx self (2 * wq) arg"
    "\<lambda>self ms rt. rt" "\<lambda>arg. defer_sched" 27 4
  by unfold_locales
    (use ev_signal ev_take_other in
      \<open>auto simp: ev_ready_def ev_deliver_def ev_take_def prep_ctx_def kernel_simps Let_def\<close>)

interpretation evt: timed_object ev_ready ev_deliver "\<lambda>self wq arg. prep_ctx self (2 * wq + 1) arg" arm_clock tail_timed 27 4
  by unfold_locales
    (use ev_signal ev_take_other in
      \<open>auto simp: ev_ready_def ev_deliver_def ev_take_def prep_ctx_def arm_clock_def tail_timed_def kernel_simps Let_def\<close>)


definition ev_valid :: "thinkos_rt \<Rightarrow> u32 \<Rightarrow> nat \<Rightarrow> bool" where
  "ev_valid rt arg n \<longleftrightarrow> n < 4 \<and> mem rt arg = of_nat (27 + n) \<and> bit (ev_alloc rt) n"

lemma ev_checks:
  assumes "ev_valid rt arg n"
  shows "\<not> 4 \<le> mem rt arg - 27" "unat (mem rt arg - 27) = n" "unat (mem rt arg) = 27 + n" "bit (ev_alloc rt) n"
  using assms obj_checks [of "mem rt arg" 27 n 4] by (simp_all add: ev_valid_def)

text \<open>Reading the mask once is reading it every time: interrupts do not change it.\<close>
lemma ev_once_mask:
  assumes "irqs_ok q" "ev_mask rt n = msk"
  shows "wait_once (ev_avail msk n) (ev_take msk n arg) (prep_ctx self st arg) arm fin wq self q rt
      = wait_once (ev_ready n) (ev_deliver n arg) (prep_ctx self st arg) arm fin wq self q rt"
proof -
  note ok = assms(1) [unfolded irqs_ok_def, simplified]
  have m: "list_all isr_ok is \<Longrightarrow> ev_mask (isrs_run is r) = ev_mask r" for "is" r
    using rely_isrs_run [of "is" r] by (simp add: rely_def rely_fields_def)
  have p: "ev_mask (prep_ctx self st arg (suspend self r)) = ev_mask r" for r
    by (simp add: prep_ctx_def kernel_simps)
  have "ev_mask (isrs_run (i_chk q) (isrs_run (i_susp q) (prep_ctx self st arg (suspend self (isrs_run (i_ld q) rt))))) n = msk"
    using ok assms(2) by (simp add: m p)
  then show ?thesis
    using assms(2) by (simp add: wait_once_def wait_block_def Let_def ev_avail_ready ev_deliver_def)
qed

lemma ev_once_keeps_mask:
  assumes "irqs_ok q" "\<And>r. ev_mask (arm r) = ev_mask r" "\<And>r. ev_mask (fin r) = ev_mask r"
  shows "ev_mask (snd (wait_once (ev_ready n) (ev_deliver n arg) (prep_ctx self st arg) arm fin wq self q rt)) = ev_mask rt"
proof -
  note ok = assms(1) [unfolded irqs_ok_def, simplified]
  have m: "list_all isr_ok is \<Longrightarrow> ev_mask (isrs_run is r) = ev_mask r" for "is" r
    using rely_isrs_run [of "is" r] by (simp add: rely_def rely_fields_def)
  have p: "ev_mask (prep_ctx self st arg (suspend self r)) = ev_mask r"
    "ev_mask (wait_rollback self r) = ev_mask r" "ev_mask (ev_deliver n arg r) = ev_mask r" for r
    by (simp_all add: prep_ctx_def wait_rollback_def ev_deliver_def ev_take_def kernel_simps Let_def)
  show ?thesis
    using ok assms(2,3) by (simp add: wait_once_def wait_block_def Let_def m p)
qed

lemma ev_wait_valid:
  assumes "ev_valid rt arg n" "list_all irqs_ok qs"
  shows "ev_wait_svc qs arg self rt = retry (ev.once n self arg 0) no_irqs qs rt"
    and "ev_timedwait_svc qs arg self rt = retry (evt.once n self arg (mem rt (arg + 4))) no_irqs qs rt"
proof -
  have ok: "q \<in> set (no_irqs # qs) \<Longrightarrow> irqs_ok q" for q
    using assms(2) by (auto simp: list_all_iff) (simp add: irqs_ok_def no_irqs_def)
  have r: "retry (wait_once (ev_avail (ev_mask rt n) n) (ev_take (ev_mask rt n) n arg) (prep_ctx self st arg) arm fin (27 + n) self) no_irqs qs rt
      = retry (wait_once (ev_ready n) (ev_deliver n arg) (prep_ctx self st arg) arm fin (27 + n) self) no_irqs qs rt"
    if fin: "\<And>r. ev_mask (arm r) = ev_mask r" "\<And>r. ev_mask (fin r) = ev_mask r" for st arm fin
    by (rule retry_cong [where I = "\<lambda>s. ev_mask s n = ev_mask rt n"])
      (use ok fin in \<open>auto simp: ev_once_mask ev_once_keeps_mask\<close>)
  show "ev_wait_svc qs arg self rt = retry (ev.once n self arg 0) no_irqs qs rt"
    using ev_checks [OF assms(1)] r [of "\<lambda>rt. rt" defer_sched "2 * (27 + n)"]
    by (simp add: ev_wait_svc_def arg_ld_def bit_mem_rd_def Let_def defer_sched_def)
  show "ev_timedwait_svc qs arg self rt = retry (evt.once n self arg (mem rt (arg + 4))) no_irqs qs rt"
    using ev_checks [OF assms(1)] r [of "arm_clock self (mem rt (arg + 4))" "tail_timed arg" "2 * (27 + n) + 1"]
    by (simp add: ev_timedwait_svc_def arg_ld_def bit_mem_rd_def Let_def arm_clock_def tail_timed_def kernel_simps)
qed

section \<open>Properties\<close>

text \<open>No thread waits on a set with an enabled pending event.\<close>
definition ev_inv :: "thinkos_rt \<Rightarrow> bool" where
  "ev_inv rt \<longleftrightarrow> (\<forall>n<4. wq_lst rt (27 + n) \<noteq> 0 \<longrightarrow> ev_pend rt n AND ev_mask rt n = 0)"



definition ev_example :: thinkos_rt where
  "ev_example = rt_clear\<lparr>wq_lst := (\<lambda>_. 0)(0 := 0x108), irq_th := (\<lambda>_. 8), active := 3,
     ev_alloc := 1, ev_mask := (\<lambda>_. 0xffffffff), mem := (\<lambda>_. 0)(0x1000 := 27, 0x1004 := 5, 0x1008 := 1)\<rparr>"



text \<open>
  C13. With an enabled event pending, \<open>ev_wait\<close> returns at once with the lowest
  numbered one, and consumes that event only.
\<close>
theorem ev_wait_lowest:
  fixes self :: nat
  assumes "ev_valid rt arg n" "ev_pend rt n AND ev_mask rt n \<noteq> 0"
  defines "e \<equiv> Min (bitset (ev_pend rt n) \<inter> bitset (ev_mask rt n))"
    and "rt' \<equiv> ev_wait_svc [] arg self rt"
  shows "rt' = rt\<lparr>mem := (mem rt)(arg := of_nat e), ev_pend := (ev_pend rt)(n := bit_mem_wr (ev_pend rt n) e False)\<rparr>"
proof -
  have "bitset (ev_pend rt n AND ev_mask rt n) = bitset (ev_pend rt n) \<inter> bitset (ev_mask rt n)"
    by (auto simp: bit_and_iff)
  then have "ctz (ev_pend rt n AND ev_mask rt n) = e"
    using bitset_ctz_min [OF assms(2)] by (simp add: e_def)
  then show ?thesis
    using assms(2)
    by (simp add: rt'_def ev_wait_valid [OF assms(1)] wait_once_def ev_ready_def no_irqs_def ev_deliver_def
        ev_take_def clz_rbit kernel_simps Let_def)
qed

theorem ev_wait_lowest_witness:
  "mem (ev_wait_svc [] 0x1000 3 (ev_example\<lparr>ev_pend := (\<lambda>_. 0x14)\<rparr>)) 0x1000 = 2"
proof -
  have "bitset 0x14 = set (filter (bit (0x14 :: u32)) [0..<32])" "bitset 0xffffffff = set (filter (bit (0xffffffff :: u32)) [0..<32])"
    by (auto dest: bit_less_32)
  moreover have "Min (set (filter (bit (0x14 :: u32)) [0..<32]) \<inter> set (filter (bit (0xffffffff :: u32)) [0..<32])) = 2"
    by code_simp
  ultimately show ?thesis
    using ev_wait_lowest [where rt = "ev_example\<lparr>ev_pend := (\<lambda>_. 0x14)\<rparr>" and arg = "0x1000" and n = 0 and self = 3]
    by (simp add: ev_valid_def ev_example_def)
qed

lemma mask_off: "p AND m = 0 \<Longrightarrow> p AND bit_mem_wr m e False = (0 :: u32)"
  and mask_on: "\<not> bit p e \<Longrightarrow> p AND bit_mem_wr m e True = p AND (m :: u32)"
  and mask_consume: "p AND m = 0 \<Longrightarrow> bit_mem_wr p e False AND m = (0 :: u32)"
proof -
  show "p AND bit_mem_wr m e False = 0" if "p AND m = 0"
  proof (rule bit_word_eqI)
    show "bit (p AND bit_mem_wr m e False) k = bit 0 k" for k
      using that [THEN arg_cong [of _ _ "\<lambda>w. bit w k"]] by (auto simp: bit_and_iff)
  qed
  show "p AND bit_mem_wr m e True = p AND m" if "\<not> bit p e"
    using that by (intro bit_word_eqI) (auto simp: bit_and_iff)
  show "bit_mem_wr p e False AND m = 0" if "p AND m = 0"
  proof (rule bit_word_eqI)
    show "bit (bit_mem_wr p e False AND m) k = bit 0 k" for k
      using that [THEN arg_cong [of _ _ "\<lambda>w. bit w k"]] by (auto simp: bit_and_iff)
  qed
qed

text \<open>
  Changing the mask never strands an event: enabling an event that is pending
  delivers it to the first waiting thread, so that still no thread waits on a
  set with an enabled pending event.
\<close>
lemma ev_mask_keeps_inv:
  assumes "ev_inv rt" "mem rt (arg + 4) < 32"
  shows "ev_inv (ev_mask_svc arg self rt)"
proof -
  have e: "\<not> 32 \<le> unat (mem rt (arg + 4))"
    using assms(2) by (simp add: word_less_nat_alt)
  show ?thesis
  proof (cases "4 \<le> mem rt arg - 27 \<or> \<not> bit (ev_alloc rt) (unat (mem rt arg - 27))")
    case True
    then show ?thesis
      using assms(1) by (auto simp: ev_mask_svc_def ev_inv_def kernel_simps bit_mem_rd_def Let_def)
  next
    case False
    define n where "n = unat (mem rt arg - 27)"
    have "ev_valid rt arg n"
      using False obj_valid [of 4 "mem rt arg" 27] by (simp add: ev_valid_def n_def)
    note c = ev_checks [OF this]
    have n: "n < 4" using \<open>ev_valid rt arg n\<close> by (simp add: ev_valid_def)
    show ?thesis
      using assms(1) e c n
      by (simp add: ev_mask_svc_def ev_inv_def kernel_simps bit_mem_rd_def Let_def clz_rbit ctz_eq_32
          mask_off mask_on mask_consume)
  qed
qed


text \<open>
  Raising an event that is enabled while threads wait delivers it to the
  lowest numbered of them as the return value of its call; otherwise the event
  becomes pending. In both cases an out of range number is refused.
\<close>
lemma ev_raise_delivers:
  fixes self :: nat
  assumes "ev_valid rt arg n"
  defines "e \<equiv> mem rt (arg + 4)" and "rt' \<equiv> ev_raise_svc arg self rt"
    and "th \<equiv> Min (bitset (wq_lst rt (27 + n)))"
  shows "(31 < e \<longrightarrow> rt' = rt\<lparr>mem := (mem rt)(arg := THINKOS_EINVAL)\<rparr>)
    \<and> (\<not> 31 < e \<longrightarrow> (\<not> bit (ev_mask rt n) (unat e) \<or> wq_lst rt (27 + n) = 0) \<longrightarrow>
        rt' = rt\<lparr>mem := (mem rt)(arg := 0), ev_pend := (ev_pend rt)(n := bit_mem_wr (ev_pend rt n) (unat e) True),
                 pendsv := True\<rparr>)
    \<and> (\<not> 31 < e \<longrightarrow> bit (ev_mask rt n) (unat e) \<longrightarrow> wq_lst rt (27 + n) \<noteq> 0 \<longrightarrow>
        ev_pend rt' = ev_pend rt \<and> bitset (wq_lst rt' (27 + n)) = bitset (wq_lst rt (27 + n)) - {th}
        \<and> bit (wq_ready rt') th \<and> th_stat rt' th = 0
        \<and> (ctx rt th \<noteq> 0 \<longrightarrow> mem rt' (ctx rt th + 32) = e))"
proof -
  have n: "n < 4" using assms(1) by (simp add: ev_valid_def)
  have r: "\<not> 31 < e \<Longrightarrow> rt' = defer_sched (ev_raise_i (27 + n) (unat e) (arg_ret arg 0 rt)) \<and> \<not> 32 \<le> unat e"
    using ev_checks [OF assms(1)]
    by (simp add: rt'_def e_def ev_raise_svc_def arg_ld_def bit_mem_rd_def Let_def word_less_nat_alt)
  have "31 < e \<Longrightarrow> rt' = rt\<lparr>mem := (mem rt)(arg := THINKOS_EINVAL)\<rparr>"
    by (simp add: rt'_def e_def ev_raise_svc_def kernel_simps Let_def)
  moreover have "rt' = rt\<lparr>mem := (mem rt)(arg := 0), ev_pend := (ev_pend rt)(n := bit_mem_wr (ev_pend rt n) (unat e) True),
                 pendsv := True\<rparr>"
    if "\<not> 31 < e" "\<not> bit (ev_mask rt n) (unat e) \<or> wq_lst rt (27 + n) = 0"
    using r [OF that(1)] that(2) by (simp add: ev_raise_i_eq kernel_simps)
  moreover have "ev_pend rt' = ev_pend rt \<and> bitset (wq_lst rt' (27 + n)) = bitset (wq_lst rt (27 + n)) - {th}
        \<and> bit (wq_ready rt') th \<and> th_stat rt' th = 0
        \<and> (ctx rt th \<noteq> 0 \<longrightarrow> mem rt' (ctx rt th + 32) = e)"
    if "\<not> 31 < e" "bit (ev_mask rt n) (unat e)" "wq_lst rt (27 + n) \<noteq> 0"
  proof -
    have th: "ctz (wq_lst rt (27 + n)) = th" "th < 32"
      using bitset_ctz_min [OF that(3)] that(3) by (simp_all add: th_def ctz_less_32 flip: bitset_ctz_min)
    show ?thesis
      using r [OF that(1)] that(2,3) th n
      by (simp add: ev_raise_i_eq wakeup_return_eq kernel_simps Let_def bitset_clear)
  qed
  ultimately show ?thesis by blast
qed

end
