(* ===== verification/Flag.thy ===== *)
theory Flag
  imports Wait Alloc
begin

text \<open>
  Flags (\<open>thinkos_flag.c\<close>): one bit per flag. \<open>take\<close> waits for the flag and
  clears it, \<open>give\<close> wakes one waiting thread or sets the flag; \<open>set\<close> and
  \<open>watch\<close> form a second family, where setting the flag wakes every waiting
  thread and leaves the flag set.
\<close>

section \<open>Services\<close>

definition flag_alloc_svc :: svc_handler where
  "flag_alloc_svc arg self rt =
     (let (bmp, idx) = bmp_alloc1 (flag_alloc rt) THINKOS_FLAG_MAX;
          rt = rt\<lparr>flag_alloc := bmp\<rparr> in
      if 0 \<le> idx
      then arg_ret arg (of_int idx + of_nat THINKOS_FLAG_BASE)
             (rt\<lparr>flag := bit_mem_wr (flag rt) (nat idx) False\<rparr>)
      else arg_ret arg (of_int idx) rt)"

definition flag_free_svc :: svc_handler where
  "flag_free_svc arg self rt =
     (let wq = arg_ld rt arg 0; idx = wq - of_nat THINKOS_FLAG_BASE in
      if of_nat THINKOS_FLAG_MAX \<le> idx then arg_ret arg THINKOS_EINVAL rt
      else rt\<lparr>flag_alloc := bit_mem_wr (flag_alloc rt) (unat idx) False\<rparr>)"

definition flag_avail :: "nat \<Rightarrow> thinkos_rt \<Rightarrow> bool" where
  "flag_avail idx rt \<longleftrightarrow> flag rt AND push_bit idx 1 \<noteq> 0"

definition flag_clear :: "nat \<Rightarrow> u32 \<Rightarrow> thinkos_rt \<Rightarrow> thinkos_rt" where
  "flag_clear idx arg rt = arg_ret arg 0 (rt\<lparr>flag := flag rt AND NOT (push_bit idx 1)\<rparr>)"

text \<open>The context pointer of the caller is not saved here, unlike in the other waiting services.\<close>
definition flag_take_svc :: "irqs list \<Rightarrow> svc_handler" where
  "flag_take_svc qs arg self rt =
     (let wq = arg_ld rt arg 0; idx = wq - of_nat THINKOS_FLAG_BASE in
      if of_nat THINKOS_FLAG_MAX \<le> idx then arg_ret arg THINKOS_EINVAL rt
      else if \<not> bit_mem_rd (flag_alloc rt) (unat idx) then arg_ret arg THINKOS_EINVAL rt
      else retry (wait_once (flag_avail (unat idx)) (flag_clear (unat idx) arg)
                    (prep_stat self (2 * unat wq)) (\<lambda>rt. rt) defer_sched (unat wq) self)
             no_irqs qs rt)"

definition flag_timedtake_svc :: "irqs list \<Rightarrow> svc_handler" where
  "flag_timedtake_svc qs arg self rt =
     (let wq = arg_ld rt arg 0; ms = arg_ld rt arg 1; idx = wq - of_nat THINKOS_FLAG_BASE in
      if of_nat THINKOS_FLAG_MAX \<le> idx then arg_ret arg THINKOS_EINVAL rt
      else if \<not> bit_mem_rd (flag_alloc rt) (unat idx) then arg_ret arg THINKOS_EINVAL rt
      else retry (wait_once (flag_avail (unat idx)) (flag_clear (unat idx) arg)
                    (prep_stat self (2 * unat wq + 1)) (arm_clock self ms) (tail_timed arg) (unat wq) self)
             no_irqs qs rt)"

definition flag_give_svc :: svc_handler where
  "flag_give_svc arg self rt =
     (let wq = arg_ld rt arg 0; idx = wq - of_nat THINKOS_FLAG_BASE in
      if of_nat THINKOS_FLAG_MAX \<le> idx then arg_ret arg THINKOS_EINVAL rt
      else if \<not> bit_mem_rd (flag_alloc rt) (unat idx) then arg_ret arg THINKOS_EINVAL rt
      else defer_sched (flag_give_i (unat wq) (arg_ret arg 0 rt)))"

definition flag_val_svc :: svc_handler where
  "flag_val_svc arg self rt =
     (let wq = arg_ld rt arg 0; idx = wq - of_nat THINKOS_FLAG_BASE in
      if of_nat THINKOS_FLAG_MAX \<le> idx then arg_ret arg THINKOS_EINVAL rt
      else if \<not> bit_mem_rd (flag_alloc rt) (unat idx) then arg_ret arg THINKOS_EINVAL rt
      else arg_ret arg (of_bool (bit_mem_rd (flag rt) (unat idx))) rt)"

definition flag_clr :: "nat \<Rightarrow> thinkos_rt \<Rightarrow> thinkos_rt" where
  "flag_clr wq rt = rt\<lparr>flag := bit_mem_wr (flag rt) (wq - THINKOS_FLAG_BASE) False\<rparr>"

definition flag_clr_svc :: svc_handler where
  "flag_clr_svc arg self rt =
     (let wq = arg_ld rt arg 0; idx = wq - of_nat THINKOS_FLAG_BASE in
      if of_nat THINKOS_FLAG_MAX \<le> idx then arg_ret arg THINKOS_EINVAL rt
      else if \<not> bit_mem_rd (flag_alloc rt) (unat idx) then arg_ret arg THINKOS_EINVAL rt
      else flag_clr (unat wq) (arg_ret arg 0 rt))"

definition flag_set_svc :: svc_handler where
  "flag_set_svc arg self rt =
     (let wq = arg_ld rt arg 0; idx = wq - of_nat THINKOS_FLAG_BASE in
      if of_nat THINKOS_FLAG_MAX \<le> idx then arg_ret arg THINKOS_EINVAL rt
      else if \<not> bit_mem_rd (flag_alloc rt) (unat idx) then arg_ret arg THINKOS_EINVAL rt
      else
        let rt = arg_ret arg 0 rt;
            rt = rt\<lparr>flag := bit_mem_wr (flag rt) (unat idx) True\<rparr>;
            th = wq_head (unat wq) rt in
        if th \<noteq> THINKOS_THREAD_NULL
        then defer_sched (wakeup_all (unat wq) (wakeup (unat wq) th rt))
        else rt)"

definition flag_watch_svc :: svc_handler where
  "flag_watch_svc arg self rt =
     (let wq = arg_ld rt arg 0; idx = wq - of_nat THINKOS_FLAG_BASE in
      if of_nat THINKOS_FLAG_MAX \<le> idx then arg_ret arg THINKOS_EINVAL rt
      else if \<not> bit_mem_rd (flag_alloc rt) (unat idx) then arg_ret arg THINKOS_EINVAL rt
      else
        let rt = arg_ret arg 0 rt in
        if bit_mem_rd (flag rt) (unat idx) then rt
        else defer_sched (suspend self (wq_insert (unat wq) self rt)))"

definition flag_timedwatch_svc :: svc_handler where
  "flag_timedwatch_svc arg self rt =
     (let wq = arg_ld rt arg 0; ms = arg_ld rt arg 1; idx = wq - of_nat THINKOS_FLAG_BASE in
      if of_nat THINKOS_FLAG_MAX \<le> idx then arg_ret arg THINKOS_EINVAL rt
      else if \<not> bit_mem_rd (flag_alloc rt) (unat idx) then arg_ret arg THINKOS_EINVAL rt
      else
        let rt = arg_ret arg 0 rt in
        if bit_mem_rd (flag rt) (unat idx) then rt
        else
          let rt = arg_ret arg THINKOS_ETIMEDOUT rt;
              rt = tmdwq_insert (unat wq) self ms rt
          in defer_sched (suspend self rt))"

declare flag_alloc_svc_def [handler_defs] flag_free_svc_def [handler_defs] flag_take_svc_def [handler_defs]
  flag_timedtake_svc_def [handler_defs] flag_give_svc_def [handler_defs] flag_val_svc_def [handler_defs]
  flag_clr_svc_def [handler_defs] flag_set_svc_def [handler_defs] flag_watch_svc_def [handler_defs]
  flag_timedwatch_svc_def [handler_defs]


section \<open>The flag as a waiting object\<close>

lemma flag_avail_bit [simp]: "flag_avail idx rt \<longleftrightarrow> bit (flag rt) idx"
  by (simp add: flag_avail_def bit_iff_and_push_bit_not_eq_0)

lemma flag_isr:
  "isr_ok i \<Longrightarrow> flag (isr_run i rt) =
     (case i of FlagGive wq \<Rightarrow> if wq_lst rt wq = 0 then bit_mem_wr (flag rt) (wq - 31) True else flag rt
      | _ \<Rightarrow> flag rt)"
  by (cases i) (auto simp: isr_defs wakeup_return_eq kernel_simps Let_def split: prod.split)

interpretation flg: wait_object flag_avail flag_clear "\<lambda>self wq arg. prep_stat self (2 * wq)"
    "\<lambda>self ms rt. rt" "\<lambda>arg. defer_sched" 31 8
  by unfold_locales
    (auto simp: flag_clear_def prep_stat_def kernel_simps flag_isr split: isr.splits if_splits)

interpretation flgt: timed_object flag_avail flag_clear "\<lambda>self wq arg. prep_stat self (2 * wq + 1)" arm_clock tail_timed 31 8
  by unfold_locales
    (auto simp: flag_clear_def prep_stat_def arm_clock_def tail_timed_def kernel_simps flag_isr Let_def
      split: isr.splits if_splits)

definition flag_valid :: "thinkos_rt \<Rightarrow> u32 \<Rightarrow> nat \<Rightarrow> bool" where
  "flag_valid rt arg f \<longleftrightarrow> f < 8 \<and> mem rt arg = of_nat (31 + f) \<and> bit (flag_alloc rt) f"

lemma flag_checks:
  assumes "flag_valid rt arg f"
  shows "\<not> 8 \<le> mem rt arg - 31" "unat (mem rt arg - 31) = f" "unat (mem rt arg) = 31 + f" "bit (flag_alloc rt) f"
  using assms obj_checks [of "mem rt arg" 31 f 8] by (simp_all add: flag_valid_def)

lemma flag_valid_cases:
  obtains "8 \<le> mem rt arg - 31 \<or> \<not> bit (flag_alloc rt) (unat (mem rt arg - 31))"
    | f where "flag_valid rt arg f"
  using obj_valid [of 8 "mem rt arg" 31] by (fastforce simp: flag_valid_def)


lemma flag_take_valid:
  assumes "flag_valid rt arg f"
  shows "flag_take_svc qs arg self rt = retry (flg.once f self arg 0) no_irqs qs rt"
    and "flag_timedtake_svc qs arg self rt = retry (flgt.once f self arg (mem rt (arg + 4))) no_irqs qs rt"
  using flag_checks [OF assms]
  by (simp_all add: flag_take_svc_def flag_timedtake_svc_def arg_ld_def bit_mem_rd_def Let_def)

lemma flag_take_invalid:
  assumes "8 \<le> mem rt arg - 31 \<or> \<not> bit (flag_alloc rt) (unat (mem rt arg - 31))"
  shows "flag_take_svc qs arg self rt = arg_ret arg (- 3) rt"
    and "flag_timedtake_svc qs arg self rt = arg_ret arg (- 3) rt"
  using assms by (auto simp: handler_defs arg_ld_def bit_mem_rd_def Let_def)

section \<open>Properties\<close>







text \<open>
  Setting a flag wakes every thread waiting on it: the queue is empty
  afterwards, exactly its threads joined the ready queue, their status is
  cleared, and the flag stays set.
\<close>
lemma flag_set_wakes_all:
  fixes self :: nat
  assumes "flag_valid rt arg f"
  defines "rt' \<equiv> flag_set_svc arg self rt"
  shows "wq_lst rt' (31 + f) = 0 \<and> bitset (wq_ready rt') = bitset (wq_ready rt) \<union> bitset (wq_lst rt (31 + f))
    \<and> (\<forall>th\<in>bitset (wq_lst rt (31 + f)). th_stat rt' th = 0
         \<and> (ctx rt th \<noteq> 0 \<longrightarrow> mem rt' (ctx rt th + 32) = 0))
    \<and> bit (flag rt') f"
proof -
  define r where "r = rt\<lparr>mem := (mem rt)(arg := 0), flag := bit_mem_wr (flag rt) f True\<rparr>"
  have f: "f < 8" "wq_lst r = wq_lst rt" "ctx r = ctx rt"
    using assms(1) by (simp_all add: flag_valid_def r_def)
  have "rt' = (if wq_lst r (31 + f) = 0 then r else defer_sched (wakeup_all (31 + f) r))"
    using flag_checks [OF assms(1)] wakeup_all_step [of "31 + f" r] f(2)
    by (simp add: rt'_def flag_set_svc_def arg_ld_def bit_mem_rd_def arg_ret_def mem_st_def Let_def
        wq_head_eq ctz_eq_32 flip: r_def)
  then have w: "wq_lst rt' = wq_lst (wakeup_all (31 + f) r)" "th_stat rt' = th_stat (wakeup_all (31 + f) r)"
    "mem rt' = mem (wakeup_all (31 + f) r)" "flag rt' = flag (wakeup_all (31 + f) r)"
    by (simp_all add: wakeup_all_empty defer_sched_def)
  show ?thesis
    using wakeup_all_queues [of "31 + f" r] wakeup_all_frame [of "31 + f" r] f
    by (auto simp: w) (simp add: r_def)
qed

text \<open>
  A give that arrives between the insertion of the caller in the queue and
  the context switch stores the return value through the context pointer the
  scheduler saved last. For a thread that was never switched out, such as the
  main thread before its first wait, the pointer is null: the kernel writes
  through it.
\<close>
lemma flag_take_null_context:
  assumes "flag_valid rt arg f" "self < 8" "runnable rt self" "\<not> bit (flag rt) f" "wq_lst rt (31 + f) = 0"
    and "ctx rt self = 0"
  shows "wild (flag_take_svc [no_irqs\<lparr>i_tail := [FlagGive (31 + f)]\<rparr>] arg self rt)"
proof -
  have c: "ctz (bit_mem_wr 0 self True) = self"
    using assms(2) by (intro ctz_unique) auto
  have f: "f < 8" using assms(1) by (simp add: flag_valid_def)
  have nz: "bit_mem_wr 0 self True \<noteq> 0"
    using c assms(2) ctz_0 by force
  show ?thesis
    using assms(2-6) f c nz
    by (simp add: flag_take_valid [OF assms(1)] no_irqs_def wait_once_def wait_block_def
        prep_stat_def cm3_except10_isr_def flag_give_i_eq wakeup_return_eq kernel_simps Let_def)
qed

end
