(* ===== verification/Semaphore.thy ===== *)
theory Semaphore
  imports Wait Alloc
begin

text \<open>
  Counting semaphores (\<open>thinkos_semaphore.c\<close>): the services as they are
  dispatched by the system call exception; \<open>arg\<close> is the address of the
  exception frame, \<open>self\<close> the calling thread. The waiting services take the
  list of interrupted passes as their first argument.
\<close>

section \<open>Services\<close>

definition sem_alloc_svc :: svc_handler where
  "sem_alloc_svc arg self rt =
     (let value = arg_ld rt arg 0;
          (bmp, idx) = bmp_alloc1 (sem_alloc rt) THINKOS_SEMAPHORE_MAX;
          rt = rt\<lparr>sem_alloc := bmp\<rparr> in
      if 0 \<le> idx
      then let rt = rt\<lparr>sem_val := (sem_val rt)(nat idx := value)\<rparr>
           in arg_ret arg (of_int idx + of_nat THINKOS_SEM_BASE) rt
      else arg_ret arg (of_int idx) rt)"

definition sem_free_svc :: svc_handler where
  "sem_free_svc arg self rt =
     (let wq = arg_ld rt arg 0; idx = wq - of_nat THINKOS_SEM_BASE in
      if of_nat THINKOS_SEMAPHORE_MAX \<le> idx then arg_ret arg THINKOS_EINVAL rt
      else rt\<lparr>sem_alloc := bit_mem_wr (sem_alloc rt) (unat idx) False\<rparr>)"

definition sem_init_svc :: svc_handler where
  "sem_init_svc arg self rt =
     (let wq = arg_ld rt arg 0; sem = wq - of_nat THINKOS_SEM_BASE; value = arg_ld rt arg 1 in
      if of_nat THINKOS_SEMAPHORE_MAX \<le> sem then arg_ret arg THINKOS_EINVAL rt
      else if \<not> bit_mem_rd (sem_alloc rt) (unat sem) then arg_ret arg THINKOS_EINVAL rt
      else arg_ret arg 0 (rt\<lparr>sem_val := (sem_val rt)(unat sem := value)\<rparr>))"

text \<open>
  The retry loop of \<open>thinkos_sem_trywait_svc\<close>: \<open>arg[0]\<close> is written before the
  store, the store fails if an interrupt ran since the load.
\<close>
definition sem_trywait_once :: "u32 \<Rightarrow> nat \<Rightarrow> isr list \<Rightarrow> thinkos_rt \<Rightarrow> bool \<times> thinkos_rt" where
  "sem_trywait_once arg sem q rt =
     (let v = sem_val rt sem;
          rt' = arg_ret arg (if 0 < v then 0 else THINKOS_EAGAIN) (isrs_run q rt) in
      if q \<noteq> [] then (True, rt')
      else (False, rt'\<lparr>sem_val := (sem_val rt')(sem := if 0 < v then v - 1 else v)\<rparr>))"

definition sem_trywait_svc :: "isr list list \<Rightarrow> svc_handler" where
  "sem_trywait_svc qs arg self rt =
     (let wq = arg_ld rt arg 0; sem = wq - of_nat THINKOS_SEM_BASE in
      if of_nat THINKOS_SEMAPHORE_MAX \<le> sem then arg_ret arg THINKOS_EINVAL rt
      else if \<not> bit_mem_rd (sem_alloc rt) (unat sem) then arg_ret arg THINKOS_EINVAL rt
      else retry (sem_trywait_once arg (unat sem)) [] qs rt)"

definition sem_avail :: "nat \<Rightarrow> thinkos_rt \<Rightarrow> bool" where
  "sem_avail sem rt \<longleftrightarrow> 0 < sem_val rt sem"

definition sem_take :: "nat \<Rightarrow> u32 \<Rightarrow> thinkos_rt \<Rightarrow> thinkos_rt" where
  "sem_take sem arg rt = arg_ret arg 0 (rt\<lparr>sem_val := (sem_val rt)(sem := sem_val rt sem - 1)\<rparr>)"

definition sem_wait_svc :: "irqs list \<Rightarrow> svc_handler" where
  "sem_wait_svc qs arg self rt =
     (let wq = arg_ld rt arg 0; sem = wq - of_nat THINKOS_SEM_BASE in
      if of_nat THINKOS_SEMAPHORE_MAX \<le> sem then arg_ret arg THINKOS_EINVAL rt
      else if \<not> bit_mem_rd (sem_alloc rt) (unat sem) then arg_ret arg THINKOS_EINVAL rt
      else retry (wait_once (sem_avail (unat sem)) (sem_take (unat sem) arg)
                    (prep_ctx self (2 * unat wq) arg) (\<lambda>rt. rt) defer_sched (unat wq) self)
             no_irqs qs rt)"

definition sem_timedwait_svc :: "irqs list \<Rightarrow> svc_handler" where
  "sem_timedwait_svc qs arg self rt =
     (let wq = arg_ld rt arg 0; sem = wq - of_nat THINKOS_SEM_BASE; ms = arg_ld rt arg 1 in
      if of_nat THINKOS_SEMAPHORE_MAX \<le> sem then arg_ret arg THINKOS_EINVAL rt
      else if \<not> bit_mem_rd (sem_alloc rt) (unat sem) then arg_ret arg THINKOS_EINVAL rt
      else retry (wait_once (sem_avail (unat sem)) (sem_take (unat sem) arg)
                    (prep_ctx self (2 * unat wq + 1) arg) (arm_clock self ms) (tail_timed arg) (unat wq) self)
             no_irqs qs rt)"

definition sem_post_svc :: svc_handler where
  "sem_post_svc arg self rt =
     (let wq = arg_ld rt arg 0; sem = wq - of_nat THINKOS_SEM_BASE in
      if of_nat THINKOS_SEMAPHORE_MAX \<le> sem then arg_ret arg THINKOS_EINVAL rt
      else if \<not> bit_mem_rd (sem_alloc rt) (unat sem) then arg_ret arg THINKOS_EINVAL rt
      else defer_sched (sem_post_i (unat wq) (arg_ret arg 0 rt)))"

declare sem_alloc_svc_def [handler_defs] sem_free_svc_def [handler_defs] sem_init_svc_def [handler_defs]
  sem_trywait_svc_def [handler_defs] sem_wait_svc_def [handler_defs] sem_timedwait_svc_def [handler_defs]
  sem_post_svc_def [handler_defs]

section \<open>The semaphore as a waiting object\<close>

lemma wakeup_return_sem_val [simp]: "sem_val (wakeup_return wq th v rt) = sem_val rt"
  by (simp add: wakeup_return_eq)

lemma sem_val_isr:
  "isr_ok i \<Longrightarrow> sem_val (isr_run i rt) =
     (case i of SemPost wq \<Rightarrow> if wq_lst rt wq = 0 then (sem_val rt)(wq - 19 := sem_val rt (wq - 19) + 1) else sem_val rt
      | _ \<Rightarrow> sem_val rt)"
  by (cases i)
    (auto simp: isr_defs kernel_simps Let_def split: prod.split)

interpretation sem: wait_object sem_avail sem_take "\<lambda>self wq arg. prep_ctx self (2 * wq) arg"
    "\<lambda>self ms rt. rt" "\<lambda>arg. defer_sched" 19 8
  by (unfold_locales)
    (auto simp: sem_avail_def sem_take_def prep_ctx_def kernel_simps sem_val_isr
        split: isr.splits if_splits)

interpretation semt: timed_object sem_avail sem_take "\<lambda>self wq arg. prep_ctx self (2 * wq + 1) arg" arm_clock tail_timed 19 8
  by (unfold_locales)
    (auto simp: sem_avail_def sem_take_def prep_ctx_def arm_clock_def tail_timed_def kernel_simps sem_val_isr Let_def
        split: isr.splits if_splits)

text \<open>The checks every service starts with.\<close>
definition sem_valid :: "thinkos_rt \<Rightarrow> u32 \<Rightarrow> nat \<Rightarrow> bool" where
  "sem_valid rt arg s \<longleftrightarrow> s < 8 \<and> mem rt arg = of_nat (19 + s) \<and> bit (sem_alloc rt) s"

lemma sem_checks:
  assumes "sem_valid rt arg s"
  shows "\<not> 8 \<le> mem rt arg - 19" "unat (mem rt arg - 19) = s" "unat (mem rt arg) = 19 + s" "bit (sem_alloc rt) s"
  using assms obj_checks [of "mem rt arg" 19 s 8] by (simp_all add: sem_valid_def)

lemma sem_wait_valid:
  "sem_valid rt arg s \<Longrightarrow> sem_wait_svc qs arg self rt = retry (sem.once s self arg 0) no_irqs qs rt"
  using sem_checks [of rt arg s] by (simp add: sem_wait_svc_def arg_ld_def bit_mem_rd_def Let_def)

lemma sem_timedwait_valid:
  "sem_valid rt arg s \<Longrightarrow>
   sem_timedwait_svc qs arg self rt = retry (semt.once s self arg (mem rt (arg + 4))) no_irqs qs rt"
  using sem_checks [of rt arg s] by (simp add: sem_timedwait_svc_def arg_ld_def bit_mem_rd_def Let_def)


section \<open>Token accounting\<close>

text \<open>
  The balance of a semaphore: its count minus the number of threads waiting on
  it, modulo \<open>2 ^ 32\<close> as the counter. A post adds one, a wait takes one.
\<close>
definition sem_balance :: "thinkos_rt \<Rightarrow> nat \<Rightarrow> u32" where
  "sem_balance rt s = sem_val rt s - of_nat (card (bitset (wq_lst rt (19 + s))))"

definition sem_posts :: "nat \<Rightarrow> isr list \<Rightarrow> nat" where
  "sem_posts s is = length (filter (\<lambda>i. i = SemPost (19 + s)) is)"

lemma sem_posts_simps [simp]:
  "sem_posts s [] = 0"
  "sem_posts s (i # is) = (if i = SemPost (19 + s) then 1 else 0) + sem_posts s is"
  "sem_posts s (is @ is') = sem_posts s is + sem_posts s is'"
  by (simp_all add: sem_posts_def)

text \<open>Only a post changes the queue of a semaphore.\<close>
lemma sem_queue_isr:
  assumes "isr_ok i" "s < 8"
  shows "wq_lst (isr_run i rt) (19 + s) =
     (if i = SemPost (19 + s) \<and> wq_lst rt (19 + s) \<noteq> 0
      then bit_mem_wr (wq_lst rt (19 + s)) (ctz (wq_lst rt (19 + s))) False
      else wq_lst rt (19 + s))"
  using assms
  by (cases i)
    (auto simp: isr_defs wakeup_return_eq kernel_simps Let_def split: prod.split)

lemma sem_balance_isr:
  assumes "isr_ok i" "s < 8"
  shows "sem_balance (isr_run i rt) s = sem_balance rt s + of_nat (sem_posts s [i])"
proof (cases "i = SemPost (19 + s)")
  case True
  show ?thesis
  proof (cases "wq_lst rt (19 + s) = 0")
    case False
    then have "card (bitset (wq_lst rt (19 + s)))
        = Suc (card (bitset (bit_mem_wr (wq_lst rt (19 + s)) (ctz (wq_lst rt (19 + s))) False)))"
      using bitset_ctz [OF False] by (simp add: bitset_card_clear)
    then show ?thesis
      using True False sem_queue_isr [OF assms, of rt] sem_val_isr [OF assms(1), of rt]
      by (simp add: sem_balance_def del: isr_run.simps)
  qed (use True sem_queue_isr [OF assms, of rt] sem_val_isr [OF assms(1), of rt] in
      \<open>simp add: sem_balance_def del: isr_run.simps\<close>)
next
  case False
  then show ?thesis
    using assms sem_queue_isr [OF assms, of rt] sem_val_isr [OF assms(1), of rt]
    by (auto simp: sem_balance_def simp del: isr_run.simps split: isr.splits)
qed

lemma sem_balance_isrs:
  "list_all isr_ok is \<Longrightarrow> s < 8 \<Longrightarrow> sem_balance (isrs_run is rt) s = sem_balance rt s + of_nat (sem_posts s is)"
  by (induction "is" arbitrary: rt) (auto simp: sem_balance_isr)

lemma sem_balance_frame:
  "sem_balance (prep_ctx self st arg (suspend self rt)) s = sem_balance rt s"
  "sem_balance (wait_rollback self rt) s = sem_balance rt s"
  "sem_balance (defer_sched rt) s = sem_balance rt s"
  by (simp_all add: sem_balance_def prep_ctx_def wait_rollback_def kernel_simps)

lemma sem_balance_put:
  assumes "suspended rt self" "self < 8"
  shows "sem_balance (rt\<lparr>wq_lst := (wq_lst rt)(19 + s := bit_mem_wr (wq_lst rt (19 + s)) self True)\<rparr>) s
     = sem_balance rt s - 1"
proof -
  have "\<not> bit (wq_lst rt (19 + s)) self"
    using assms(1) by (simp add: suspended_def detached_def)
  then show ?thesis using assms(2) by (simp add: sem_balance_def bitset_card_put)
qed

text \<open>One pass of the waiting service.\<close>
abbreviation sem_log :: "nat \<Rightarrow> nat \<Rightarrow> u32 \<Rightarrow> irqs \<Rightarrow> thinkos_rt \<Rightarrow> isr list" where
  "sem_log s self arg \<equiv> once_isrs (sem_avail s) (prep_ctx self (2 * (19 + s)) arg) self"

lemma sem_balance_once:
  assumes "irqs_ok q" "s < 8" "self < 8" "runnable rt self"
    and "sem.once s self arg ms q rt = (again, rt')"
  shows "sem_balance rt' s + (if again then 0 else 1) = sem_balance rt s + of_nat (sem_posts s (sem_log s self arg q rt))"
proof (cases "sem_avail s rt")
  case True
  then show ?thesis
    using assms
    by (auto simp: wait_once_def once_isrs_def irqs_ok_def sem_balance_isrs split: if_splits)
      (simp add: sem_balance_def sem_take_def arg_ret_def mem_st_def)
next
  case False
  note ok = assms(1) [unfolded irqs_ok_def, simplified]
  define b where "b = isrs_run (i_susp q) (prep_ctx self (2 * (19 + s)) arg (suspend self (isrs_run (i_ld q) rt)))"
  define c where "c = isrs_run (i_chk q) b"
  have b: "sem_balance b s = sem_balance rt s + of_nat (sem_posts s (i_ld q) + sem_posts s (i_susp q))"
    using ok assms(2) by (simp add: b_def sem_balance_isrs sem_balance_frame)
  have c: "sem_balance c s = sem_balance b s + of_nat (sem_posts s (i_chk q))"
    using ok assms(2) by (simp add: c_def sem_balance_isrs)
  have "runnable (isrs_run (i_ld q) rt) self"
    using ok assms(3,4) by (auto intro: rely_runnable rely_isrs_run)
  then have "suspended (prep_ctx self (2 * (19 + s)) arg (suspend self (isrs_run (i_ld q) rt))) self"
    by (rule sem.runnable_suspend)
  then have sb: "suspended b self"
    unfolding b_def using ok assms(3) by (blast intro: rely_runnable rely_isrs_run)
  have bc: "i_chk q = [] \<Longrightarrow> c = b" by (simp add: c_def)
  show ?thesis
    using False assms(2,3,5) ok b c bc sem_balance_put [OF sb assms(3), of s]
    by (auto simp: wait_once_def wait_block_def once_isrs_def Let_def sem_balance_isrs sem_balance_frame
        split: if_splits simp flip: b_def [simplified] c_def)
qed

text \<open>The whole service.\<close>
lemma sem_balance_wait:
  assumes "list_all irqs_ok qs" "s < 8" "self < 8" "runnable rt self"
  shows "sem_balance (retry (sem.once s self arg ms) no_irqs qs rt) s =
     sem_balance rt s - 1 + of_nat (sem_posts s (wait_isrs (sem.once s self arg ms) (sem_log s self arg) qs rt))"
  using assms
proof (induction qs arbitrary: rt)
  case Nil
  have "irqs_ok no_irqs" "sem_posts s (sem_log s self arg no_irqs rt) = 0"
    by (simp_all add: irqs_ok_def no_irqs_def once_isrs_def)
  then show ?case
    using sem_balance_once [of no_irqs s self rt arg] sem.once_quiet [where x = s and self = self and rt = rt and arg = arg] Nil
    by (cases "sem.once s self arg ms no_irqs rt") (simp add: eq_diff_eq)
next
  case (Cons q qs)
  obtain again rt' where o: "sem.once s self arg ms q rt = (again, rt')"
    by (cases "sem.once s self arg ms q rt") auto
  have q: "irqs_ok q" "list_all irqs_ok qs" using Cons.prems by simp_all
  note bal = sem_balance_once [OF q(1) Cons.prems(2-4) o]
  show ?case
  proof (cases again)
    case True
    then have "runnable rt' self"
      using sem.once_outcome [OF q(1) Cons.prems(3,4) o] by simp
    then show ?thesis
      using Cons.IH [OF q(2) Cons.prems(2,3)] bal True o by simp
  next
    case False
    then show ?thesis using bal o by (simp add: eq_diff_eq diff_add_eq)
  qed
qed


section \<open>Properties\<close>

text \<open>No thread waits on a semaphore whose count is not zero.\<close>
definition sem_inv :: "thinkos_rt \<Rightarrow> bool" where
  "sem_inv rt \<longleftrightarrow> (\<forall>s<8. wq_lst rt (19 + s) \<noteq> 0 \<longrightarrow> sem_val rt s = 0)"

lemma sem_inv_served:
  "sem_inv rt \<longleftrightarrow> (\<forall>s<8. sem.served s rt)" "sem_inv rt \<longleftrightarrow> (\<forall>s<8. semt.served s rt)"
  by (auto simp: sem_inv_def sem.served_def semt.served_def sem_avail_def word_gt_0)

lemma sem_inv_ret [simp]: "sem_inv (arg_ret arg v rt) = sem_inv rt"
  by (simp add: sem_inv_def arg_ret_def mem_st_def)

text \<open>The interrupts that run during a call of \<open>sem_wait\<close> on semaphore \<open>s\<close>.\<close>
definition sem_wait_isrs :: "irqs list \<Rightarrow> u32 \<Rightarrow> nat \<Rightarrow> nat \<Rightarrow> thinkos_rt \<Rightarrow> isr list" where
  "sem_wait_isrs qs arg self s rt =
     wait_isrs (wait_once (sem_avail s) (sem_take s arg) (prep_ctx self (2 * (19 + s)) arg) (\<lambda>rt. rt) defer_sched (19 + s) self)
       (once_isrs (sem_avail s) (prep_ctx self (2 * (19 + s)) arg) self) qs rt"

text \<open>A service either rejects its argument or works on a valid semaphore.\<close>
lemma sem_valid_cases:
  obtains "8 \<le> mem rt arg - 19" | "\<not> 8 \<le> mem rt arg - 19" "\<not> bit (sem_alloc rt) (unat (mem rt arg - 19))"
    | s where "sem_valid rt arg s"
proof (cases "8 \<le> mem rt arg - 19 \<or> \<not> bit (sem_alloc rt) (unat (mem rt arg - 19))")
  case False
  then have "sem_valid rt arg (unat (mem rt arg - 19))"
    using obj_valid [of 8 "mem rt arg" 19] by (simp add: sem_valid_def)
  then show ?thesis using that(3) by blast
qed (use that in blast)

lemma sem_svc_invalid:
  assumes "8 \<le> mem rt arg - 19 \<or> \<not> bit (sem_alloc rt) (unat (mem rt arg - 19))"
  shows "sem_wait_svc qs arg self rt = arg_ret arg (- 3) rt"
    and "sem_timedwait_svc qs arg self rt = arg_ret arg (- 3) rt"
    and "sem_trywait_svc is arg self rt = arg_ret arg (- 3) rt"
    and "sem_post_svc arg self rt = arg_ret arg (- 3) rt"
    and "sem_init_svc arg self rt = arg_ret arg (- 3) rt"
  using assms by (auto simp: handler_defs arg_ld_def bit_mem_rd_def Let_def)


text \<open>
  C7. Waiting on a semaphore, with or without timeout, strands no post: whatever
  interrupts run at whatever point of the service, afterwards no thread waits on
  a semaphore with a positive count if none did before. This is about the queues and the counts,
  not about the return value of the timed call, which can be wrong.
\<close>
theorem sem_wait_no_stranded_post:
  assumes "list_all irqs_ok qs" "sem_inv rt"
  shows "sem_inv (sem_wait_svc qs arg self rt) \<and> sem_inv (sem_timedwait_svc qs arg self rt)"
proof (cases rule: sem_valid_cases [of rt arg])
  case (3 s)
  then show ?thesis
    using assms sem.served_wait [of qs] semt.served_wait [of qs]
    by (simp add: sem_wait_valid sem_timedwait_valid) (simp add: sem_inv_served)
qed (use assms in \<open>simp_all add: sem_svc_invalid\<close>)

text \<open>A state with thread 3 running, semaphore 0 allocated and empty, and its descriptor at the frame.\<close>
definition sem_example :: thinkos_rt where
  "sem_example = rt_clear\<lparr>wq_lst := (\<lambda>_. 0)(0 := 0x108), irq_th := (\<lambda>_. 8), active := 3,
     sem_alloc := 1, mem := (\<lambda>_. 0)(0x1000 := 19, 0x1004 := 5)\<rparr>"

theorem sem_wait_no_stranded_post_witness:
  "sem_inv (sem_wait_svc [no_irqs\<lparr>i_susp := [SemPost 19]\<rparr>] 0x1000 3 sem_example)"
  using sem_wait_no_stranded_post [of "[no_irqs\<lparr>i_susp := [SemPost 19]\<rparr>]" sem_example "0x1000" 3]
  by (simp add: irqs_ok_def no_irqs_def sem_inv_def sem_example_def rt_clear_def)

text \<open>
  C8. Tokens are neither lost nor duplicated: a successful call takes exactly one
  token (from the count, or as one more waiting thread), and every post by an
  interrupt that ran meanwhile adds exactly one.
\<close>
theorem sem_wait_tokens:
  assumes "list_all irqs_ok qs" "sem_valid rt arg s" "self < 8" "runnable rt self"
  shows "sem_balance (sem_wait_svc qs arg self rt) s = sem_balance rt s - 1
     + of_nat (sem_posts s (sem_wait_isrs qs arg self s rt))"
proof -
  have "s < 8" using assms(2) by (simp add: sem_valid_def)
  then show ?thesis
    using sem_balance_wait [OF assms(1) _ assms(3,4), of s arg] assms(2)
    by (simp add: sem_wait_valid sem_wait_isrs_def)
qed

lemma sem_example_runnable: "runnable sem_example 3"
  by (simp add: runnable_def detached_def sem_example_def rt_clear_def bit_numeral_rec)

theorem sem_wait_tokens_witness:
  "sem_balance (sem_wait_svc [] 0x1000 3 sem_example) 0 = - 1"
  using sem_wait_tokens [of "[]" sem_example "0x1000" 0 3] sem_example_runnable
  by (simp add: sem_valid_def sem_wait_isrs_def sem_example_def rt_clear_def sem_balance_def bitset_def)



text \<open>
  A post to a semaphore with waiting threads makes the lowest numbered of
  them ready with return value 0, takes it out of the queue and of the clock
  queue, and leaves the count alone; with no thread waiting it adds one.
\<close>
lemma sem_post_hands_over:
  fixes self :: nat
  assumes "sem_valid rt arg s"
  defines "rt' \<equiv> sem_post_svc arg self rt"
  shows "if wq_lst rt (19 + s) = 0
    then rt' = rt\<lparr>mem := (mem rt)(arg := 0), sem_val := (sem_val rt)(s := sem_val rt s + 1), pendsv := True\<rparr>
    else let th = Min (bitset (wq_lst rt (19 + s))) in
      sem_val rt' = sem_val rt
      \<and> bitset (wq_lst rt' (19 + s)) = bitset (wq_lst rt (19 + s)) - {th}
      \<and> bitset (wq_ready rt') = insert th (bitset (wq_ready rt))
      \<and> \<not> bit (wq_clock rt') th \<and> th_stat rt' th = 0 \<and> pendsv rt'
      \<and> (ctx rt th \<noteq> 0 \<longrightarrow> mem rt' (ctx rt th + 32) = 0)"
proof -
  have eq: "rt' = defer_sched (sem_post_i (19 + s) (arg_ret arg 0 rt))"
    using sem_checks [OF assms(1)] by (simp add: rt'_def sem_post_svc_def arg_ld_def bit_mem_rd_def Let_def)
  show ?thesis
  proof (cases "wq_lst rt (19 + s) = 0")
    case False
    then have "ctz (wq_lst rt (19 + s)) < 32" by (simp add: ctz_less_32)
    then show ?thesis
      using False
      by (simp add: eq sem_post_i_eq wakeup_return_eq kernel_simps Let_def bitset_put bitset_clear
          flip: bitset_ctz_min)
  qed (simp add: eq sem_post_i_eq kernel_simps)
qed

text \<open>
  C10. The timed wait can lose a post: when it arrives after the caller was queued and before the
  service stored the return value, the interrupt hands the token over with return
  value 0, and then the service overwrites that value with \<open>THINKOS_ETIMEDOUT\<close>. The caller is
  ready, the token is gone, and the call reports a timeout. If the post came before the clock was armed
  the ready thread is in the clock queue besides.
\<close>
theorem sem_timedwait_race:
  assumes "sem_valid rt arg s" "self < 8" "runnable rt self" "sem_val rt s = 0" "wq_lst rt (19 + s) = 0"
  shows "(let rt' = sem_timedwait_svc [no_irqs\<lparr>i_tail := [SemPost (19 + s)]\<rparr>] arg self rt in
      bit (wq_ready rt') self \<and> sem_val rt' s = 0 \<and> wq_lst rt' (19 + s) = 0
      \<and> mem rt' arg = THINKOS_ETIMEDOUT \<and> bit (wq_clock rt') self)
    \<and> (let rt' = sem_timedwait_svc [no_irqs\<lparr>i_ret := [SemPost (19 + s)]\<rparr>] arg self rt in
      bit (wq_ready rt') self \<and> sem_val rt' s = 0 \<and> wq_lst rt' (19 + s) = 0
      \<and> mem rt' arg = THINKOS_ETIMEDOUT \<and> \<not> bit (wq_clock rt') self)"
proof -
  have c: "ctz (bit_mem_wr 0 self True) = self"
    using assms(2) by (intro ctz_unique) auto
  have s: "s < 8" using assms(1) by (simp add: sem_valid_def)
  have nz: "bit_mem_wr 0 self True \<noteq> 0"
    using c assms(2) by (metis ctz_0 less_irrefl_nat less_trans numeral_less_iff semiring_norm(76,78,81))
  show ?thesis
    using assms(2-5) s c nz
    by (simp add: sem_timedwait_valid [OF assms(1)] no_irqs_def wait_once_def wait_block_def sem_avail_def
        prep_ctx_def arm_clock_def tail_timed_def cm3_except7_isr_def sem_post_i_eq wakeup_return_eq kernel_simps Let_def)
qed

theorem sem_timedwait_race_witness:
  "mem (sem_timedwait_svc [no_irqs\<lparr>i_tail := [SemPost 19]\<rparr>] 0x1000 3 sem_example) 0x1000 = - 1"
  using sem_timedwait_race [of sem_example "0x1000" 0 3] sem_example_runnable
  by (simp add: sem_valid_def Let_def) (simp add: sem_example_def rt_clear_def)

end
