(* ===== verification/Sched.thy ===== *)
theory Sched
  imports Wait
begin

text \<open>
  The scheduler, the tick and the services that wait for time
  (\<open>thinkos_core.c\<close>, \<open>thinkos_sleep.c\<close>). PendSV saves the callee saved registers
  below the exception frame of the running thread and switches to the lowest
  numbered ready thread. The tick wakes the threads whose time has come and
  charges the running thread for its time slice.
\<close>

section \<open>Context switch\<close>

text \<open>Storing and loading a block of consecutive words (\<open>STMDB\<close>, \<open>LDMIA\<close>, \<open>__thinkos_memset32\<close>).\<close>
primrec mem_fill :: "u32 \<Rightarrow> u32 list \<Rightarrow> (u32 \<Rightarrow> u32) \<Rightarrow> u32 \<Rightarrow> u32" where
  "mem_fill a [] m = m"
| "mem_fill a (v # vs) m = mem_fill (a + 4) vs (m(a := v))"

definition mem_words :: "u32 \<Rightarrow> nat \<Rightarrow> (u32 \<Rightarrow> u32) \<Rightarrow> u32 list" where
  "mem_words a n m = map (\<lambda>i. m (a + 4 * of_nat i)) [0..<n]"

text \<open>The registers r4 to r11.\<close>
definition saved_regs :: "thinkos_rt \<Rightarrow> u32 list" where
  "saved_regs rt = map (\<lambda>i. regs rt (4 + i)) [0..<8]"

definition sched_entry :: "thinkos_rt \<Rightarrow> u32 \<times> thinkos_rt" where
  "sched_entry rt = (let c = psp rt - 32 in (c, rt\<lparr>mem := mem_fill c (saved_regs rt) (mem rt)\<rparr>))"

definition sched_exit :: "u32 \<Rightarrow> thinkos_rt \<Rightarrow> thinkos_rt" where
  "sched_exit c rt =
     rt\<lparr>psp := c + 32,
        regs := (\<lambda>r. if 4 \<le> r \<and> r < 12 then mem_words c 8 (mem rt) ! (r - 4) else regs rt r)\<rparr>"

text \<open>\<open>cm3_pendsv_isr\<close>; taking the exception clears its pending state.\<close>
definition cm3_pendsv_isr :: "thinkos_rt \<Rightarrow> thinkos_rt" where
  "cm3_pendsv_isr rt0 =
     (let (old_ctx, rt) = sched_entry (rt0\<lparr>pendsv := False\<rparr>);
          old_thread_id = active rt;
          new_thread_id = clz (rbit (wq_ready rt));
          rt = rt\<lparr>active := new_thread_id\<rparr>;
          rt = rt\<lparr>ctx := (ctx rt)(old_thread_id := old_ctx),
                   wild := (wild rt \<or> THINKOS_THREAD_VOID < old_thread_id \<or> THINKOS_THREAD_VOID < new_thread_id)\<rparr>;
          new_ctx = ctx rt new_thread_id
      in sched_exit new_ctx rt)"

section \<open>Time\<close>

definition time_wakeup :: "nat \<Rightarrow> thinkos_rt \<Rightarrow> thinkos_rt" where
  "time_wakeup thread_id rt =
     (let stat = th_stat rt thread_id;
          rt = th_stat_st thread_id 0 rt;
          rt = wq_bit (stat div 2) thread_id False rt;
          rt = wq_bit THINKOS_WQ_CLOCK thread_id False rt;
          rt = wq_bit THINKOS_WQ_READY thread_id True rt
      in preempt rt)"

text \<open>
  \<open>thinkos_timeshare\<close>. The value and priority arrays have a slot for the idle
  thread; an index beyond it (the void thread) leaves them.
\<close>
definition timeshare :: "thinkos_rt \<Rightarrow> thinkos_rt" where
  "timeshare rt =
     (let idx = active rt in
      if THINKOS_THREAD_IDLE < idx then rt\<lparr>wild := True\<rparr>
      else
        let rt = rt\<lparr>sched_val := (sched_val rt)(idx := sched_val rt idx - sched_pri rt idx)\<rparr> in
        if sint (sched_val rt idx) < 0
        then
          let rt = rt\<lparr>sched_val := (sched_val rt)(idx := sched_val rt idx + ucast (sched_limit rt))\<rparr> in
          if \<not> bit_mem_rd (wq_ready rt) idx then rt
          else
            let rt = wq_bit THINKOS_WQ_TMSHARE idx True rt;
                rt = suspend idx rt
            in preempt rt
        else rt)"

lemma clz_clear_top:
  assumes "clz w < 32"
  shows "w AND NOT (drop_bit (clz w) 0x80000000) = bit_mem_wr w (31 - clz w) False"
proof -
  have "(0x80000000 :: u32) = push_bit 31 1" by simp
  moreover have "bit (drop_bit (clz w) (push_bit 31 1 :: u32)) n \<longleftrightarrow> n = 31 - clz w" for n
    using assms by (auto simp: bit_drop_bit_eq bit_push_bit_iff bit_1_iff simp del: push_bit_of_1 push_bit_numeral)
  ultimately show ?thesis
    by (intro bit_word_eqI) (auto simp: bit_and_iff bit_not_iff simp del: push_bit_of_1 push_bit_numeral)
qed

lemma clz_top_bit: "clz w < 32 \<Longrightarrow> bit w (31 - clz w)"
  using clz_scan_bit [of 32 w] by (simp add: clz_def)

text \<open>The loop of \<open>cm3_systick_isr\<close> over the reversed clock queue.\<close>
function systick_loop :: "u32 \<Rightarrow> u32 \<Rightarrow> thinkos_rt \<Rightarrow> thinkos_rt" where
  "systick_loop wq tk rt =
     (let j = clz wq in
      if j < 32
      then systick_loop (wq AND NOT (drop_bit j 0x80000000)) tk
             (if sint (clock rt j - tk) \<le> 0 then time_wakeup j rt else rt)
      else rt)"
  by auto
termination
proof (relation "measure (\<lambda>(wq, _). card (bitset wq))")
  fix wq tk rt and j :: nat
  assume j: "j = clz wq" "j < 32"
  have "card (bitset wq - {31 - j}) < card (bitset wq)"
    using clz_top_bit [of wq] j card_Diff1_less [of "bitset wq" "31 - j"] by simp
  then show "((wq AND NOT (drop_bit j 0x80000000), tk, if sint (clock rt j - tk) \<le> 0 then time_wakeup j rt else rt), wq, tk, rt)
      \<in> measure (\<lambda>(wq, _). card (bitset wq))"
    using j clz_clear_top [of wq] by (simp add: bitset_clear)
qed simp

declare systick_loop.simps [simp del]

definition cm3_systick_isr :: "thinkos_rt \<Rightarrow> thinkos_rt" where
  "cm3_systick_isr rt =
     (let tk = ticks rt + 1;
          rt = rt\<lparr>ticks := tk\<rparr>;
          rt = systick_loop (rbit (wq_clock rt)) tk rt
      in timeshare rt)"

definition sleep_svc :: svc_handler where
  "sleep_svc arg self rt =
     (let ms = arg_ld rt arg 0;
          rt = rt\<lparr>clock := (clock rt)(self := ticks rt + ms)\<rparr>;
          rt = wq_bit THINKOS_WQ_CLOCK self True rt;
          rt = th_stat_st self (2 * THINKOS_WQ_CLOCK + 1) rt;
          rt = suspend self rt
      in defer_sched rt)"

definition alarm_svc :: svc_handler where
  "alarm_svc arg self rt =
     (let ms = arg_ld rt arg 0;
          rt = rt\<lparr>clock := (clock rt)(self := ms)\<rparr>;
          rt = wq_bit THINKOS_WQ_CLOCK self True rt;
          rt = th_stat_st self (2 * THINKOS_WQ_CLOCK + 1) rt;
          rt = suspend self rt
      in defer_sched rt)"

declare sleep_svc_def [handler_defs] alarm_svc_def [handler_defs]

section \<open>The context switch\<close>

lemma mem_fill_outside:
  "(\<forall>i<length vs. x \<noteq> a + 4 * of_nat i) \<Longrightarrow> mem_fill a vs m x = m x"
proof (induction vs arbitrary: a m)
  case (Cons v vs)
  have "x \<noteq> a" using Cons.prems by force
  moreover have "\<forall>i<length vs. x \<noteq> a + 4 + 4 * of_nat i"
    using Cons.prems by (auto simp: algebra_simps dest: spec [of _ "Suc _"])
  ultimately show ?case using Cons.IH by simp
qed simp

lemma word_block_distinct: "0 < i \<Longrightarrow> i < 2 ^ 30 \<Longrightarrow> (a :: u32) + 4 * of_nat i \<noteq> a"
proof
  assume i: "0 < i" "i < 2 ^ 30" and "a + 4 * of_nat i = a"
  then have "(of_nat (4 * i) :: u32) = 0" by simp
  then have "unat (of_nat (4 * i) :: u32) = 0" by simp
  then show False using i by (simp only: unat_of_nat) simp
qed

lemma mem_fill_words:
  assumes "length vs < 2 ^ 30"
  shows "mem_words a (length vs) (mem_fill a vs m) = vs"
  using assms
proof (induction vs arbitrary: a m)
  case (Cons v vs)
  have "mem_fill (a + 4) vs (m(a := v)) a = v"
  proof (subst mem_fill_outside)
    have "a \<noteq> a + 4 * of_nat (Suc i)" if "i < length vs" for i
      using word_block_distinct [of "Suc i" a] that Cons.prems by auto
    then show "\<forall>i<length vs. a \<noteq> a + 4 + 4 * of_nat i" by (simp add: algebra_simps)
  qed simp
  moreover have "mem_words (a + 4) (length vs) (mem_fill (a + 4) vs (m(a := v))) = vs"
    using Cons by simp
  ultimately show ?case
    by (simp add: mem_words_def upt_conv_Cons map_Suc_upt [symmetric] o_def algebra_simps del: upt_Suc)
qed (simp add: mem_words_def)


lemma sched_entry_words: "mem_words (psp rt - 32) 8 (mem_fill (psp rt - 32) (saved_regs rt) m) = saved_regs rt"
  using mem_fill_words [of "saved_regs rt" "psp rt - 32" m] by (simp add: saved_regs_def)

lemma pendsv_fields:
  assumes "rt' = cm3_pendsv_isr rt"
  shows "active rt' = ctz (wq_ready rt)" "\<not> pendsv rt'" "wq_lst rt' = wq_lst rt" "th_stat rt' = th_stat rt"
    "ctx rt' = (ctx rt)(active rt := psp rt - 32)" "mem rt' = mem_fill (psp rt - 32) (saved_regs rt) (mem rt)"
    "psp rt' = ctx rt' (active rt') + 32" "clock rt' = clock rt" "ticks rt' = ticks rt"
    "\<And>i. i < 8 \<Longrightarrow> regs rt' (4 + i) = mem rt' (ctx rt' (active rt') + 4 * of_nat i)"
  unfolding assms
  by (simp_all add: cm3_pendsv_isr_def sched_entry_def sched_exit_def Let_def clz_rbit saved_regs_def mem_words_def)

section \<open>The tick\<close>

text \<open>Thread \<open>th\<close> is due at time \<open>tk\<close>; the subtraction is signed, as in the code.\<close>
definition due :: "thinkos_rt \<Rightarrow> u32 \<Rightarrow> nat \<Rightarrow> bool" where
  "due rt tk th \<longleftrightarrow> sint (clock rt th - tk) \<le> 0"

lemma time_wakeup_bits:
  "bit (wq_lst (time_wakeup th rt) w) t \<longleftrightarrow>
     (if w = 0 then t < 32 \<and> t = th \<or> (t \<noteq> th \<and> bit (wq_ready rt) t)
      else bit (wq_lst rt w) t \<and> \<not> (t = th \<and> (w = 2 \<or> w = th_stat rt th div 2)))"
  by (auto simp: time_wakeup_def kernel_simps Let_def)

lemma time_wakeup_fields [simp]:
  "clock (time_wakeup th rt) = clock rt" "ticks (time_wakeup th rt) = ticks rt"
  "th_stat (time_wakeup th rt) = (th_stat rt)(th := 0)" "active (time_wakeup th rt) = active rt"
  "sched_val (time_wakeup th rt) = sched_val rt" "sched_pri (time_wakeup th rt) = sched_pri rt"
  "sched_limit (time_wakeup th rt) = sched_limit rt" "mem (time_wakeup th rt) = mem rt"
  "ctx (time_wakeup th rt) = ctx rt" "irq_th (time_wakeup th rt) = irq_th rt"
  by (simp_all add: time_wakeup_def kernel_simps Let_def)

text \<open>What the loop has done when it ends: \<open>W\<close> is the set of threads it still has to look at.\<close>
definition ticked :: "(nat \<Rightarrow> bool) \<Rightarrow> thinkos_rt \<Rightarrow> thinkos_rt \<Rightarrow> bool" where
  "ticked W rt rt' \<longleftrightarrow>
     (\<forall>w t. bit (wq_lst rt' w) t \<longleftrightarrow>
       (if w = 0 then W t \<or> bit (wq_ready rt) t
        else bit (wq_lst rt w) t \<and> \<not> (W t \<and> (w = 2 \<or> w = th_stat rt t div 2))))
   \<and> (\<forall>t. th_stat rt' t = (if W t then 0 else th_stat rt t))
   \<and> clock rt' = clock rt \<and> ticks rt' = ticks rt \<and> active rt' = active rt \<and> sched_val rt' = sched_val rt
   \<and> sched_pri rt' = sched_pri rt \<and> sched_limit rt' = sched_limit rt \<and> mem rt' = mem rt \<and> ctx rt' = ctx rt
   \<and> irq_th rt' = irq_th rt"

lemma ticked_none: "ticked (\<lambda>_. False) rt rt"
  by (simp add: ticked_def)

lemma ticked_step:
  assumes "ticked W (time_wakeup th rt) rt'" "\<not> W th" "th < 32"
  shows "ticked (\<lambda>t. t = th \<or> W t) rt rt'"
  using assms unfolding ticked_def by (auto simp: time_wakeup_bits)

lemma rbit_clear: "n < 32 \<Longrightarrow> bit (rbit (bit_mem_wr w (31 - n) False)) t \<longleftrightarrow> bit (rbit w) t \<and> t \<noteq> n"
  by (auto simp: rbit_bit)

lemma systick_loop_spec:
  "ticked (\<lambda>t. bit (rbit wq) t \<and> due rt tk t) rt (systick_loop wq tk rt)"
proof (induction wq tk rt rule: systick_loop.induct)
  case (1 wq tk rt)
  let ?j = "clz wq"
  note unfold = systick_loop.simps [of wq tk rt]
  show ?case
  proof (cases "?j < 32")
    case True
    let ?wq = "bit_mem_wr wq (31 - ?j) False"
    let ?rt = "if due rt tk ?j then time_wakeup ?j rt else rt"
    have eq: "systick_loop wq tk rt = systick_loop ?wq tk ?rt"
      using True clz_clear_top [OF True] by (simp add: unfold Let_def due_def)
    have IH: "ticked (\<lambda>t. bit (rbit ?wq) t \<and> due ?rt tk t) ?rt (systick_loop ?wq tk ?rt)"
      using "1.IH" [OF refl True] clz_clear_top [OF True] by (simp add: due_def)
    have d: "due ?rt tk t = due rt tk t" for t by (simp add: due_def)
    have top: "bit (rbit wq) ?j" using True clz_top_bit [of wq] by (simp add: rbit_bit)
    show ?thesis
    proof (cases "due rt tk ?j")
      case due: True
      have "(\<lambda>t. t = ?j \<or> (bit (rbit ?wq) t \<and> due ?rt tk t)) = (\<lambda>t. bit (rbit wq) t \<and> due rt tk t)"
        using due top True unfolding d by (auto simp: rbit_clear fun_eq_iff)
      moreover have "ticked (\<lambda>t. t = ?j \<or> (bit (rbit ?wq) t \<and> due ?rt tk t)) rt (systick_loop wq tk rt)"
        unfolding eq by (rule ticked_step) (use IH True due in \<open>simp_all add: rbit_clear\<close>)
      ultimately show ?thesis by simp
    next
      case False
      have "(\<lambda>t. bit (rbit ?wq) t \<and> due ?rt tk t) = (\<lambda>t. bit (rbit wq) t \<and> due rt tk t)"
        using False True unfolding d by (auto simp: rbit_clear fun_eq_iff)
      then show ?thesis using IH False unfolding eq by simp
    qed
  next
    case False
    have "\<not> bit (rbit wq) t" for t
    proof -
      have "clz_scan 32 wq = 32" using False clz_scan_le [of 32 wq] by (simp add: clz_def)
      then have "\<forall>m<32. \<not> bit wq m" by (simp only: clz_scan_full)
      then show ?thesis by (auto simp: rbit_bit)
    qed
    then show ?thesis using False by (simp add: unfold ticked_none)
  qed
qed

lemma rbit_rbit [simp]: "rbit (rbit w) = w"
  by (rule bit_word_eqI) (auto simp: rbit_bit)

text \<open>The state between the loop and the time sharing.\<close>
definition tick_wake :: "thinkos_rt \<Rightarrow> thinkos_rt" where
  "tick_wake rt = systick_loop (rbit (wq_clock rt)) (ticks rt + 1) (rt\<lparr>ticks := ticks rt + 1\<rparr>)"

definition expires :: "thinkos_rt \<Rightarrow> nat \<Rightarrow> bool" where
  "expires rt th \<longleftrightarrow> bit (wq_clock rt) th \<and> due rt (ticks rt + 1) th"

lemma systick_eq: "cm3_systick_isr rt = timeshare (tick_wake rt)"
  by (simp add: cm3_systick_isr_def tick_wake_def Let_def)

lemma tick_wake_spec: "ticked (expires rt) (rt\<lparr>ticks := ticks rt + 1\<rparr>) (tick_wake rt)"
  using systick_loop_spec [of "rbit (wq_clock rt)" "rt\<lparr>ticks := ticks rt + 1\<rparr>" "ticks rt + 1"]
  by (simp add: tick_wake_def expires_def [abs_def] due_def)

lemma timeshare_other:
  assumes "t \<noteq> active rt" "\<not> bit (wq_tmshare rt) t"
  shows "bit (wq_lst (timeshare rt) w) t = bit (wq_lst rt w) t"
  using assms
  by (auto simp: timeshare_def kernel_simps Let_def suspend_wq_bits bit_mem_rd_def collects_def)

lemma timeshare_fields [simp]:
  "clock (timeshare rt) = clock rt" "ticks (timeshare rt) = ticks rt" "th_stat (timeshare rt) = th_stat rt"
  "active (timeshare rt) = active rt" "sched_pri (timeshare rt) = sched_pri rt"
  "sched_limit (timeshare rt) = sched_limit rt" "mem (timeshare rt) = mem rt" "ctx (timeshare rt) = ctx rt"
  "irq_th (timeshare rt) = irq_th rt"
  by (auto simp: timeshare_def kernel_simps Let_def)

text \<open>Schedule values are small: the 8-bit arithmetic does not wrap.\<close>
definition slice_ok :: "thinkos_rt \<Rightarrow> nat \<Rightarrow> bool" where
  "slice_ok rt th \<longleftrightarrow> 0 \<le> sint (sched_val rt th) \<and> sint (sched_val rt th) \<le> uint (sched_limit rt)
     \<and> uint (sched_pri rt th) \<le> uint (sched_limit rt)"

definition slice_end :: "thinkos_rt \<Rightarrow> bool" where
  "slice_end rt \<longleftrightarrow> sint (sched_val rt (active rt) - sched_pri rt (active rt)) < 0"

lemma sint_small: "-128 \<le> sint x + y \<Longrightarrow> sint x + y < 128 \<Longrightarrow> sint (x + of_int y :: u8) = sint x + y"
proof -
  assume "-128 \<le> sint x + y" "sint x + y < 128"
  then have "signed_take_bit 7 (sint x + y) = sint x + y"
    by (simp add: signed_take_bit_int_eq_self_iff)
  moreover have "x + of_int y = of_int (sint x + y)" by simp
  ultimately show ?thesis by (simp only: sint_sbintrunc') simp
qed

lemma sched_val_sub:
  "0 \<le> sint v \<Longrightarrow> uint p \<le> 32 \<Longrightarrow> sint (v - p :: u8) = sint v - uint p"
proof -
  assume a: "0 \<le> sint v" "uint p \<le> 32"
  have "0 \<le> uint p" "sint v < 128" using sint_lt [of v] by simp_all
  then have "sint v - uint p < 128" by linarith
  then show ?thesis using sint_small [of v "- uint p"] a by simp
qed

lemma sched_val_add:
  "- 32 \<le> sint v \<Longrightarrow> sint v < 0 \<Longrightarrow> uint l \<le> 32 \<Longrightarrow> sint (v + ucast (l :: u32) :: u8) = sint v + uint l"
  using sint_small [of v "uint l"] uint_ge_0 [of l] by (simp add: unsigned_ucast_eq)


section \<open>Properties\<close>

text \<open>
  C22. The scheduler always finds a thread: with the idle thread in the ready
  queue, PendSV makes the lowest numbered ready thread the active one, loads its
  saved context, saves the context of the old one, and leaves every queue and
  status word alone.
\<close>
theorem pendsv_picks_lowest:
  assumes "bit (wq_ready rt) THINKOS_THREAD_IDLE"
  defines "rt' \<equiv> cm3_pendsv_isr rt"
  shows "active rt' = Min (bitset (wq_ready rt)) \<and> active rt' \<le> THINKOS_THREAD_IDLE
    \<and> bit (wq_ready rt') (active rt') \<and> \<not> pendsv rt' \<and> wq_lst rt' = wq_lst rt \<and> th_stat rt' = th_stat rt
    \<and> ctx rt' (active rt) = psp rt - 32 \<and> psp rt' = ctx rt' (active rt') + 32
    \<and> (\<forall>th. th \<noteq> active rt \<longrightarrow> ctx rt' th = ctx rt th)"
proof -
  have nz: "wq_ready rt \<noteq> 0" using assms(1) by auto
  note f = pendsv_fields [OF refl, where rt = rt, folded rt'_def]
  have "ctz (wq_ready rt) \<le> 8" using ctz_le_bit assms(1) by simp
  then show ?thesis
    using bitset_ctz [OF nz] by (simp add: f bitset_ctz_min [OF nz, symmetric])
qed

definition sched_example :: thinkos_rt where
  "sched_example = rt_clear\<lparr>wq_lst := (\<lambda>_. 0)(0 := 0x124, 1 := 0x41, 2 := 8), irq_th := (\<lambda>_. 8), active := 5, th_stat := (\<lambda>_. 0)(3 := 5), sched_limit := 32,
     sched_val := (\<lambda>_. 1), sched_pri := (\<lambda>_. 4)(8 := 0), psp := 0x2000, regs := of_nat, ctx := (\<lambda>t. 0x3000 + 0x100 * of_nat t),
     ticks := 0xffffffff, mem := (\<lambda>_. 3)\<rparr>"

lemma bitset_examples: "bitset 0x124 = {2, 5, 8}" "bitset 0x41 = {0, 6}" "bitset 0x104 = {2, 8}"
  by code_simp+

theorem pendsv_picks_lowest_witness:
  "active (cm3_pendsv_isr sched_example) = 2"
proof -
  have "bit (wq_ready sched_example) 8" "bitset (wq_ready sched_example) = {2, 5, 8}"
    using bitset_examples by (simp_all add: sched_example_def flip: bitset_iff)
  then show ?thesis using pendsv_picks_lowest [of sched_example] by simp
qed

text \<open>
  C23. A context switch is transparent: when a thread that was switched out is
  scheduled again, and meanwhile nobody has written to its context or its
  context pointer, it continues with the stack pointer and the callee saved
  registers it had.
\<close>
theorem context_switch_round_trip:
  assumes t: "t = active rt" and out: "rt1 = cm3_pendsv_isr rt"
    and kept: "ctx rt2 t = ctx rt1 t" "\<And>i. i < 8 \<Longrightarrow> mem rt2 (ctx rt1 t + 4 * of_nat i) = mem rt1 (ctx rt1 t + 4 * of_nat i)"
    and other: "active rt2 \<noteq> t" "\<And>i j. i < 8 \<Longrightarrow> j < 8 \<Longrightarrow> psp rt2 - 32 + 4 * of_nat i \<noteq> ctx rt1 t + 4 * of_nat j"
    and sched: "wq_ready rt2 \<noteq> 0" "t = Min (bitset (wq_ready rt2))"
  shows "active (cm3_pendsv_isr rt2) = t \<and> psp (cm3_pendsv_isr rt2) = psp rt
    \<and> (\<forall>i<8. regs (cm3_pendsv_isr rt2) (4 + i) = regs rt (4 + i))"
proof -
  note o = pendsv_fields [OF out]
  note b = pendsv_fields [OF refl, where rt = rt2]
  have act: "active (cm3_pendsv_isr rt2) = t"
    using sched by (simp add: b(1) bitset_ctz_min)
  have c1: "ctx rt1 t = psp rt - 32" by (simp add: o(5) t)
  have c: "ctx (cm3_pendsv_isr rt2) t = psp rt - 32"
    using kept(1) other(1) c1 by (simp add: b(5))
  have m: "mem (cm3_pendsv_isr rt2) (psp rt - 32 + 4 * of_nat i) = regs rt (4 + i)" if i: "i < 8" for i
  proof -
    have "mem (cm3_pendsv_isr rt2) (psp rt - 32 + 4 * of_nat i) = mem rt2 (psp rt - 32 + 4 * of_nat i)"
      unfolding b(6) using other(2) i c1 by (intro mem_fill_outside) (force simp: saved_regs_def)
    also have "\<dots> = mem_words (psp rt - 32) 8 (mem rt1) ! i"
      using kept(2) [OF i] i c1 by (simp add: mem_words_def)
    also have "\<dots> = regs rt (4 + i)"
      using i by (simp add: o(6) sched_entry_words) (simp add: saved_regs_def)
    finally show ?thesis .
  qed
  show ?thesis
    using act c m b(7,10) by (simp add: add.commute [of _ 4])
qed

definition switched_example :: thinkos_rt where
  "switched_example = (cm3_pendsv_isr sched_example)\<lparr>wq_lst := (\<lambda>_. 0)(0 := 0x120), psp := 0x8000\<rparr>"

theorem context_switch_round_trip_witness:
  "active (cm3_pendsv_isr switched_example) = 5 \<and> psp (cm3_pendsv_isr switched_example) = 0x2000"
proof -
  let ?rt = "cm3_pendsv_isr sched_example"
  have f: "ctx switched_example = ctx ?rt" "mem switched_example = mem ?rt" "active switched_example = active ?rt"
    "wq_ready switched_example = 0x120" "psp switched_example = 0x8000"
    by (simp_all add: switched_example_def)
  have e: "active sched_example = 5" "psp sched_example = 0x2000" "wq_ready sched_example = 0x124"
    by (simp_all add: sched_example_def)
  have c: "ctx ?rt 5 = 0x1fe0" by (simp add: pendsv_fields(5) [OF refl] e)
  have "ctz 0x124 = 2" by code_simp
  then have a: "active ?rt = 2" by (simp add: pendsv_fields(1) [OF refl] e)
  have m: "5 = Min (bitset 0x120)"
  proof -
    have "bitset 0x120 = {5, 8}" by code_simp
    then show ?thesis by simp
  qed
  have d: "psp switched_example - 32 + 4 * of_nat i \<noteq> ctx ?rt 5 + 4 * of_nat j" if "i < 8" "j < 8" for i j
  proof -
    have "\<forall>i\<in>set [0..<8]. \<forall>j\<in>set [0..<8]. 0x7fe0 + 4 * of_nat i \<noteq> 0x1fe0 + 4 * (of_nat j :: u32)"
      by code_simp
    then show ?thesis using that by (simp add: c f)
  qed
  have "active (cm3_pendsv_isr switched_example) = 5 \<and> psp (cm3_pendsv_isr switched_example) = psp sched_example
    \<and> (\<forall>i<8. regs (cm3_pendsv_isr switched_example) (4 + i) = regs sched_example (4 + i))"
    by (rule context_switch_round_trip [OF _ refl _ _ _ d]) (simp_all add: e f a m [symmetric])
  then show ?thesis unfolding e by blast
qed


text \<open>
  C24. The tick wakes exactly the threads whose time has come, by a signed
  comparison that is right across the wrap-around of the tick counter: they
  leave the clock queue and the queue named by their status word and become
  ready, and the status word is cleared; every other thread keeps its place in
  all queues, up to the rotation of the active thread by time sharing.
\<close>
theorem systick_wakes_expired:
  fixes rt :: thinkos_rt
  defines "rt' \<equiv> cm3_systick_isr rt"
  shows "ticks rt' = ticks rt + 1
    \<and> (\<forall>th. bit (wq_clock rt') th \<longleftrightarrow> bit (wq_clock rt) th \<and> \<not> expires rt th)
    \<and> (\<forall>th w. 3 \<le> w \<longrightarrow> bit (wq_lst rt' w) th \<longleftrightarrow> bit (wq_lst rt w) th \<and> \<not> (expires rt th \<and> w = th_stat rt th div 2))
    \<and> (\<forall>th. th_stat rt' th = (if expires rt th then 0 else th_stat rt th))
    \<and> (\<forall>th. th \<noteq> active rt \<longrightarrow> \<not> bit (wq_tmshare rt) th \<longrightarrow>
          (bit (wq_ready rt') th \<longleftrightarrow> expires rt th \<or> bit (wq_ready rt) th))"
proof -
  note t = tick_wake_spec [of rt, unfolded ticked_def, simplified]
  have q: "wq_lst (timeshare s) w = wq_lst s w" if "2 \<le> w" for s w
    using that by (auto simp: timeshare_def kernel_simps Let_def)
  have tm: "\<not> bit (wq_tmshare rt) th \<Longrightarrow> \<not> bit (wq_tmshare (tick_wake rt)) th" for th
    using t by auto
  have "bit (wq_ready rt') th \<longleftrightarrow> expires rt th \<or> bit (wq_ready rt) th"
    if "th \<noteq> active rt" "\<not> bit (wq_tmshare rt) th" for th
    unfolding rt'_def systick_eq
    using timeshare_other [of th "tick_wake rt" 0] that tm [OF that(2)] t by auto
  then show ?thesis
    unfolding rt'_def systick_eq using t by (simp add: q)
qed

theorem systick_wakes_expired_witness:
  "bit (wq_ready (cm3_systick_isr sched_example)) 3"
proof -
  have "expires sched_example 3" "\<not> bit (wq_tmshare sched_example) 3" "active sched_example = 5"
    by (simp_all add: expires_def due_def sched_example_def rt_clear_def bit_numeral_rec)
  then show ?thesis using systick_wakes_expired [of sched_example] by force
qed

text \<open>What happens to a sleeping thread from outside: ticks, context switches, interrupts.\<close>
datatype kevent = Tick | Switch | Intr isr

fun kevent_run :: "kevent \<Rightarrow> thinkos_rt \<Rightarrow> thinkos_rt" where
  "kevent_run Tick rt = cm3_systick_isr rt"
| "kevent_run Switch rt = cm3_pendsv_isr rt"
| "kevent_run (Intr i) rt = isr_run i rt"

fun kevent_ok :: "kevent \<Rightarrow> bool" where
  "kevent_ok (Intr i) = isr_ok i"
| "kevent_ok _ = True"

abbreviation krun :: "kevent list \<Rightarrow> thinkos_rt \<Rightarrow> thinkos_rt" where
  "krun \<equiv> fold kevent_run"

text \<open>Thread \<open>th\<close> sleeps for \<open>k\<close> more ticks.\<close>
definition asleep :: "thinkos_rt \<Rightarrow> nat \<Rightarrow> nat \<Rightarrow> bool" where
  "asleep rt k th \<longleftrightarrow> suspended rt th \<and> bit (wq_clock rt) th \<and> clock rt th = ticks rt + of_nat k \<and> active rt \<noteq> th"

lemma asleep_isr:
  assumes "asleep rt k th" "isr_ok i" "th < 8"
  shows "asleep (isr_run i rt) k th"
proof -
  have r: "rely rt (isr_run i rt)" using assms(2) by (rule rely_isr_run)
  have "suspended (isr_run i rt) th" "bit (wq_clock (isr_run i rt)) th"
    using assms(1,3) rely_runnable(2) [OF r assms(3)] r
    by (auto simp: asleep_def suspended_def rely_def rely_threads_def)
  then show ?thesis using assms(1) r by (simp add: asleep_def rely_def rely_fields_def)
qed

lemma asleep_switch:
  assumes "asleep rt k th" "th < 8"
  shows "asleep (cm3_pendsv_isr rt) k th"
proof -
  note f = pendsv_fields [OF refl, where rt = rt]
  have "irq_th (cm3_pendsv_isr rt) = irq_th rt"
    by (simp add: cm3_pendsv_isr_def sched_entry_def sched_exit_def Let_def)
  moreover have "ctz (wq_ready rt) \<noteq> th"
    using assms ctz_bit [of "wq_ready rt"] by (auto simp: asleep_def suspended_def)
  ultimately show ?thesis
    using assms(1) by (simp add: asleep_def suspended_def detached_def f)
qed

lemma due_after:
  assumes "k < 2 ^ 31"
  shows "sint (of_nat k - 1 :: u32) \<le> 0 \<longleftrightarrow> k \<le> 1"
proof (cases k)
  case (Suc j)
  have "signed_take_bit 31 (int j) = int j"
    using assms Suc by (simp add: signed_take_bit_int_eq_self_iff)
  then have "sint (of_nat j :: u32) = int j"
    by (simp add: signed_of_nat)
  then show ?thesis using Suc by simp
qed simp

lemma asleep_tick:
  assumes "asleep rt k th" "k < 2 ^ 31" "th < 8"
  shows "if k \<le> 1 then bit (wq_ready (cm3_systick_isr rt)) th \<and> \<not> bit (wq_clock (cm3_systick_isr rt)) th
           \<and> th_stat (cm3_systick_isr rt) th = 0
         else asleep (cm3_systick_isr rt) (k - 1) th"
proof -
  have e: "expires rt th \<longleftrightarrow> k \<le> 1"
    using assms(1) due_after [OF assms(2)] by (simp add: asleep_def expires_def due_def algebra_simps)
  note t = tick_wake_spec [of rt, unfolded ticked_def, simplified]
  have q: "bit (wq_lst (cm3_systick_isr rt) w) th = bit (wq_lst (tick_wake rt) w) th" for w
    unfolding systick_eq by (rule timeshare_other) (use assms(1) t in \<open>auto simp: asleep_def suspended_def\<close>)
  have f: "irq_th (cm3_systick_isr rt) = irq_th rt" "clock (cm3_systick_isr rt) = clock rt"
    "ticks (cm3_systick_isr rt) = ticks rt + 1" "active (cm3_systick_isr rt) = active rt"
    "th_stat (cm3_systick_isr rt) th = (if k \<le> 1 then 0 else th_stat rt th)"
    using t e by (simp_all add: systick_eq)
  have b: "bit (wq_lst (cm3_systick_isr rt) w) th \<longleftrightarrow> (if w = 0 then k \<le> 1 \<or> bit (wq_ready rt) th
      else bit (wq_lst rt w) th \<and> \<not> (k \<le> 1 \<and> (w = 2 \<or> w = th_stat rt th div 2)))" for w
    unfolding q using t e by simp
  show ?thesis
  proof (cases "k \<le> 1")
    case True
    then show ?thesis by (simp add: b f)
  next
    case False
    then have "ticks rt + of_nat k = ticks rt + 1 + (of_nat (k - 1) :: u32)" by simp
    then show ?thesis using False assms(1) by (simp add: asleep_def suspended_def detached_def b f)
  qed
qed


lemma sleep_until:
  assumes "asleep rt k th" "th < 8" "k < 2 ^ 31" "list_all kevent_ok es"
    and "count_list es Tick < max 1 k"
  shows "asleep (krun es rt) (k - count_list es Tick) th"
  using assms
proof (induction es arbitrary: rt k)
  case (Cons e es)
  show ?case
  proof (cases e)
    case Tick
    then have k: "1 < k" "count_list es Tick < max 1 (k - 1)" using Cons.prems(5) by auto
    then have "asleep (cm3_systick_isr rt) (k - 1) th"
      using asleep_tick [OF Cons.prems(1,3,2)] by simp
    then show ?thesis using Cons.IH [of _ "k - 1"] Cons.prems k Tick by simp
  next
    case Switch
    then show ?thesis using Cons asleep_switch [OF Cons.prems(1,2)] by simp
  next
    case (Intr i)
    then show ?thesis using Cons asleep_isr [OF Cons.prems(1)] by simp
  qed
qed simp

lemma sleep_asleep:
  assumes "self < 8" "runnable rt self" "mem rt arg = of_nat ms"
  shows "asleep (cm3_pendsv_isr (sleep_svc arg self rt)) ms self"
proof -
  let ?rt = "sleep_svc arg self rt"
  note f = pendsv_fields [OF refl, where rt = ?rt]
  have s: "suspended ?rt self" "bit (wq_clock ?rt) self" "clock ?rt self = ticks ?rt + of_nat ms"
    using assms
    by (auto simp: sleep_svc_def kernel_simps Let_def suspend_wq_bits suspended_def runnable_def detached_def)
  have "irq_th (cm3_pendsv_isr ?rt) = irq_th ?rt"
    by (simp add: cm3_pendsv_isr_def sched_entry_def sched_exit_def Let_def)
  moreover have "ctz (wq_ready ?rt) \<noteq> self"
    using s(1) assms(1) ctz_bit [of "wq_ready ?rt"] by (auto simp: suspended_def)
  ultimately show ?thesis using s by (simp add: asleep_def suspended_def detached_def f)
qed

text \<open>
  C25. A sleep of \<open>ms\<close> milliseconds (below \<open>2 ^ 31\<close>) lasts exactly \<open>max 1 ms\<close> ticks,
  whatever interrupts and context switches happen meanwhile and even if the tick
  counter wraps around: before that many ticks the thread is not ready, and with
  that tick it becomes ready and leaves the clock queue.
\<close>
theorem sleep_duration:
  assumes "self < 8" "runnable rt self" "mem rt arg = of_nat ms" "ms < 2 ^ 31" "list_all kevent_ok es"
  defines "asleep_at \<equiv> cm3_pendsv_isr (sleep_svc arg self rt)"
  shows "(count_list es Tick < max 1 ms \<longrightarrow> \<not> bit (wq_ready (krun es asleep_at)) self)
    \<and> (Suc (count_list es Tick) = max 1 ms \<longrightarrow>
        bit (wq_ready (krun (es @ [Tick]) asleep_at)) self \<and> \<not> bit (wq_clock (krun (es @ [Tick]) asleep_at)) self)"
proof -
  have a: "asleep asleep_at ms self"
    unfolding asleep_at_def by (rule sleep_asleep [OF assms(1-3)])
  note u = sleep_until [OF a assms(1,4,5)]
  have 1: "count_list es Tick < max 1 ms \<Longrightarrow> \<not> bit (wq_ready (krun es asleep_at)) self"
    using u by (simp add: asleep_def suspended_def)
  have 2: "bit (wq_ready (krun (es @ [Tick]) asleep_at)) self \<and> \<not> bit (wq_clock (krun (es @ [Tick]) asleep_at)) self"
    if n: "Suc (count_list es Tick) = max 1 ms"
  proof -
    have "ms - count_list es Tick \<le> 1" "ms - count_list es Tick < 2 ^ 31" using n assms(4) by auto
    then show ?thesis
      using asleep_tick [OF u _ assms(1)] n by simp
  qed
  show ?thesis using 1 2 by blast
qed

lemma sched_example_runnable: "runnable sched_example 5"
  by (simp add: runnable_def detached_def sched_example_def rt_clear_def bit_numeral_rec)

theorem sleep_duration_witness:
  "\<not> bit (wq_ready (krun [Tick, Switch] (cm3_pendsv_isr (sleep_svc 0x1000 5 sched_example)))) 5
   \<and> bit (wq_ready (krun [Tick, Switch, Tick, Tick] (cm3_pendsv_isr (sleep_svc 0x1000 5 sched_example)))) 5"
proof -
  have m: "mem sched_example 0x1000 = of_nat 3" by (simp add: sched_example_def)
  show ?thesis
    using sleep_duration [OF _ sched_example_runnable m, of "[Tick, Switch]"]
      sleep_duration [OF _ sched_example_runnable m, of "[Tick, Switch, Tick]"]
    by simp
qed

text \<open>
  Time sharing keeps the schedule value of the active thread between 0 and the
  limit: with a limit of at most 32 and a priority not above it the signed 8-bit
  arithmetic never wraps.
\<close>
lemma timeshare_bounds:
  assumes "uint (sched_limit rt) \<le> int THINKOS_SCHED_LIMIT_MAX" "slice_ok rt (active rt)"
  shows "slice_ok (timeshare rt) (active rt)
    \<and> (\<forall>th. th \<noteq> active rt \<longrightarrow> sched_val (timeshare rt) th = sched_val rt th)"
proof -
  let ?a = "active rt" and ?l = "sched_limit rt"
  let ?v = "sched_val rt ?a - sched_pri rt ?a"
  note ok = assms(2) [unfolded slice_ok_def]
  have v: "sint ?v = sint (sched_val rt ?a) - uint (sched_pri rt ?a)"
    using ok assms(1) by (intro sched_val_sub) simp_all
  have w: "sint (?v + ucast ?l) = sint ?v + uint ?l" if "sint ?v < 0"
  proof (rule sched_val_add)
    show "- 32 \<le> sint ?v" "uint ?l \<le> 32" using ok v assms(1) by simp_all
  qed (rule that)
  have val: "?a \<le> 8 \<Longrightarrow> sched_val (timeshare rt) ?a = (if sint ?v < 0 then ?v + ucast ?l else ?v)"
    "\<And>th. th \<noteq> ?a \<Longrightarrow> sched_val (timeshare rt) th = sched_val rt th"
    by (auto simp: timeshare_def kernel_simps Let_def)
  show ?thesis
  proof (cases "?a \<le> 8")
    case True
    have "0 \<le> uint (sched_pri rt ?a)" by simp
    then show ?thesis
      using ok v w val True unfolding slice_ok_def by (cases "sint ?v < 0") (auto intro: order_trans [of _ "sint (sched_val rt ?a)"])
  next
    case False
    then have "sched_val (timeshare rt) = sched_val rt" by (simp add: timeshare_def)
    then show ?thesis using assms(2) by (simp add: slice_ok_def)
  qed
qed

text \<open>
  C26. Round robin, one step of the time sharing scheduler: when the slice of a ready active thread is used up it
  leaves the ready queue for the time sharing queue; when no other thread but the idle thread is
  ready at that step, every thread of the time sharing queue is made ready again, the active
  one included, and the time sharing queue is left empty.
\<close>
theorem timeshare_rotation:
  assumes "active rt < 8" "bit (wq_ready rt) (active rt)" "slice_end rt"
  defines "others \<equiv> bitset (wq_ready rt) - {active rt}" and "rt' \<equiv> timeshare rt"
  shows "bitset (wq_ready rt') =
      (if others = {THINKOS_THREAD_IDLE} then insert (active rt) (bitset (wq_tmshare rt) \<union> {THINKOS_THREAD_IDLE}) else others)
    \<and> bitset (wq_tmshare rt') = (if others = {THINKOS_THREAD_IDLE} then {} else insert (active rt) (bitset (wq_tmshare rt)))"
proof -
  let ?a = "active rt"
  define c where "c \<longleftrightarrow> bit_mem_wr (wq_ready rt) ?a False = push_bit 8 1"
  have c: "c \<longleftrightarrow> others = {8}"
    using bitset_single [of 8]
    by (simp add: c_def others_def bitset_clear flip: bitset_inject del: push_bit_of_1)
  have q: "wq_lst rt' = suspend_wq ?a ((wq_lst rt)(1 := bit_mem_wr (wq_tmshare rt) ?a True))"
    using assms(1-3) by (simp add: rt'_def timeshare_def slice_end_def kernel_simps bit_mem_rd_def Let_def)
  have col: "collects ?a ((wq_lst rt)(1 := bit_mem_wr (wq_tmshare rt) ?a True)) = c"
    by (simp add: collects_def c_def)
  have r: "bit (wq_ready rt') t \<longleftrightarrow> (t \<noteq> ?a \<and> bit (wq_ready rt) t) \<or> (c \<and> (t = ?a \<or> bit (wq_tmshare rt) t))"
    "bit (wq_tmshare rt') t \<longleftrightarrow> \<not> c \<and> (t = ?a \<or> bit (wq_tmshare rt) t)" for t
    unfolding q suspend_wq_bits col using assms(1) by auto
  have "bitset (wq_ready rt') = others \<union> (if c then insert ?a (bitset (wq_tmshare rt)) else {})"
    "bitset (wq_tmshare rt') = (if c then {} else insert ?a (bitset (wq_tmshare rt)))"
    unfolding others_def by (simp_all add: set_eq_iff r [simplified] conj_commute)
  then show ?thesis using c by (cases c) (simp_all add: insert_commute)
qed

theorem timeshare_rotation_witness:
  "bitset (wq_ready (timeshare sched_example)) = {2, 8} \<and> bitset (wq_tmshare (timeshare sched_example)) = {0, 5, 6}"
proof -
  have "active sched_example = 5" "bitset (wq_ready sched_example) = {2, 5, 8}" "bitset (wq_tmshare sched_example) = {0, 6}"
    "slice_end sched_example"
    using bitset_examples by (simp_all add: sched_example_def slice_end_def)
  moreover have "{2, 5, 8} - {5} = {2, 8 :: nat}" by auto
  ultimately show ?thesis
    using timeshare_rotation [of sched_example] bitset_iff [of 5 "wq_ready sched_example"]
    by (simp add: insert_commute)
qed

end
