(* ===== verification/Pause.thy ===== *)
theory Pause
  imports Objects Sched
begin

text \<open>
  Pausing and resuming threads (\<open>thinkos_pause.c\<close>, \<open>misc/pause_all.c\<close>,
  \<open>misc/resume_all.c\<close> and the resume routines of \<open>thinkos_console.c\<close>). A paused
  thread is taken out of the queue its status word names; resuming puts it back,
  or completes its system call if the object it waits for became available
  meanwhile. The status word is the only record of where the thread was.
\<close>

section \<open>Resume routines\<close>

type_synonym resume_fn = "nat \<Rightarrow> nat \<Rightarrow> bool \<Rightarrow> thinkos_rt \<Rightarrow> thinkos_rt"

definition ready_resume :: resume_fn where
  "ready_resume thread_id wq tmw rt = wq_bit THINKOS_WQ_READY thread_id True rt"

text \<open>The first interrupt line assigned to the thread.\<close>
definition irq_of :: "nat \<Rightarrow> thinkos_rt \<Rightarrow> nat option" where
  "irq_of thread_id rt = find (\<lambda>irq. irq_th rt irq = thread_id) [0..<THINKOS_IRQ_MAX]"

definition irq_resume :: resume_fn where
  "irq_resume thread_id wq tmw rt =
     (let rt = (case irq_of thread_id rt of None \<Rightarrow> rt | Some irq \<Rightarrow> cm3_irq_enable irq rt);
          rt = wq_bit wq thread_id True rt
      in wq_bit THINKOS_WQ_CLOCK thread_id tmw rt)"

definition tmshare_resume :: resume_fn where
  "tmshare_resume thread_id wq tmw rt = wq_bit wq thread_id True rt"

definition clock_resume :: resume_fn where
  "clock_resume thread_id wq tmw rt = wq_bit THINKOS_WQ_CLOCK thread_id True rt"

text \<open>Back to the queue, with the clock if the wait was timed.\<close>
definition requeue :: resume_fn where
  "requeue thread_id wq tmw rt = wq_bit THINKOS_WQ_CLOCK thread_id tmw (wq_bit wq thread_id True rt)"

text \<open>The call of the thread is complete and returns 0.\<close>
definition complete :: "nat \<Rightarrow> thinkos_rt \<Rightarrow> thinkos_rt" where
  "complete thread_id rt = th_stat_st thread_id 0 (ctx_r0_st thread_id 0 (wq_bit THINKOS_WQ_READY thread_id True rt))"

definition mutex_resume :: resume_fn where
  "mutex_resume thread_id wq tmw rt =
     (let mutex = wq - THINKOS_MUTEX_BASE in
      if lock rt mutex = -1
      then complete thread_id (rt\<lparr>lock := (lock rt)(mutex := int thread_id)\<rparr>)
      else requeue thread_id wq tmw rt)"

definition cond_resume :: resume_fn where
  "cond_resume thread_id wq tmw rt = requeue thread_id wq tmw rt"

definition semaphore_resume :: resume_fn where
  "semaphore_resume thread_id wq tmw rt =
     (let sem = wq - THINKOS_SEM_BASE in
      if 0 < sem_val rt sem
      then complete thread_id (rt\<lparr>sem_val := (sem_val rt)(sem := sem_val rt sem - 1)\<rparr>)
      else requeue thread_id wq tmw rt)"

definition evset_resume :: resume_fn where
  "evset_resume thread_id wq tmw rt =
     (let no = wq - THINKOS_EVENT_BASE; ev = clz (rbit (ev_pend rt no AND ev_mask rt no)) in
      if ev < 32
      then complete thread_id (rt\<lparr>ev_pend := (ev_pend rt)(no := bit_mem_wr (ev_pend rt no) ev False)\<rparr>)
      else requeue thread_id wq tmw rt)"

definition flag_resume :: resume_fn where
  "flag_resume thread_id wq tmw rt =
     (let idx = wq - THINKOS_FLAG_BASE in
      if bit_mem_rd (flag rt) idx
      then complete thread_id (rt\<lparr>flag := bit_mem_wr (flag rt) idx False\<rparr>)
      else requeue thread_id wq tmw rt)"

definition gate_resume :: resume_fn where
  "gate_resume thread_id wq tmw rt =
     (let idx = wq - THINKOS_GATE_BASE;
          opn = bit_mem_rd (gate rt) (idx * 2);
          lck = bit_mem_rd (gate rt) (idx * 2 + 1) in
      if opn \<and> \<not> lck
      then complete thread_id (rt\<lparr>gate := bit_mem_wr (bit_mem_wr (gate rt) (idx * 2) False) (idx * 2 + 1) True\<rparr>)
      else requeue thread_id wq tmw rt)"

definition join_resume :: resume_fn where
  "join_resume thread_id wq tmw rt = wq_bit wq thread_id True rt"

definition console_rd_resume :: resume_fn where
  "console_rd_resume th wq tmw rt = wakeup_return wq th 0 rt"

definition console_wr_resume :: resume_fn where
  "console_wr_resume th wq tmw rt =
     (let rt = (if tx_pipe_isfull (tx_pipe (console rt)) then dbgmon_signal DBGMON_TX_PIPE rt else rt)
      in wakeup_return wq th 0 rt)"

definition canceled_resume :: resume_fn where
  "canceled_resume thread_id wq tmw rt = wq_bit wq thread_id True rt"

definition paused_resume :: resume_fn where
  "paused_resume thread_id wq tmw rt = rt"

text \<open>The table of the routines; types without an entry hold a null pointer.\<close>
fun thread_resume_lut :: "obj_type \<Rightarrow> resume_fn option" where
  "thread_resume_lut THINKOS_OBJ_READY = Some ready_resume"
| "thread_resume_lut THINKOS_OBJ_TMSHARE = Some tmshare_resume"
| "thread_resume_lut THINKOS_OBJ_CLOCK = Some clock_resume"
| "thread_resume_lut THINKOS_OBJ_MUTEX = Some mutex_resume"
| "thread_resume_lut THINKOS_OBJ_COND = Some cond_resume"
| "thread_resume_lut THINKOS_OBJ_SEMAPHORE = Some semaphore_resume"
| "thread_resume_lut THINKOS_OBJ_EVENT = Some evset_resume"
| "thread_resume_lut THINKOS_OBJ_FLAG = Some flag_resume"
| "thread_resume_lut THINKOS_OBJ_GATE = Some gate_resume"
| "thread_resume_lut THINKOS_OBJ_JOIN = Some join_resume"
| "thread_resume_lut THINKOS_OBJ_CONREAD = Some console_rd_resume"
| "thread_resume_lut THINKOS_OBJ_CONWRITE = Some console_wr_resume"
| "thread_resume_lut THINKOS_OBJ_PAUSED = Some paused_resume"
| "thread_resume_lut THINKOS_OBJ_CANCELED = Some canceled_resume"
| "thread_resume_lut THINKOS_OBJ_IRQ = Some irq_resume"
| "thread_resume_lut _ = None"

section \<open>Pause and resume\<close>

definition thread_pause :: "nat \<Rightarrow> thinkos_rt \<Rightarrow> bool \<times> thinkos_rt" where
  "thread_pause thread_id rt =
     (if bit_mem_rd (wq_paused rt) thread_id then (False, rt)
      else
        let rt = wq_bit THINKOS_WQ_PAUSED thread_id True rt;
            wq = th_stat rt thread_id div 2;
            rt = wq_bit wq thread_id False rt;
            rt = wq_bit THINKOS_WQ_TMSHARE thread_id False rt;
            rt = (case irq_of thread_id rt of None \<Rightarrow> rt | Some irq \<Rightarrow> cm3_irq_disable irq rt);
            rt = wq_bit THINKOS_WQ_CLOCK thread_id False rt
        in (True, rt))"

definition thread_resume :: "nat \<Rightarrow> thinkos_rt \<Rightarrow> bool \<times> thinkos_rt" where
  "thread_resume thread_id rt =
     (if \<not> bit_mem_rd (wq_paused rt) thread_id then (False, rt)
      else
        let rt = wq_bit THINKOS_WQ_PAUSED thread_id False rt;
            stat = th_stat rt thread_id;
            wq = stat div 2;
            tmw = odd stat
        in (True, if THINKOS_WQ_LST_END \<le> wq then rt\<lparr>wild := True\<rparr>
                  else case thread_resume_lut (thinkos_obj_type_lut ! wq) of
                    None \<Rightarrow> rt\<lparr>wild := True\<rparr>
                  | Some resume \<Rightarrow> resume thread_id wq tmw rt))"

definition resume_svc :: svc_handler where
  "resume_svc arg self rt =
     (let thread_id = arg_ld rt arg 0 - 1 in
      if of_nat THINKOS_THREADS_MAX \<le> thread_id then arg_ret arg THINKOS_EINVAL rt
      else if \<not> bit_mem_rd (th_alloc rt) (unat thread_id) then arg_ret arg THINKOS_EINVAL rt
      else if ctx rt (unat thread_id) = 0 then arg_ret arg THINKOS_EINVAL rt
      else
        let (resumed, rt) = thread_resume (unat thread_id) (arg_ret arg 0 rt)
        in if resumed then defer_sched rt else rt)"

definition pause_svc :: svc_handler where
  "pause_svc arg self rt =
     (let thread = arg_ld rt arg 0;
          thread_id = (if thread = 0 then of_nat self else thread - 1) in
      if of_nat THINKOS_THREADS_MAX \<le> thread_id then arg_ret arg THINKOS_EINVAL rt
      else if \<not> bit_mem_rd (th_alloc rt) (unat thread_id) then arg_ret arg THINKOS_EINVAL rt
      else if ctx rt (unat thread_id) = 0 then arg_ret arg THINKOS_EINVAL rt
      else
        let (paused, rt) = thread_pause (unat thread_id) (arg_ret arg 0 rt)
        in if paused then defer_sched rt else rt)"

definition pause_all :: "thinkos_rt \<Rightarrow> thinkos_rt" where
  "pause_all rt =
     defer_sched (fold (\<lambda>th rt. if ctx rt th \<noteq> 0 then snd (thread_pause th rt) else rt)
       [0..<THINKOS_THREADS_MAX] rt)"

definition resume_all :: "thinkos_rt \<Rightarrow> thinkos_rt" where
  "resume_all rt =
     defer_sched (fold (\<lambda>th rt. if ctx rt th \<noteq> 0 then snd (thread_resume th rt) else rt)
       [0..<THINKOS_THREADS_MAX] rt)"

declare resume_svc_def [handler_defs] pause_svc_def [handler_defs]

lemmas resume_defs =
  ready_resume_def irq_resume_def tmshare_resume_def clock_resume_def requeue_def complete_def
  mutex_resume_def cond_resume_def semaphore_resume_def evset_resume_def flag_resume_def gate_resume_def
  join_resume_def console_rd_resume_def console_wr_resume_def canceled_resume_def paused_resume_def


section \<open>Where a thread is\<close>

text \<open>The object with queue \<open>w\<close> cannot be taken at once.\<close>
definition unavailable :: "thinkos_rt \<Rightarrow> nat \<Rightarrow> bool" where
  "unavailable rt w =
     (case thinkos_obj_type_lut ! w of
        THINKOS_OBJ_MUTEX \<Rightarrow> lock rt (w - 3) \<noteq> -1
      | THINKOS_OBJ_SEMAPHORE \<Rightarrow> sem_val rt (w - 19) = 0
      | THINKOS_OBJ_EVENT \<Rightarrow> ev_pend rt (w - 27) AND ev_mask rt (w - 27) = 0
      | THINKOS_OBJ_FLAG \<Rightarrow> \<not> bit (flag rt) (w - 31)
      | THINKOS_OBJ_GATE \<Rightarrow> \<not> (bit (gate rt) ((w - 39) * 2) \<and> \<not> bit (gate rt) ((w - 39) * 2 + 1))
      | _ \<Rightarrow> True)"

text \<open>
  The status word of thread \<open>th\<close> is accurate: the thread is in the queue it
  names, in the clock queue if the wait is timed, and not waiting for its turn.
  Queues 55 and 56 are those of the console.
\<close>
definition placed :: "thinkos_rt \<Rightarrow> nat \<Rightarrow> bool" where
  "placed rt th \<longleftrightarrow>
     (let w = th_stat rt th div 2 in
      w < 55 \<or> w = 58 \<or> w = 59) \<and>
     (let w = th_stat rt th div 2 in
      w \<noteq> 1 \<and> bit (wq_lst rt w) th \<and> \<not> bit (wq_tmshare rt) th \<and> \<not> bit (wq_paused rt) th
      \<and> (bit (wq_clock rt) th \<longleftrightarrow> w = 2 \<or> (odd (th_stat rt th) \<and> 3 \<le> w \<and> w < 47 \<or> w = 59 \<and> odd (th_stat rt th)))
      \<and> (case irq_of th rt of None \<Rightarrow> True | Some irq \<Rightarrow> w = 59 \<and> irq_en rt irq))"

lemma irq_of_queues [simp]:
  "irq_of th (rt\<lparr>wq_lst := f\<rparr>) = irq_of th rt" "irq_of th (rt\<lparr>irq_en := e\<rparr>) = irq_of th rt"
  "irq_of th (rt\<lparr>mem := m\<rparr>) = irq_of th rt"
  by (simp_all add: irq_of_def)

lemma record_queues_same: "q = wq_lst rt \<Longrightarrow> e = irq_en rt \<Longrightarrow> rt\<lparr>wq_lst := q, irq_en := e\<rparr> = rt"
  by simp

text \<open>
  The queues and interrupt enables after pausing.\<close>
lemma thread_pause_eq:
  assumes "\<not> bit (wq_paused rt) th" "th_stat rt th div 2 \<noteq> 57"
  shows "thread_pause th rt = (True, rt\<lparr>
     wq_lst := (\<lambda>w. if w = 57 then bit_mem_wr (wq_paused rt) th True
                    else if w = th_stat rt th div 2 \<or> w = 1 \<or> w = 2 then bit_mem_wr (wq_lst rt w) th False else wq_lst rt w),
     irq_en := (case irq_of th rt of None \<Rightarrow> irq_en rt | Some irq \<Rightarrow> (irq_en rt)(irq := False))\<rparr>)"
  using assms
  by (auto simp: thread_pause_def bit_mem_rd_def kernel_simps Let_def fun_eq_iff split: option.split)


text \<open>The routine the table selects for queue \<open>w\<close>.\<close>
definition resume_at :: resume_fn where
  "resume_at th w tmw rt = (case thread_resume_lut (thinkos_obj_type_lut ! w) of
     None \<Rightarrow> rt\<lparr>wild := True\<rparr> | Some resume \<Rightarrow> resume th w tmw rt)"

lemma thread_resume_eq:
  assumes "bit (wq_paused rt) th" "th_stat rt th div 2 < 60"
  shows "thread_resume th rt = (True, resume_at th (th_stat rt th div 2) (odd (th_stat rt th))
     (rt\<lparr>wq_lst := (wq_lst rt)(57 := bit_mem_wr (wq_paused rt) th False)\<rparr>))"
  using assms by (simp add: thread_resume_def bit_mem_rd_def kernel_simps resume_at_def Let_def split: option.split)

lemma unavailable_queues [simp]: "unavailable (rt\<lparr>wq_lst := f\<rparr>) w = unavailable rt w"
  "unavailable (rt\<lparr>irq_en := e\<rparr>) w = unavailable rt w"
  by (simp_all add: unavailable_def split: obj_type.splits)

lemma resume_unavailable:
  "3 \<le> w \<Longrightarrow> w < 47 \<Longrightarrow> unavailable rt w \<Longrightarrow> resume_at th w tmw rt = requeue th w tmw rt"
  by (auto simp: resume_at_def unavailable_def obj_type_lut_eq mutex_resume_def cond_resume_def
      semaphore_resume_def evset_resume_def flag_resume_def gate_resume_def bit_mem_rd_def Let_def clz_rbit ctz_less_32)

lemma resume_at_simps:
  "resume_at th 0 tmw rt = ready_resume th 0 tmw rt"
  "resume_at th 2 tmw rt = clock_resume th 2 tmw rt"
  "47 \<le> w \<Longrightarrow> w < 55 \<Longrightarrow> resume_at th w tmw rt = join_resume th w tmw rt"
  "resume_at th 55 tmw rt = console_wr_resume th 55 tmw rt"
  "resume_at th 56 tmw rt = console_rd_resume th 56 tmw rt"
  "resume_at th 58 tmw rt = canceled_resume th 58 tmw rt"
  "resume_at th 59 tmw rt = irq_resume th 59 tmw rt"
  by (simp_all add: resume_at_def obj_type_lut_eq)

section \<open>Properties\<close>

text \<open>
  C27. Pausing a thread and resuming it is transparent: if its status word is
  accurate and the object it waits for is not available, the state after the two
  calls is the state before them, whatever the thread was waiting for (ready,
  sleeping, mutex, condition variable, semaphore, event set, flag, gate, join,
  canceled or interrupt, timed or not).
\<close>
theorem pause_resume_round_trip:
  assumes "th < 8" "placed rt th" "unavailable rt (th_stat rt th div 2)"
  shows "thread_pause th rt = (True, rt') \<Longrightarrow> thread_resume th rt' = (True, rt)"
proof -
  let ?w = "th_stat rt th div 2"
  assume p: "thread_pause th rt = (True, rt')"
  have w: "?w < 60" "?w \<noteq> 57" "?w \<noteq> 55" "?w \<noteq> 56" "?w \<noteq> 1" and np: "\<not> bit (wq_paused rt) th"
    and b: "bit (wq_lst rt ?w) th" "\<not> bit (wq_tmshare rt) th"
    using assms(2) by (auto simp: placed_def Let_def)
  define q where "q = (\<lambda>w. if w = 57 then bit_mem_wr (wq_paused rt) th True
     else if w = ?w \<or> w = 1 \<or> w = 2 then bit_mem_wr (wq_lst rt w) th False else wq_lst rt w)"
  define e where "e = (case irq_of th rt of None \<Rightarrow> irq_en rt | Some irq \<Rightarrow> (irq_en rt)(irq := False))"
  have rt': "rt' = rt\<lparr>wq_lst := q, irq_en := e\<rparr>"
    using p thread_pause_eq [OF np w(2)] by (simp add: q_def e_def)
  define q1 where "q1 = (\<lambda>w. if w = ?w \<or> w = 1 \<or> w = 2 then bit_mem_wr (wq_lst rt w) th False else wq_lst rt w)"
  have q1: "q(57 := bit_mem_wr (q 57) th False) = q1"
    using w(2) np by (auto simp: q_def q1_def fun_eq_iff)
  have pb: "bit (q 57) th" using assms(1) by (simp add: q_def)
  have res: "thread_resume th rt' = (True, resume_at th ?w (odd (th_stat rt th)) (rt\<lparr>irq_en := e, wq_lst := q1\<rparr>))"
    using thread_resume_eq [of rt' th] pb w(1) by (simp add: rt' q1)
  have same: "rt\<lparr>wq_lst := f\<rparr> = rt" if "\<And>x. f x = wq_lst rt x" for f
  proof -
    have "f = wq_lst rt" using that by (rule ext)
    then show ?thesis by simp
  qed
  have r: "?w < 55 \<or> ?w = 58 \<or> ?w = 59" and c: "bit (wq_clock rt) th \<longleftrightarrow> ?w = 2 \<or>
      (odd (th_stat rt th) \<and> 3 \<le> ?w \<and> ?w < 47 \<or> ?w = 59 \<and> odd (th_stat rt th))"
    and i: "case irq_of th rt of None \<Rightarrow> True | Some irq \<Rightarrow> ?w = 59 \<and> irq_en rt irq"
    using assms(2) unfolding placed_def Let_def by blast+
  have e1: "?w \<noteq> 59 \<Longrightarrow> e = irq_en rt" using i by (simp add: e_def split: option.splits)
  consider (ready) "?w = 0" | (clock) "?w = 2" | (obj) "3 \<le> ?w" "?w < 47" | (join) "47 \<le> ?w" "?w < 55"
    | (canceled) "?w = 58" | (irq) "?w = 59"
    using r w(5) by linarith
  then show ?thesis
  proof cases
    case ready
    then show ?thesis
      using e1 c b by (simp add: res resume_at_simps ready_resume_def wq_bit_def q1_def) (rule same, auto)
  next
    case clock
    then show ?thesis
      using e1 c b by (simp add: res resume_at_simps clock_resume_def wq_bit_def q1_def) (rule same, auto)
  next
    case obj
    then show ?thesis
      using e1 c b assms(3) by (simp add: res resume_unavailable requeue_def wq_bit_def q1_def) (rule same, auto)
  next
    case join
    then show ?thesis
      using e1 c b by (simp add: res resume_at_simps join_resume_def wq_bit_def q1_def) (rule same, auto)
  next
    case canceled
    then show ?thesis
      using e1 c b by (simp add: res resume_at_simps canceled_resume_def wq_bit_def q1_def) (rule same, auto)
  next
    case irq
    have "(case irq_of th rt of None \<Rightarrow> e | Some irq \<Rightarrow> e(irq := True)) = irq_en rt"
      using i by (auto simp: e_def fun_upd_idem_iff split: option.splits)
    moreover have o: "odd (th_stat rt th) \<longleftrightarrow> bit (wq_clock rt) th" using irq c by simp
    ultimately have "resume_at th ?w (odd (th_stat rt th)) (rt\<lparr>irq_en := e, wq_lst := q1\<rparr>)
        = rt\<lparr>wq_lst := q1(59 := bit_mem_wr (q1 59) th True, 2 := bit_mem_wr (q1 2) th (bit (wq_clock rt) th))\<rparr>"
      unfolding o using irq
      by (cases "irq_of th rt") (simp_all add: resume_at_simps irq_resume_def kernel_simps Let_def)
    also have "\<dots> = rt" using irq b by (intro same) (auto simp: q1_def)
    finally show ?thesis by (simp add: res)
  qed
qed


text \<open>Thread 3 waits for semaphore 0 with a timeout; thread 5 runs.\<close>
definition pause_example :: thinkos_rt where
  "pause_example = rt_clear\<lparr>wq_lst := (\<lambda>_. 0)(0 := 0x120, 2 := 8, 19 := 8), irq_th := (\<lambda>_. 8), active := 5,
     th_stat := (\<lambda>_. 0)(3 := 39), th_alloc := 0xffffff28, ctx := (\<lambda>t. 0x3000 + 0x100 * of_nat t), mem := (\<lambda>_. 4)\<rparr>"

lemma pause_example_placed: "placed pause_example 3" "irq_of 3 pause_example = None"
proof -
  show i: "irq_of 3 pause_example = None"
    by (simp add: irq_of_def pause_example_def find_None_iff)
  have w: "th_stat pause_example 3 div 2 = 19" "odd (th_stat pause_example 3)"
    by (simp_all add: pause_example_def)
  have q: "wq_lst pause_example 19 = 8" "wq_lst pause_example 1 = 0" "wq_lst pause_example 57 = 0" "wq_lst pause_example 2 = 8"
    by (simp_all add: pause_example_def)
  show "placed pause_example 3"
    using w q i by (simp add: placed_def Let_def bit_numeral_rec)
qed

theorem pause_resume_round_trip_witness:
  "thread_resume 3 (snd (thread_pause 3 pause_example)) = (True, pause_example)"
proof -
  have "unavailable pause_example (th_stat pause_example 3 div 2)"
    by (simp add: unavailable_def pause_example_def obj_type_lut_eq rt_clear_def)
  moreover have "thread_pause 3 pause_example = (True, snd (thread_pause 3 pause_example))"
    by (simp add: thread_pause_def pause_example_def bit_mem_rd_def Let_def)
  ultimately show ?thesis
    using pause_resume_round_trip [of 3 pause_example] pause_example_placed(1) by simp
qed

text \<open>A paused thread is nowhere but in the paused queue.\<close>
definition frozen :: "thinkos_rt \<Rightarrow> nat \<Rightarrow> bool" where
  "frozen rt th \<longleftrightarrow> (\<forall>w. bit (wq_lst rt w) th \<longleftrightarrow> w = 57) \<and> (\<forall>irq. irq_th rt irq \<noteq> th)"

lemma frozen_wakeup:
  assumes "frozen rt th" "w \<noteq> 0" "wq \<noteq> 57" "wq_lst rt wq = w"
  shows "frozen (wakeup_return wq (ctz w) v rt) th"
proof -
  have "ctz w \<noteq> th"
    using assms ctz_bit [of w] by (auto simp: frozen_def ctz_less_32)
  then show ?thesis
    using assms(1) by (auto simp: frozen_def wakeup_return_eq Let_def)
qed

lemma frozen_frame [simp]:
  "frozen (rt\<lparr>pendsv := b\<rparr>) = frozen rt" "frozen (rt\<lparr>sem_val := f\<rparr>) = frozen rt"
  "frozen (rt\<lparr>flag := w\<rparr>) = frozen rt" "frozen (rt\<lparr>gate := w\<rparr>) = frozen rt" "frozen (rt\<lparr>ev_pend := f\<rparr>) = frozen rt"
  "frozen (rt\<lparr>wild := b\<rparr>) = frozen rt" "frozen (rt\<lparr>console := c\<rparr>) = frozen rt" "frozen (rt\<lparr>umem := u\<rparr>) = frozen rt"
  by (simp_all add: frozen_def fun_eq_iff)

lemma frozen_isr:
  assumes "frozen rt th" "isr_ok i" "th < 8"
  shows "frozen (isr_run i rt) th"
  using assms
proof (cases i)
  case (IrqLine irq)
  then show ?thesis
    using assms by (auto simp: frozen_def cm3_default_isr_def wq_remove_def kernel_simps Let_def)
qed (auto simp: isr_defs kernel_simps Let_def ctz_eq_32 intro!: frozen_wakeup split: prod.split)


lemma frozen_switch: "frozen (cm3_pendsv_isr rt) th = frozen rt th"
  by (simp add: frozen_def cm3_pendsv_isr_def sched_entry_def sched_exit_def Let_def)

lemma timeshare_unready: "\<not> bit (wq_ready rt) (active rt) \<Longrightarrow> wq_lst (timeshare rt) = wq_lst rt"
  by (auto simp: timeshare_def bit_mem_rd_def Let_def)

lemma frozen_tick:
  assumes "frozen rt th"
  shows "frozen (cm3_systick_isr rt) th"
proof -
  note t = tick_wake_spec [of rt, unfolded ticked_def, simplified]
  have "\<not> expires rt th" using assms by (simp add: expires_def frozen_def)
  then have b: "bit (wq_lst (tick_wake rt) w) th \<longleftrightarrow> w = 57" for w
    using t assms by (simp add: frozen_def)
  have "bit (wq_lst (timeshare (tick_wake rt)) w) th = bit (wq_lst (tick_wake rt) w) th" for w
    using timeshare_unready [of "tick_wake rt"] timeshare_other [of th "tick_wake rt" w] b
    by (cases "th = active (tick_wake rt)") auto
  then show ?thesis
    using t assms b by (simp add: frozen_def systick_eq)
qed

lemma frozen_krun:
  "list_all kevent_ok es \<Longrightarrow> frozen rt th \<Longrightarrow> th < 8 \<Longrightarrow> frozen (krun es rt) th"
proof (induction es arbitrary: rt)
  case (Cons e es)
  then show ?case by (cases e) (auto simp: frozen_switch intro: frozen_tick frozen_isr)
qed simp

text \<open>
  C28. A paused thread stays paused: whatever interrupts, ticks and context
  switches follow, it is not ready and in no queue but the paused one until it
  is resumed, provided the thread was only in the queue its status word names
  (or waiting for its turn or for the clock) and no interrupt line is assigned
  to it.
\<close>
theorem paused_stays:
  assumes "th < 8" "\<not> bit (wq_paused rt) th" "list_all kevent_ok es" "th_stat rt th div 2 \<noteq> THINKOS_WQ_PAUSED"
    and "\<forall>w. bit (wq_lst rt w) th \<longrightarrow> w = th_stat rt th div 2 \<or> w = 1 \<or> w = 2" "\<forall>irq. irq_th rt irq \<noteq> th"
  shows "fst (thread_pause th rt)
    \<and> (\<forall>w. bit (wq_lst (krun es (snd (thread_pause th rt))) w) th \<longleftrightarrow> w = THINKOS_WQ_PAUSED)"
proof -
  have w: "th_stat rt th div 2 \<noteq> 57" using assms(4) by simp
  have i: "irq_of th rt = None" using assms(6) by (simp add: irq_of_def find_None_iff)
  have "frozen (snd (thread_pause th rt)) th"
    using assms(1,5,6) by (auto simp: thread_pause_eq [OF assms(2) w] i frozen_def)
  then show ?thesis
    using frozen_krun [OF assms(3) _ assms(1)] thread_pause_eq [OF assms(2) w] by (simp add: frozen_def)
qed

theorem paused_stays_witness:
  "\<not> bit (wq_ready (krun [Intr (SemPost 19), Tick, Switch] (snd (thread_pause 3 pause_example)))) 3"
proof -
  have "th_stat pause_example 3 div 2 = 19" "\<not> bit (wq_paused pause_example) 3" "\<forall>irq. irq_th pause_example irq \<noteq> 3"
    by (simp_all add: pause_example_def)
  moreover have "\<forall>w. bit (wq_lst pause_example w) 3 \<longrightarrow> w = 19 \<or> w = 1 \<or> w = 2"
    by (auto simp: pause_example_def bit_numeral_rec)
  ultimately show ?thesis
    using paused_stays [of 3 pause_example "[Intr (SemPost 19), Tick, Switch]"] by simp
qed

text \<open>
  C29. Resuming a thread whose object became available while it was paused
  completes its call as the signal would have done: the thread is ready with
  return value 0, its status is cleared, it is not put back in the queue, and one
  unit of the object is consumed. For an event set the lowest enabled event is
  consumed too, but the call returns 0 and not the number of the event.
\<close>
theorem resume_takes_object:
  assumes "th < 8" "bit (wq_paused rt) th" "\<not> unavailable rt w" "w = th_stat rt th div 2" "w < 60" "ctx rt th \<noteq> 0"
    and "thread_resume th rt = (b, rt')"
  shows "bit (wq_ready rt') th \<and> th_stat rt' th = 0 \<and> mem rt' (ctx rt th + 32) = 0
    \<and> bit (wq_lst rt' w) th = bit (wq_lst rt w) th \<and> \<not> bit (wq_paused rt') th
    \<and> (case thinkos_obj_type_lut ! w of
         THINKOS_OBJ_MUTEX \<Rightarrow> lock rt' = (lock rt)(w - 3 := int th)
       | THINKOS_OBJ_SEMAPHORE \<Rightarrow> sem_val rt' = (sem_val rt)(w - 19 := sem_val rt (w - 19) - 1)
       | THINKOS_OBJ_EVENT \<Rightarrow> ev_pend rt' (w - 27) =
           bit_mem_wr (ev_pend rt (w - 27)) (Min (bitset (ev_pend rt (w - 27) AND ev_mask rt (w - 27)))) False
       | THINKOS_OBJ_FLAG \<Rightarrow> flag rt' = bit_mem_wr (flag rt) (w - 31) False
       | THINKOS_OBJ_GATE \<Rightarrow> \<not> bit (gate rt') ((w - 39) * 2) \<and> bit (gate rt') ((w - 39) * 2 + 1)
       | _ \<Rightarrow> False)"
proof -
  have r: "rt' = resume_at th w (odd (th_stat rt th)) (rt\<lparr>wq_lst := (wq_lst rt)(57 := bit_mem_wr (wq_paused rt) th False)\<rparr>)"
    using thread_resume_eq [of rt th] assms(2,4,5,7) by simp
  consider (m) "3 \<le> w" "w < 11" | (s) "19 \<le> w" "w < 27" | (e) "27 \<le> w" "w < 31" | (f) "31 \<le> w" "w < 39" | (g) "39 \<le> w" "w < 47"
    using assms(3,5) by (force simp: unavailable_def obj_type_lut_eq split: if_splits)
  then show ?thesis
  proof cases
    case m
    then show ?thesis
      using assms(1,3,6)
      by (simp add: r resume_at_def unavailable_def obj_type_lut_eq mutex_resume_def complete_def kernel_simps Let_def)
  next
    case s
    then show ?thesis
      using assms(1,3,6)
      by (simp add: r resume_at_def unavailable_def obj_type_lut_eq semaphore_resume_def complete_def kernel_simps word_gt_0 Let_def)
  next
    case e
    then have nz: "ev_pend rt (w - 27) AND ev_mask rt (w - 27) \<noteq> 0"
      using assms(3) by (simp add: unavailable_def obj_type_lut_eq)
    then show ?thesis
      using e assms(1,6) unfolding bitset_ctz_min [OF nz, symmetric]
      by (simp add: r resume_at_def obj_type_lut_eq evset_resume_def complete_def kernel_simps Let_def
          clz_rbit ctz_less_32)
  next
    case f
    then show ?thesis
      using assms(1,3,6)
      by (simp add: r resume_at_def unavailable_def obj_type_lut_eq flag_resume_def complete_def kernel_simps bit_mem_rd_def Let_def)
  next
    case g
    then show ?thesis
      using assms(1,3,6)
      by (simp add: r resume_at_def unavailable_def obj_type_lut_eq gate_resume_def complete_def kernel_simps bit_mem_rd_def Let_def)
  qed
qed

theorem resume_takes_object_witness:
  "sem_val (snd (thread_resume 3 (pause_example\<lparr>wq_lst := (\<lambda>_. 0)(57 := 8), sem_val := (\<lambda>_. 7)\<rparr>))) 0 = 6"
proof -
  let ?rt = "pause_example\<lparr>wq_lst := (\<lambda>_. 0)(57 := 8), sem_val := (\<lambda>_. 7)\<rparr>"
  have p: "bit (wq_paused ?rt) 3" "ctx ?rt 3 \<noteq> 0" "th_stat ?rt 3 div 2 = 19"
    by (simp_all add: pause_example_def bit_numeral_rec)
  have u: "\<not> unavailable ?rt 19"
    by (simp add: unavailable_def obj_type_lut_eq)
  show ?thesis
    using resume_takes_object [OF _ p(1) u p(3) [symmetric] _ p(2) surjective_pairing] by (simp add: obj_type_lut_eq)
qed

text \<open>
  Pausing does not look at the threads that wait for their turn: if the
  paused thread was the only ready one besides the idle thread, the idle thread
  is left alone in the ready queue while other threads that could run stay
  behind, unlike after every other call that suspends a thread.
\<close>
lemma pause_strands_tmshare:
  assumes "th < 8" "bitset (wq_ready rt) = {th, 8}" "th_stat rt th = 0" "\<not> bit (wq_paused rt) th"
    and "bitset (wq_tmshare rt) - {th} \<noteq> {}"
  defines "rt' \<equiv> snd (thread_pause th rt)"
  shows "bitset (wq_ready rt') = {THINKOS_THREAD_IDLE} \<and> wq_tmshare rt' \<noteq> 0
    \<and> bitset (wq_ready (suspend th rt)) = insert THINKOS_THREAD_IDLE (bitset (wq_tmshare rt))
    \<and> wq_tmshare (suspend th rt) = 0"
proof -
  have q: "wq_ready rt' = bit_mem_wr (wq_ready rt) th False" "wq_tmshare rt' = bit_mem_wr (wq_tmshare rt) th False"
    using assms(3,4) by (simp_all add: rt'_def thread_pause_eq)
  have 1: "bitset (wq_ready rt') = {8}" "bitset (wq_tmshare rt') \<noteq> {}"
    unfolding q bitset_clear using assms(1,2,5) by auto
  have c: "collects th (wq_lst rt)"
    using 1(1) bitset_single [of 8] bitset_inject [of "bit_mem_wr (wq_ready rt) th False" "push_bit 8 1"]
    by (simp add: q collects_def)
  have "bitset (push_bit 8 1 OR wq_tmshare rt) = insert 8 (bitset (wq_tmshare rt))"
    using bitset_single [of 8] by (auto simp: bitset_def bit_or_iff set_eq_iff)
  then show ?thesis
    using 1 c by (simp add: suspend_eq suspend_wq_def bitset_empty)
qed

end
