(* ===== verification/Thread.thy ===== *)
theory Thread
  imports Pause Alloc
begin

text \<open>
  The life cycle of threads (\<open>thinkos_thread.c\<close>, \<open>thinkos_exit.c\<close>,
  \<open>thinkos_join.c\<close>, \<open>thinkos_cancel.c\<close>, \<open>misc/exec.c\<close>) and the functions that
  inspect threads (\<open>misc/thread_*.c\<close>, \<open>misc/active.c\<close>, \<open>misc/suspended.c\<close>). The
  addresses the linker gives to functions and objects the kernel refers to are
  the fields of the record \<open>image\<close>.
\<close>

record image =
  exit_stub :: u32
  thread_exit :: u32
  idle_task :: u32
  idle_stack_base :: u32
  main_stack :: u32
  main_inf :: u32
  idle_inf :: u32
  except_stack :: u32
  dbgmon_stack :: u32
  dbgmon_bootstrap :: u32
  dbgmon_null_task :: u32

section \<open>Creation\<close>

text \<open>Members of \<open>struct thinkos_context\<close>, as byte offsets, and the thumb bit.\<close>
definition CTX_LR :: nat where [simp]: "CTX_LR = 13"
definition CTX_XPSR :: nat where [simp]: "CTX_XPSR = 15"
definition CM_EPSR_T :: u32 where "CM_EPSR_T = push_bit 24 1"

definition memset32 :: "u32 \<Rightarrow> u32 \<Rightarrow> nat \<Rightarrow> thinkos_rt \<Rightarrow> thinkos_rt" where
  "memset32 dst val len rt = rt\<lparr>mem := mem_fill dst (replicate (len div 4) val) (mem rt)\<rparr>"

definition thread_init :: "image \<Rightarrow> nat \<Rightarrow> u32 \<Rightarrow> u32 \<Rightarrow> u32 \<Rightarrow> thinkos_rt \<Rightarrow> thinkos_rt" where
  "thread_init im thread_id sp task a rt =
     (let pc = task AND 0xfffffffe;
          sp = (sp AND 0xfffffff8) - 4 * of_nat CTX_SIZE;
          rt = memset32 sp 0 (4 * CTX_SIZE) rt;
          rt = mem_st (sp + 4 * of_nat CTX_R0) a rt;
          rt = mem_st (sp + 4 * of_nat CTX_LR) (exit_stub im) rt;
          rt = mem_st (sp + 4 * of_nat CTX_PC) pc rt;
          rt = mem_st (sp + 4 * of_nat CTX_XPSR) CM_EPSR_T rt;
          rt = rt\<lparr>ctx := (ctx rt)(thread_id := sp)\<rparr>
      in wq_bit THINKOS_WQ_PAUSED thread_id True rt)"

text \<open>The options word of \<open>struct thinkos_thread_opt\<close>: size, priority, number and paused flag.\<close>
definition opt_stack_size :: "u32 \<Rightarrow> nat" where "opt_stack_size opt = unat (take_bit 16 opt)"
definition opt_priority :: "u32 \<Rightarrow> nat" where "opt_priority opt = unat (take_bit 8 (drop_bit 16 opt))"
definition opt_id :: "u32 \<Rightarrow> nat" where "opt_id opt = unat (take_bit 7 (drop_bit 24 opt))"
definition opt_paused :: "u32 \<Rightarrow> bool" where "opt_paused opt = bit opt 31"

definition thread_slot :: "nat \<Rightarrow> u32 \<Rightarrow> (nat \<times> u32) option" where
  "thread_slot no bmp =
     (let target_id = int no - 1 in
      if int THINKOS_THREADS_MAX \<le> target_id then alloc_hi bmp THINKOS_THREADS_MAX
      else
        let t = (if target_id < 0 then 0 else nat target_id) in
        case alloc_lo bmp t of
          Some r \<Rightarrow> Some r
        | None \<Rightarrow> alloc_hi bmp t)"

text \<open>The time share parameters of a new thread.\<close>
definition sched_setup :: "nat \<Rightarrow> nat \<Rightarrow> thinkos_rt \<Rightarrow> thinkos_rt" where
  "sched_setup thread_id priority rt =
     (let rt = rt\<lparr>sched_pri := (sched_pri rt)(thread_id := of_nat priority)\<rparr>;
          rt = (if THINKOS_SCHED_LIMIT_MAX < unat (sched_pri rt thread_id)
                then rt\<lparr>sched_pri := (sched_pri rt)(thread_id := of_nat THINKOS_SCHED_LIMIT_MAX)\<rparr> else rt);
          rt = (if unat (sched_limit rt) < unat (sched_pri rt thread_id)
                then rt\<lparr>sched_limit := ucast (sched_pri rt thread_id)\<rparr> else rt)
      in rt\<lparr>sched_val := (sched_val rt)(thread_id := ucast (sched_limit rt div 2))\<rparr>)"

definition thread_create_svc :: "image \<Rightarrow> svc_handler" where
  "thread_create_svc im arg self rt =
     (let opt = arg_ld rt arg 3 in
      case thread_slot (opt_id opt) (th_alloc rt) of
        None \<Rightarrow> arg_ret arg THINKOS_EINVAL rt
      | Some (thread_id, bmp) \<Rightarrow>
          let rt = rt\<lparr>th_alloc := bmp\<rparr>;
              stack_ptr = arg_ld rt arg 2;
              sp = stack_ptr + of_nat (opt_stack_size opt) in
          if opt_stack_size opt < 4 * CTX_SIZE then arg_ret arg THINKOS_EINVAL rt
          else
            let rt = memset32 stack_ptr 0xdeadbeef (opt_stack_size opt) rt;
                rt = rt\<lparr>th_inf := (th_inf rt)(thread_id := arg_ld rt arg 4)\<rparr>;
                rt = sched_setup thread_id (opt_priority (arg_ld rt arg 3)) rt;
                rt = thread_init im thread_id sp (arg_ld rt arg 0) (arg_ld rt arg 1) rt;
                rt = (if \<not> opt_paused (arg_ld rt arg 3)
                      then defer_sched (snd (thread_resume thread_id rt)) else rt)
            in arg_ret arg (of_nat thread_id + 1) rt)"

section \<open>Termination\<close>

definition thread_abort :: "nat \<Rightarrow> thinkos_rt \<Rightarrow> thinkos_rt" where
  "thread_abort thread_id rt =
     (let rt = fold (\<lambda>j rt. if j = thread_id \<or> ctx rt j = 0 then rt
                            else if unat (sched_limit rt) < unat (sched_pri rt j)
                            then rt\<lparr>sched_limit := ucast (sched_pri rt j)\<rparr> else rt)
                [0..<THINKOS_THREADS_MAX] rt;
          rt = rt\<lparr>th_alloc := bit_mem_wr (th_alloc rt) thread_id False\<rparr>;
          rt = (if thread_id = active rt then rt\<lparr>active := THINKOS_THREAD_VOID\<rparr> else rt);
          rt = rt\<lparr>ctx := (ctx rt)(thread_id := 0)\<rparr>;
          rt = suspend thread_id rt
      in defer_sched rt)"

text \<open>Waking the threads that joined: \<open>__thinkos_wakeup\<close> followed by \<open>ctx[th]->r0 = code\<close>.\<close>
function join_wakeup :: "nat \<Rightarrow> u32 \<Rightarrow> thinkos_rt \<Rightarrow> thinkos_rt" where
  "join_wakeup wq code rt =
     (let th = wq_head wq rt in
      if th = THINKOS_THREAD_NULL then rt
      else join_wakeup wq code (ctx_r0_st th code (wakeup wq th rt)))"
  by auto
termination
proof (relation "measure (\<lambda>(wq, _, rt). card (bitset (wq_lst rt wq)))")
  fix wq code rt and x :: nat
  assume x: "x = wq_head wq rt" "x \<noteq> THINKOS_THREAD_NULL"
  have "bit (wq_lst rt wq) x"
    using x bitset_ctz [of "wq_lst rt wq"] by (simp add: wq_head_eq ctz_eq_32)
  then show "((wq, code, ctx_r0_st x code (wakeup wq x rt)), wq, code, rt) \<in> measure (\<lambda>(wq, _, rt). card (bitset (wq_lst rt wq)))"
    using card_Diff1_less [of "bitset (wq_lst rt wq)" x]
    by (auto simp: wakeup_is_return ctx_r0_st_eq wakeup_return_queue)
qed simp

declare join_wakeup.simps [simp del]

definition terminate_svc :: svc_handler where
  "terminate_svc arg self rt =
     (let thread = arg_ld rt arg 0; code = arg_ld rt arg 1;
          thread_id = (if thread = 0 then of_nat self else thread - 1) in
      if of_nat THINKOS_THREADS_MAX \<le> thread_id then arg_ret arg THINKOS_EINVAL rt
      else if \<not> bit_mem_rd (th_alloc rt) (unat thread_id) then arg_ret arg THINKOS_EINVAL rt
      else
        let thread_id = unat thread_id;
            rt = wq_bit THINKOS_WQ_TMSHARE thread_id False rt;
            stat = th_stat rt thread_id;
            rt = th_stat_st thread_id 0 rt;
            rt = wq_bit (stat div 2) thread_id False rt;
            wq = THINKOS_JOIN_BASE + thread_id;
            th = wq_head wq rt;
            rt = (if th \<noteq> THINKOS_THREAD_NULL
                  then defer_sched (join_wakeup wq code (ctx_r0_st th code (wakeup wq th rt))) else rt)
        in thread_abort thread_id rt)"

text \<open>The program counter is word 6 of the exception frame.\<close>
definition exit_svc :: "image \<Rightarrow> svc_handler" where
  "exit_svc im arg self rt =
     (let rt = (if wq_lst rt (THINKOS_JOIN_BASE + self) = 0
                then defer_sched (suspend self (wq_insert THINKOS_WQ_CANCELED self rt)) else rt)
      in mem_st (arg + 4 * 6) (thread_exit im) rt)"

definition join_svc :: svc_handler where
  "join_svc arg self rt =
     (let thread_id = arg_ld rt arg 0 - 1 in
      if of_nat THINKOS_THREADS_MAX \<le> thread_id then arg_ret arg THINKOS_EINVAL rt
      else if \<not> bit_mem_rd (th_alloc rt) (unat thread_id) then arg_ret arg THINKOS_EINVAL rt
      else
        let thread_id = unat thread_id;
            rt = (if bit_mem_rd (wq_canceled rt) thread_id
                  then wq_bit THINKOS_WQ_READY thread_id True (wq_bit THINKOS_WQ_CANCELED thread_id False rt) else rt);
            rt = wq_insert (THINKOS_JOIN_BASE + thread_id) self rt;
            rt = suspend self rt;
            rt = defer_sched rt
        in arg_ret arg (- 1) rt)"

text \<open>\<open>ctx[th]->pc = v\<close>.\<close>
definition ctx_pc_st :: "nat \<Rightarrow> u32 \<Rightarrow> thinkos_rt \<Rightarrow> thinkos_rt" where
  "ctx_pc_st th v rt =
     (if ctx rt th = 0 then rt\<lparr>wild := True\<rparr> else mem_st (ctx rt th + 4 * of_nat CTX_PC) v rt)"

definition cancel_svc :: "image \<Rightarrow> svc_handler" where
  "cancel_svc im arg self rt =
     (let thread = arg_ld rt arg 0; code = arg_ld rt arg 1;
          thread_id = (if thread = 0 then of_nat self else thread - 1) in
      if of_nat THINKOS_THREADS_MAX \<le> thread_id then arg_ret arg THINKOS_EINVAL rt
      else if \<not> bit_mem_rd (th_alloc rt) (unat thread_id) then arg_ret arg THINKOS_EINVAL rt
      else
        let thread_id = unat thread_id;
            stat = th_stat rt thread_id;
            rt = wq_bit (stat div 2) thread_id False rt;
            rt = wq_insert THINKOS_WQ_CANCELED thread_id rt;
            rt = wq_bit THINKOS_WQ_TMSHARE thread_id False rt;
            rt = wq_bit THINKOS_WQ_CLOCK thread_id False rt;
            rt = ctx_pc_st thread_id (thread_exit im) rt;
            rt = ctx_r0_st thread_id code rt
        in arg_ret arg 0 rt)"

declare thread_create_svc_def [handler_defs] terminate_svc_def [handler_defs] exit_svc_def [handler_defs]
  join_svc_def [handler_defs] cancel_svc_def [handler_defs]

section \<open>Inspection\<close>

definition thread_inf_set :: "nat \<Rightarrow> u32 \<Rightarrow> thinkos_rt \<Rightarrow> thinkos_rt" where
  "thread_inf_set thread_id th_inf_ptr rt =
     (if ctx rt thread_id \<noteq> 0 then rt\<lparr>th_inf := (th_inf rt)(thread_id := th_inf_ptr)\<rparr> else rt)"

definition thinkos_exec :: "image \<Rightarrow> nat \<Rightarrow> u32 \<Rightarrow> u32 \<Rightarrow> bool \<Rightarrow> thinkos_rt \<Rightarrow> thinkos_rt" where
  "thinkos_exec im thread_id func a paused rt =
     (let rt = thread_abort thread_id rt;
          rt = rt\<lparr>th_alloc := bit_mem_wr (th_alloc rt) thread_id True\<rparr>;
          rt = thread_init im thread_id (main_stack im) func a rt;
          rt = thread_inf_set thread_id (main_inf im) rt
      in if \<not> paused then defer_sched (snd (thread_resume thread_id rt)) else rt)"

text \<open>The context of the void thread is the slot after the idle thread.\<close>
definition thread_isalive :: "nat \<Rightarrow> thinkos_rt \<Rightarrow> bool" where
  "thread_isalive th rt =
     (if th = THINKOS_THREAD_IDLE then True
      else if th = THINKOS_THREAD_VOID then ctx rt THINKOS_THREAD_VOID \<noteq> 0
      else if THINKOS_THREADS_MAX \<le> th then False
      else ctx rt th \<noteq> 0)"

definition thread_ispaused :: "nat \<Rightarrow> thinkos_rt \<Rightarrow> bool" where
  "thread_ispaused th rt =
     (if THINKOS_THREADS_MAX \<le> th then False
      else if ctx rt th = 0 then False
      else bit_mem_rd (wq_paused rt) th)"

text \<open>The next thread with a context; the search starts after \<open>th\<close>, or at 0 for a negative \<open>th\<close>.\<close>
definition thread_getnext :: "int \<Rightarrow> thinkos_rt \<Rightarrow> int" where
  "thread_getnext th rt =
     (case find (\<lambda>idx. ctx rt idx \<noteq> 0) [if th < 0 then 0 else nat (th + 1)..<THINKOS_THREADS_MAX] of
        Some idx \<Rightarrow> int idx
      | None \<Rightarrow> -1)"

definition thinkos_active :: "thinkos_rt \<Rightarrow> bool" where
  "thinkos_active rt = list_ex (\<lambda>th. ctx rt th \<noteq> 0) [0..<THINKOS_THREADS_MAX]"

definition thinkos_suspended :: "thinkos_rt \<Rightarrow> bool" where
  "thinkos_suspended rt =
     list_all (\<lambda>th. ctx rt th \<noteq> 0 \<longrightarrow> bit_mem_rd (wq_canceled rt) th \<or> bit_mem_rd (wq_paused rt) th)
       [0..<THINKOS_THREADS_MAX]"

text \<open>\<open>struct thinkos_thread\<close>: what the monitor shows of a thread.\<close>
record thread_info =
  ti_no :: nat
  ti_wq :: nat
  ti_tmw :: bool
  ti_alloc :: bool
  ti_sched_val :: u8
  ti_sched_pri :: u8
  ti_clock :: u32
  ti_cyccnt :: u32
  ti_inf :: u32

definition thread_get :: "nat \<Rightarrow> thinkos_rt \<Rightarrow> (thread_info \<times> u32 list) option" where
  "thread_get thread_id rt =
     (if THINKOS_THREADS_MAX \<le> thread_id \<or> ctx rt thread_id = 0 then None
      else Some (\<lparr>ti_no = thread_id + 1, ti_wq = th_stat rt thread_id div 2, ti_tmw = odd (th_stat rt thread_id),
          ti_alloc = (th_alloc rt AND push_bit thread_id 1 \<noteq> 0), ti_sched_val = sched_val rt thread_id,
          ti_sched_pri = sched_pri rt thread_id, ti_clock = clock rt thread_id - ticks rt, ti_cyccnt = 0,
          ti_inf = th_inf rt thread_id\<rparr>,
        let src = ctx rt thread_id; w = (\<lambda>i. mem rt (src + 4 * of_nat i))
        in map w [8, 9, 10, 11] @ map w [0..<8] @ [w 12, src, w 13, w 14, w 15]))"


section \<open>Choice of the thread number\<close>

lemma alloc_lo_spec:
  assumes "s < 32"
  shows "alloc_lo b s = None \<longleftrightarrow> (\<forall>m. s \<le> m \<longrightarrow> m < 32 \<longrightarrow> bit b m)"
    and "alloc_lo b s = Some (i, b') \<longleftrightarrow>
      s \<le> i \<and> i < 32 \<and> \<not> bit b i \<and> (\<forall>m. s \<le> m \<longrightarrow> m < i \<longrightarrow> bit b m) \<and> b' = bit_mem_wr b i True"
proof -
  let ?v = "NOT (drop_bit s b)"
  have bitv: "bit ?v n \<longleftrightarrow> n < 32 \<and> \<not> bit b (n + s)" for n
    by (auto simp: bit_not_iff bit_drop_bit_eq add.commute)
  have top: "bit ?v (32 - s)" if "0 < s"
    using that assms bit_less_32 [of b 32] by (auto simp: bitv)
  let ?c = "ctz ?v"
  have low: "bit b (m + s)" if "m < ?c" "m < 32" for m
    using that ctz_min [of m ?v] by (simp add: bitv)
  have at: "\<not> bit b (?c + s)" if "?c < 32" using that ctz_bit [of ?v] by (simp add: bitv)
  have c: "?c + s < 32 \<longleftrightarrow> (\<exists>m. s \<le> m \<and> m < 32 \<and> \<not> bit b m)"
  proof
    assume "?c + s < 32"
    then show "\<exists>m. s \<le> m \<and> m < 32 \<and> \<not> bit b m" using at by (intro exI [of _ "?c + s"]) simp
  next
    assume "\<exists>m. s \<le> m \<and> m < 32 \<and> \<not> bit b m"
    then obtain m where m: "s \<le> m" "m < 32" "\<not> bit b m" by blast
    then have "?c \<le> m - s" by (intro ctz_le_bit) (simp add: bitv)
    then show "?c + s < 32" using m by linarith
  qed
  show "alloc_lo b s = None \<longleftrightarrow> (\<forall>m. s \<le> m \<longrightarrow> m < 32 \<longrightarrow> bit b m)"
    using c by (auto simp: alloc_lo_def Let_def clz_rbit)
  show "alloc_lo b s = Some (i, b') \<longleftrightarrow>
      s \<le> i \<and> i < 32 \<and> \<not> bit b i \<and> (\<forall>m. s \<le> m \<longrightarrow> m < i \<longrightarrow> bit b m) \<and> b' = bit_mem_wr b i True" (is "?l \<longleftrightarrow> ?r")
  proof
    assume l: ?l
    then have i: "i = ?c + s" "i < 32" "b' = bit_mem_wr b i True"
      by (auto simp: alloc_lo_def Let_def clz_rbit split: if_splits)
    have "bit b m" if "s \<le> m" "m < i" for m
      using low [of "m - s"] that i by simp
    then show ?r using i at by auto
  next
    assume r: ?r
    have c: "?c \<le> i - s" using r by (intro ctz_le_bit) (auto simp: bitv)
    have "?c + s = i"
    proof (rule ccontr)
      assume "?c + s \<noteq> i"
      then have "?c + s < i" using c r by linarith
      then have "bit b (?c + s)" using r by (simp del: bit_not_iff_eq)
      then show False using at \<open>?c + s < i\<close> r by simp
    qed
    then show ?l using r by (simp add: alloc_lo_def Let_def clz_rbit)
  qed
qed

lemma clz_less: "clz w < 32 \<Longrightarrow> bit w (31 - clz w)"
  and clz_above: "m < 32 \<Longrightarrow> 31 - clz w < m \<Longrightarrow> \<not> bit w m"
  and clz_zero: "\<not> clz w < 32 \<Longrightarrow> w = 0"
proof -
  show "clz w < 32 \<Longrightarrow> bit w (31 - clz w)" by (rule clz_top_bit)
  show "m < 32 \<Longrightarrow> 31 - clz w < m \<Longrightarrow> \<not> bit w m"
    using clz_scan_above [of m 32 w] by (simp add: clz_def)
  assume "\<not> clz w < 32"
  then have "clz_scan 32 w = 32" using clz_scan_le [of 32 w] by (simp add: clz_def)
  then show "w = 0" by (simp only: clz_scan_full word_eq_0_bits)
qed

lemma alloc_hi_spec:
  assumes "s < 32"
  shows "alloc_hi b s = None \<longleftrightarrow> (\<forall>m. m \<le> s \<longrightarrow> bit b m)"
    and "alloc_hi b s = Some (i, b') \<Longrightarrow>
      i \<le> s \<and> \<not> bit b i \<and> (\<forall>m. i < m \<longrightarrow> m \<le> s \<longrightarrow> bit b m) \<and> b' = bit_mem_wr b i True"
proof -
  let ?v = "NOT (push_bit (31 - s) b)"
  have bitv: "bit ?v n \<longleftrightarrow> n < 32 \<and> \<not> (31 - s \<le> n \<and> bit b (n - (31 - s)))" for n
    by (auto simp: bit_not_iff bit_push_bit_iff)
  have above: "bit b m" if "s - clz ?v < m" "m \<le> s" for m
    using that assms clz_above [of "m + (31 - s)" ?v] by (auto simp: bitv)
  have at: "\<not> bit b (s - clz ?v)" if "clz ?v \<le> s"
    using that assms clz_less [of ?v] by (auto simp: bitv)
  have none: "\<forall>m. m \<le> s \<longrightarrow> bit b m" if "s < clz ?v"
  proof (intro allI impI)
    fix m assume "m \<le> s"
    then show "bit b m"
      using that assms clz_above [of "m + (31 - s)" ?v] clz_zero [of ?v] bitv [of "m + (31 - s)"]
      by (cases "clz ?v < 32") auto
  qed
  have e: "alloc_hi b s = (if s < clz ?v then None else Some (s - clz ?v, bit_mem_wr b (s - clz ?v) True))"
    using assms by (simp add: alloc_hi_def Let_def)
  show "alloc_hi b s = None \<longleftrightarrow> (\<forall>m. m \<le> s \<longrightarrow> bit b m)"
    using none at e by (cases "s < clz ?v") (auto intro: diff_le_self)
  show "i \<le> s \<and> \<not> bit b i \<and> (\<forall>m. i < m \<longrightarrow> m \<le> s \<longrightarrow> bit b m) \<and> b' = bit_mem_wr b i True"
    if "alloc_hi b s = Some (i, b')"
    using that at above by (auto simp: e not_less split: if_splits)
qed


text \<open>
  The number a new thread gets: the lowest free one not below the requested
  number \<open>t\<close> or, if there is none, the highest free one below it.
\<close>
definition slot_choice :: "nat \<Rightarrow> nat set \<Rightarrow> nat" where
  "slot_choice t F = (if {m \<in> F. t \<le> m} \<noteq> {} then Min {m \<in> F. t \<le> m} else Max F)"

lemma thread_slot_spec:
  assumes ok: "word_bmp_ok 8 b"
  defines "F \<equiv> {m. m < 8 \<and> \<not> bit b m}"
  shows "thread_slot no b = (if F = {} then None
    else Some (slot_choice (no - 1) F, bit_mem_wr b (slot_choice (no - 1) F) True))"
proof -
  have F: "m \<in> F \<longleftrightarrow> m < 32 \<and> \<not> bit b m" for m
    using ok by (auto simp: F_def word_bmp_ok_def) (meson not_le)
  have fin: "finite F" by (simp add: F_def)
  have hi: "alloc_hi b s = (if {m \<in> F. m \<le> s} = {} then None
      else Some (Max {m \<in> F. m \<le> s}, bit_mem_wr b (Max {m \<in> F. m \<le> s}) True))" if s: "s < 32" for s
  proof (cases "alloc_hi b s")
    case None
    then show ?thesis using alloc_hi_spec(1) [OF s, of b] s by (auto simp: F)
  next
    case (Some r)
    then obtain i b' where r: "alloc_hi b s = Some (i, b')" by (cases r) auto
    have i: "i \<le> s" "\<not> bit b i" "b' = bit_mem_wr b i True" "\<And>m. i < m \<Longrightarrow> m \<le> s \<Longrightarrow> bit b m"
      using alloc_hi_spec(2) [OF s r] by simp_all
    have iF: "i \<in> {m \<in> F. m \<le> s}" using i(1,2) s by (simp add: F)
    have "Max {m \<in> F. m \<le> s} = i"
    proof (rule Max_eqI)
      show "y \<le> i" if "y \<in> {m \<in> F. m \<le> s}" for y using that i(4) [of y] by (cases "i < y") (simp_all add: F)
    qed (use iF fin in simp_all)
    moreover have "{m \<in> F. m \<le> s} \<noteq> {}" using iF by blast
    ultimately show ?thesis using i(3) r by simp
  qed
  have lo: "alloc_lo b s = (if {m \<in> F. s \<le> m} = {} then None
      else Some (Min {m \<in> F. s \<le> m}, bit_mem_wr b (Min {m \<in> F. s \<le> m}) True))" if s: "s < 32" for s
  proof (cases "alloc_lo b s")
    case None
    then show ?thesis using alloc_lo_spec(1) [OF s, of b] by (auto simp: F)
  next
    case (Some r)
    then obtain i b' where r: "alloc_lo b s = Some (i, b')" by (cases r) auto
    have i: "s \<le> i" "\<not> bit b i" "b' = bit_mem_wr b i True" "i < 32" "\<And>m. s \<le> m \<Longrightarrow> m < i \<Longrightarrow> bit b m"
      using alloc_lo_spec(2) [OF s, THEN iffD1, OF r] by simp_all
    have iF: "i \<in> {m \<in> F. s \<le> m}" using i by (simp add: F)
    have "Min {m \<in> F. s \<le> m} = i"
    proof (rule Min_eqI)
      show "i \<le> y" if "y \<in> {m \<in> F. s \<le> m}" for y using that i(5) [of y] by (cases "y < i") (simp_all add: F)
    qed (use iF fin in simp_all)
    moreover have "{m \<in> F. s \<le> m} \<noteq> {}" using iF by blast
    ultimately show ?thesis using i(3) r by simp
  qed
  have hiF: "{m \<in> F. m \<le> s} = F" if "{m \<in> F. s \<le> m} = {}" for s
    using that by fastforce
  show ?thesis
  proof (cases "8 \<le> int no - 1")
    case True
    have "{m \<in> F. m \<le> 8} = F" "{m \<in> F. no - 1 \<le> m} = {}" using True by (auto simp: F_def)
    then show ?thesis using True hi [of 8] by (simp add: thread_slot_def slot_choice_def)
  next
    case False
    have t: "(if int no - 1 < 0 then 0 else nat (int no - 1)) = no - 1" by auto
    define T where "T = no - 1"
    have ts: "thread_slot no b = (case alloc_lo b T of Some r \<Rightarrow> Some r | None \<Rightarrow> alloc_hi b T)"
      unfolding thread_slot_def Let_def t T_def using False by simp
    have s: "T < 32" using False by (simp add: T_def)
    show ?thesis
    proof (cases "{m \<in> F. T \<le> m} = {}")
      case True
      then show ?thesis
        unfolding ts lo [OF s] hi [OF s] hiF [OF True] T_def [symmetric] slot_choice_def by simp
    next
      case ne: False
      then have "F \<noteq> {}" by blast
      then show ?thesis
        unfolding ts lo [OF s] T_def [symmetric] slot_choice_def using ne by (simp only: if_False if_True option.case simp_thms)
    qed
  qed
qed


section \<open>Blocks of words\<close>

definition in_block :: "u32 \<Rightarrow> nat \<Rightarrow> u32 \<Rightarrow> bool" where
  "in_block a n x \<longleftrightarrow> (\<exists>k<n. x = a + 4 * of_nat k)"

lemma mem_fill_at:
  assumes "length vs < 2 ^ 30" "k < length vs"
  shows "mem_fill a vs m (a + 4 * of_nat k) = vs ! k"
proof -
  have "mem_words a (length vs) (mem_fill a vs m) ! k = vs ! k" using mem_fill_words [OF assms(1)] by simp
  then show ?thesis using assms(2) by (simp add: mem_words_def)
qed

lemma word_block_inj: "i < 2 ^ 30 \<Longrightarrow> k < 2 ^ 30 \<Longrightarrow> (a :: u32) + 4 * of_nat i = a + 4 * of_nat k \<longleftrightarrow> i = k"
proof (induction i k rule: linorder_wlog)
  case (le i k)
  have "a + 4 * of_nat k = (a + 4 * of_nat i) + 4 * of_nat (k - i)" using le(1) by (simp add: of_nat_diff algebra_simps)
  then show ?case using word_block_distinct [of "k - i" "a + 4 * of_nat i"] le less_imp_diff_less [of k "2 ^ 30" i]
    by (cases "i = k") auto
qed auto

lemma mem_fill_upd:
  assumes "length vs < 2 ^ 30" "i < length vs"
  shows "(mem_fill a vs m)(a + 4 * of_nat i := v) = mem_fill a (vs[i := v]) m"
proof
  fix x
  show "((mem_fill a vs m)(a + 4 * of_nat i := v)) x = mem_fill a (vs[i := v]) m x"
  proof (cases "in_block a (length vs) x")
    case True
    then obtain k where k: "k < length vs" "x = a + 4 * of_nat k" by (auto simp: in_block_def)
    then show ?thesis
      using assms word_block_inj [of i k a] mem_fill_at [of vs k a m] mem_fill_at [of "vs[i := v]" k a m]
      by (auto simp: nth_list_update)
  next
    case False
    then have "x \<noteq> a + 4 * of_nat i" "mem_fill a vs m x = m x" "mem_fill a (vs[i := v]) m x = m x"
      using assms(2) by (auto simp: in_block_def intro!: mem_fill_outside)
    then show ?thesis by simp
  qed
qed

lemma mem_fill_out: "\<not> in_block a (length vs) x \<Longrightarrow> mem_fill a vs m x = m x"
  by (rule mem_fill_outside) (auto simp: in_block_def)

lemma unat_word_at: "unat a + 4 * k < 2 ^ 32 \<Longrightarrow> unat (a + 4 * of_nat k :: u32) = unat a + 4 * k"
proof -
  assume k: "unat a + 4 * k < 2 ^ 32"
  have "unat (a + 4 * of_nat k) = unat (of_nat (unat a + 4 * k) :: u32)" by simp
  also have "\<dots> = unat a + 4 * k" unfolding unat_of_nat using k by simp
  finally show ?thesis .
qed

lemma in_block_range:
  assumes "in_block a n x" "unat a + 4 * n \<le> 2 ^ 32"
  shows "unat a \<le> unat x \<and> unat x < unat a + 4 * n"
proof -
  obtain k where k: "k < n" "x = a + 4 * of_nat k" using assms(1) by (auto simp: in_block_def)
  then have "unat x = unat a + 4 * k" using assms(2) unat_word_at [of a k] by simp
  then show ?thesis using k by simp
qed

text \<open>The words of a fresh context.\<close>
definition fresh_context :: "image \<Rightarrow> u32 \<Rightarrow> u32 \<Rightarrow> u32 list" where
  "fresh_context im task a = replicate 8 0 @ [a, 0, 0, 0, 0, exit_stub im, task AND 0xfffffffe, CM_EPSR_T]"

definition context_at :: "u32 \<Rightarrow> u32" where
  "context_at sp = (sp AND 0xfffffff8) - 64"

lemma fresh_context_eq:
  "(((replicate 16 0)[8 := a, 13 := exit_stub im, 14 := task AND 0xfffffffe, 15 := CM_EPSR_T]) :: u32 list)
    = fresh_context im task a" "length (fresh_context im task a) = 16"
  by (simp_all add: fresh_context_def eval_nat_numeral)

lemma thread_init_eq:
  "thread_init im th sp task a rt = rt\<lparr>mem := mem_fill (context_at sp) (fresh_context im task a) (mem rt),
     ctx := (ctx rt)(th := context_at sp), wq_lst := (wq_lst rt)(57 := bit_mem_wr (wq_lst rt 57) th True)\<rparr>"
proof -
  let ?c = "context_at sp" and ?l = "replicate 16 0 :: u32 list"
  note upd = mem_fill_upd [of ?l 8 ?c "mem rt" a] mem_fill_upd [of "?l[8 := a]" 13 ?c "mem rt" "exit_stub im"]
    mem_fill_upd [of "?l[8 := a, 13 := exit_stub im]" 14 ?c "mem rt" "task AND 0xfffffffe"]
    mem_fill_upd [of "?l[8 := a, 13 := exit_stub im, 14 := task AND 0xfffffffe]" 15 ?c "mem rt" CM_EPSR_T]
  have "(mem_fill ?c ?l (mem rt))(?c + 32 := a, ?c + 52 := exit_stub im, ?c + 56 := task AND 0xfffffffe, ?c + 60 := CM_EPSR_T)
      = mem_fill ?c (fresh_context im task a) (mem rt)"
    using upd fresh_context_eq(1) [of a im task] by simp
  then show ?thesis
    by (simp add: thread_init_def Let_def memset32_def kernel_simps context_at_def)
qed


section \<open>Creation\<close>

text \<open>A new thread starts with a fresh slice; the limit only grows and stays within its maximum.\<close>
lemma sched_setup_slice:
  assumes "unat (sched_limit rt) \<le> 32" "p < 256" and rt'_def: "rt' = sched_setup th p rt"
  shows "unat (sched_limit rt') \<le> 32" "unat (sched_limit rt) \<le> unat (sched_limit rt')" "slice_ok rt' th"
    "unat (sched_pri rt' th) = min p 32" "\<And>t. t \<noteq> th \<Longrightarrow> sched_pri rt' t = sched_pri rt t \<and> sched_val rt' t = sched_val rt t"
proof -
  define q where "q = min p 32"
  have qp: "unat (of_nat p :: u8) = p" using assms(2) by (simp add: unat_of_nat)
  have q32: "q \<le> 32" by (simp add: q_def)
  have pri: "sched_pri rt' = (sched_pri rt)(th := of_nat q)"
    by (simp add: rt'_def sched_setup_def Let_def qp q_def min_def)
  have uq: "unat (of_nat q :: u8) = q" using q32 by (simp add: unat_of_nat)
  have up: "unat (ucast (of_nat q :: u8) :: u32) = q"
    using q32 uq by (simp add: unsigned_ucast_eq take_bit_nat_eq_self)
  have lim: "unat (sched_limit rt') = max (unat (sched_limit rt)) q"
    using uq up by (simp add: rt'_def sched_setup_def Let_def qp q_def max_def min_def split: if_splits)
  show "unat (sched_pri rt' th) = min p 32" by (simp add: pri uq q_def [symmetric])
  show l32: "unat (sched_limit rt') \<le> 32" "unat (sched_limit rt) \<le> unat (sched_limit rt')"
    using lim assms(1) q32 by simp_all
  have val: "sched_val rt' = (sched_val rt)(th := ucast (sched_limit rt' div 2))"
    by (simp add: rt'_def sched_setup_def Let_def)
  have "unat (ucast (sched_limit rt' div 2) :: u8) = unat (sched_limit rt') div 2"
    using l32(1) by (simp add: unsigned_ucast_eq take_bit_nat_eq_self unat_div)
  then have "sint (ucast (sched_limit rt' div 2) :: u8) = int (unat (sched_limit rt') div 2)"
    using l32(1) by (simp add: sint_uint uint_nat signed_take_bit_int_eq_self)
  then show "slice_ok rt' th" using lim uq q32 by (simp add: slice_ok_def val pri uint_nat)
  show "\<And>t. t \<noteq> th \<Longrightarrow> sched_pri rt' t = sched_pri rt t \<and> sched_val rt' t = sched_val rt t"
    by (simp add: pri val)
qed


lemma sched_setup_other [simp]:
  "mem (sched_setup th p rt) = mem rt" "ctx (sched_setup th p rt) = ctx rt" "wq_lst (sched_setup th p rt) = wq_lst rt"
  "th_stat (sched_setup th p rt) = th_stat rt" "th_alloc (sched_setup th p rt) = th_alloc rt"
  "pendsv (sched_setup th p rt) = pendsv rt" "th_inf (sched_setup th p rt) = th_inf rt"
  by (simp_all add: sched_setup_def Let_def)

lemma thread_resume_ready:
  assumes "bit (wq_paused rt) th" "th_stat rt th = 0"
  shows "thread_resume th rt = (True, rt\<lparr>wq_lst := (wq_lst rt)(57 := bit_mem_wr (wq_lst rt 57) th False, 0 := bit_mem_wr (wq_ready rt) th True)\<rparr>)"
  using assms by (simp add: thread_resume_eq resume_at_simps ready_resume_def kernel_simps)

lemma thread_create_eq:
  fixes im arg rt
  defines "opt \<equiv> arg_ld rt arg 3" and "base \<equiv> arg_ld rt arg 2"
  assumes slot: "thread_slot (opt_id opt) (th_alloc rt) = Some (th, bmp)" and th: "th < 8" "th_stat rt th = 0"
    and sz: "64 \<le> opt_stack_size opt" and c: "c = context_at (base + of_nat (opt_stack_size opt))"
    and frame: "\<forall>i<5. \<not> in_block base (opt_stack_size opt div 4) (arg + 4 * of_nat i) \<and> \<not> in_block c 16 (arg + 4 * of_nat i)"
    and m: "m = mem_fill base (replicate (opt_stack_size opt div 4) 0xdeadbeef) (mem rt)"
    and rt1: "rt1 = sched_setup th (opt_priority opt) (rt\<lparr>th_alloc := bmp, mem := m, th_inf := (th_inf rt)(th := arg_ld rt arg 4)\<rparr>)"
  shows "thread_create_svc im arg self rt = rt1\<lparr>
     mem := (mem_fill c (fresh_context im (arg_ld rt arg 0) (arg_ld rt arg 1)) m)(arg := of_nat th + 1),
     ctx := (ctx rt)(th := c),
     wq_lst := (if opt_paused opt then (wq_lst rt)(57 := bit_mem_wr (wq_lst rt 57) th True)
                else (wq_lst rt)(57 := bit_mem_wr (wq_lst rt 57) th False, 0 := bit_mem_wr (wq_ready rt) th True)),
     pendsv := (pendsv rt \<or> \<not> opt_paused opt)\<rparr>"
proof -
  have ld: "m (arg + 4 * of_nat i) = arg_ld rt arg i" if "i < 5" for i
    using frame that by (auto simp: m arg_ld_def intro!: mem_fill_out)
  let ?m = "mem_fill c (fresh_context im (arg_ld rt arg 0) (arg_ld rt arg 1)) m"
  have ld2: "?m (arg + 12) = opt"
    using frame [THEN spec, of 3] ld [of 3] mem_fill_out [of c "fresh_context im (arg_ld rt arg 0) (arg_ld rt arg 1)" "arg + 12" m]
    by (auto simp: fresh_context_eq(2) opt_def)
  have 1: "rt1 = sched_setup th (opt_priority (m (arg + 12))) (rt\<lparr>th_alloc := bmp, mem := m, th_inf := (th_inf rt)(th := m (arg + 16))\<rparr>)"
    using ld [of 3] ld [of 4] by (simp add: rt1 opt_def)
  define rt2 where "rt2 = thread_init im th (base + of_nat (opt_stack_size opt)) (m arg) (m (arg + 4)) rt1"
  have 2: "rt2 = rt1\<lparr>mem := ?m, ctx := (ctx rt)(th := c), wq_lst := (wq_lst rt)(57 := bit_mem_wr (wq_lst rt 57) th True)\<rparr>"
    using ld [of 0] ld [of 1] by (simp add: rt2_def thread_init_eq c rt1)
  have "thread_create_svc im arg self rt = arg_ret arg (of_nat th + 1)
      (if \<not> opt_paused (mem rt2 (arg + 12)) then defer_sched (snd (thread_resume th rt2)) else rt2)"
  proof -
    define A where "A = rt\<lparr>th_alloc := bmp\<rparr>"
    define A0 where "A0 = A\<lparr>mem := m\<rparr>"
    define A1 where "A1 = A0\<lparr>th_inf := (th_inf A0)(th := arg_ld A0 arg 4)\<rparr>"
    have base: "arg_ld A arg 2 = base" by (simp add: A_def base_def arg_ld_def)
    have a0: "memset32 base 0xdeadbeef (opt_stack_size opt) A = A0" by (simp add: memset32_def A0_def A_def m)
    have a1: "sched_setup th (opt_priority (arg_ld A1 arg 3)) A1 = rt1"
      by (simp add: 1 A1_def A0_def A_def arg_ld_def)
    have a2: "thread_init im th (base + of_nat (opt_stack_size opt)) (arg_ld rt1 arg 0) (arg_ld rt1 arg 1) rt1 = rt2"
      by (simp add: rt2_def arg_ld_def rt1)
    have ns: "\<not> opt_stack_size opt < 4 * CTX_SIZE" using sz by simp
    show ?thesis
      unfolding thread_create_svc_def opt_def [symmetric] Let_def [of opt] slot option.case prod.case A_def [symmetric]
      unfolding Let_def [of A] Let_def [of "arg_ld A arg 2"] base Let_def [of base] Let_def [of "base + _"] if_not_P [OF ns] a0 Let_def [of A0] A1_def [symmetric] Let_def [of A1]
        a1 Let_def [of rt1] a2 Let_def [of rt2]
      by (simp only: Let_def arg_ld_def) simp
  qed
  also have "mem rt2 (arg + 12) = opt" using ld2 by (simp add: 2)
  also have "thread_resume th rt2 = (True, rt2\<lparr>wq_lst := (wq_lst rt)(57 := bit_mem_wr (wq_lst rt 57) th False, 0 := bit_mem_wr (wq_ready rt) th True)\<rparr>)"
    using th by (subst thread_resume_ready) (simp_all add: 2 rt1)
  finally have e: "thread_create_svc im arg self rt = arg_ret arg (of_nat th + 1)
      (if \<not> opt_paused opt then defer_sched (rt2\<lparr>wq_lst := (wq_lst rt)(57 := bit_mem_wr (wq_lst rt 57) th False, 0 := bit_mem_wr (wq_ready rt) th True)\<rparr>) else rt2)"
    by (simp only: snd_conv)
  have "pendsv rt1 = pendsv rt" by (simp add: rt1)
  then show ?thesis
    unfolding e 2 by (cases "opt_paused opt") (simp_all add: arg_ret_def mem_st_def defer_sched_def)
qed


text \<open>
  C30. Creating a thread allocates one free thread number: the lowest one
  not below the number asked for or else the highest free one. It is an error
  when all eight are in use, which changes nothing but the return value, and when the stack is smaller than a
  context; that second error comes after the allocation and leaves the number allocated without a thread.
  Otherwise the new thread gets a context at the top of its
  stack from which it starts at its task with its argument in \<open>r0\<close> and the exit stub
  as return address; it is ready, or paused if so requested, with a valid time
  slice, and no other thread changes its context or its queues. Assumed are that a free number
  has status word 0, as initialization and termination leave it, and that the argument block lies outside the new stack.
\<close>
theorem thread_create_spec:
  fixes im arg rt self
  defines "opt \<equiv> arg_ld rt arg 3" and "base \<equiv> arg_ld rt arg 2" and "rt' \<equiv> thread_create_svc im arg self rt"
  defines "F \<equiv> {m. m < 8 \<and> \<not> bit (th_alloc rt) m}" and "c \<equiv> context_at (base + of_nat (opt_stack_size opt))"
  defines "th \<equiv> slot_choice (opt_id opt - 1) F"
  assumes "word_bmp_ok 8 (th_alloc rt)" "\<forall>m\<in>F. th_stat rt m = 0" "unat (sched_limit rt) \<le> 32"
    and "\<forall>i<5. \<not> in_block base (opt_stack_size opt div 4) (arg + 4 * of_nat i) \<and> \<not> in_block c 16 (arg + 4 * of_nat i)"
  shows "if F = {} then rt' = arg_ret arg THINKOS_EINVAL rt
    else if opt_stack_size opt < 64
    then th \<in> F \<and> rt' = arg_ret arg THINKOS_EINVAL (rt\<lparr>th_alloc := bit_mem_wr (th_alloc rt) th True\<rparr>)
    else th \<in> F \<and> mem rt' arg = of_nat th + 1 \<and> bitset (th_alloc rt') = insert th (bitset (th_alloc rt))
      \<and> ctx rt' th = c \<and> mem_words c 16 (mem rt') = fresh_context im (arg_ld rt arg 0) (arg_ld rt arg 1)
      \<and> (bit (wq_paused rt') th \<longleftrightarrow> opt_paused opt) \<and> (\<not> opt_paused opt \<longrightarrow> bit (wq_ready rt') th)
      \<and> slice_ok rt' th \<and> unat (sched_limit rt') \<le> 32
      \<and> (\<forall>t. t \<noteq> th \<longrightarrow> ctx rt' t = ctx rt t \<and> (\<forall>w. bit (wq_lst rt' w) t \<longleftrightarrow> bit (wq_lst rt w) t))"
proof (cases "F = {}")
  case True
  then have "thread_slot (opt_id opt) (th_alloc rt) = None"
    using thread_slot_spec [OF assms(7), of "opt_id opt"] by (simp add: F_def)
  then show ?thesis using True by (simp add: rt'_def thread_create_svc_def opt_def [symmetric])
next
  case False
  have fin: "finite F" by (simp add: F_def)
  have thF: "th \<in> F"
    using False fin Max_in [of F] Min_in [of "{m \<in> F. opt_id opt - 1 \<le> m}"] by (auto simp: th_def slot_choice_def)
  then have th: "th < 8" "th_stat rt th = 0" "\<not> bit (th_alloc rt) th" using assms(8) by (auto simp: F_def)
  have slot: "thread_slot (opt_id (arg_ld rt arg 3)) (th_alloc rt) = Some (th, bit_mem_wr (th_alloc rt) th True)"
    using thread_slot_spec [OF assms(7), of "opt_id opt"] False by (simp add: F_def th_def opt_def)
  show ?thesis
  proof (cases "opt_stack_size opt < 64")
    case True
    then show ?thesis using False thF slot by (simp add: rt'_def thread_create_svc_def opt_def)
  next
    case small: False
    then have big: "64 \<le> opt_stack_size opt" by simp
    define m where "m = mem_fill base (replicate (opt_stack_size opt div 4) 0xdeadbeef) (mem rt)"
    define rt0 where "rt0 = rt\<lparr>th_alloc := bit_mem_wr (th_alloc rt) th True, mem := m, th_inf := (th_inf rt)(th := arg_ld rt arg 4)\<rparr>"
    define rt1 where "rt1 = sched_setup th (opt_priority opt) rt0"
    have "unat (sched_limit rt0) \<le> 32" "opt_priority opt < 256"
      using assms(9) take_bit_nat_less_exp [of 8 "unat (drop_bit 16 opt)"]
      by (simp_all add: rt0_def opt_priority_def unsigned_take_bit_eq)
    note sl = sched_setup_slice [OF this rt1_def]
    note eq = thread_create_eq [OF slot th(1,2), of c m rt1 im self,
        OF big [unfolded opt_def] c_def [unfolded opt_def base_def, THEN meta_eq_to_obj_eq] assms(10) [unfolded opt_def base_def]
          m_def [unfolded opt_def base_def] rt1_def [unfolded opt_def rt0_def], folded rt'_def opt_def]
    have arg: "\<not> in_block c 16 arg" using assms(10) [THEN spec, of 0] by simp
    let ?fc = "fresh_context im (arg_ld rt arg 0) (arg_ld rt arg 1)"
    have "mem rt' (c + 4 * of_nat i) = mem_fill c ?fc m (c + 4 * of_nat i)" if "i < 16" for i
    proof -
      have "c + 4 * of_nat i \<noteq> arg" using arg that by (auto simp: in_block_def)
      then show ?thesis by (simp add: eq)
    qed
    then have "mem_words c 16 (mem rt') = mem_words c 16 (mem_fill c ?fc m)" by (simp add: mem_words_def)
    also have "\<dots> = ?fc" using mem_fill_words [of ?fc c m] by (simp add: fresh_context_eq(2))
    finally have words: "mem_words c 16 (mem rt') = ?fc" .
    have slice: "slice_ok rt' th" "unat (sched_limit rt') \<le> 32" using sl(1,3) by (simp_all add: eq slice_ok_def)
    have other: "ctx rt' t = ctx rt t" "bit (wq_lst rt' w) t \<longleftrightarrow> bit (wq_lst rt w) t" if "t \<noteq> th" for t w
      using that by (simp_all add: eq)
    have "mem rt' arg = of_nat th + 1" "ctx rt' th = c" "bit (wq_paused rt') th \<longleftrightarrow> opt_paused opt"
      "\<not> opt_paused opt \<Longrightarrow> bit (wq_ready rt') th"
      using th(1) by (simp_all add: eq)
    moreover have "bitset (th_alloc rt') = insert th (bitset (th_alloc rt))"
      using th(1) by (simp add: eq rt1_def rt0_def bitset_put)
    ultimately show ?thesis
      unfolding if_not_P [OF False] if_not_P [OF small] using thF words slice other by blast
  qed
qed

definition image_example :: image where
  "image_example = \<lparr>exit_stub = 0x8100, thread_exit = 0x8120, idle_task = 0x8140, idle_stack_base = 0x20004000,
     main_stack = 0x20003fc0, main_inf = 0x9000, idle_inf = 0x9020, except_stack = 0x20004100,
     dbgmon_stack = 0x20004300, dbgmon_bootstrap = 0x8160, dbgmon_null_task = 0x8180\<rparr>"

text \<open>Thread 0 asks for a thread number 3 (index 2) while the indices 0 and 2 are in use.\<close>
definition create_example :: thinkos_rt where
  "create_example = rt_clear\<lparr>wq_lst := (\<lambda>_. 0)(0 := 0x101), th_alloc := 0xffffff05, sched_limit := 20,
     mem := (\<lambda>_. 0)(0x1000 := 0x8001, 0x1004 := 7, 0x1008 := 0x2000, 0x100c := 0x03100100)\<rparr>"

lemma create_example_frame:
  "\<forall>i<5. \<not> in_block 0x2000 (opt_stack_size 0x03100100 div 4) (0x1000 + 4 * of_nat i)
     \<and> \<not> in_block (context_at (0x2000 + of_nat (opt_stack_size 0x03100100))) 16 (0x1000 + 4 * of_nat i)"
proof (intro allI impI)
  fix i :: nat
  assume "i < 5"
  then have x: "unat (0x1000 + 4 * of_nat i :: u32) = 0x1000 + 4 * i"
    using unat_word_at [of "0x1000" i] by simp
  have s: "opt_stack_size 0x03100100 = 0x100" "context_at 0x2100 = 0x20c0" by (code_simp, code_simp)
  show "\<not> in_block 0x2000 (opt_stack_size 0x03100100 div 4) (0x1000 + 4 * of_nat i)
     \<and> \<not> in_block (context_at (0x2000 + of_nat (opt_stack_size 0x03100100))) 16 (0x1000 + 4 * of_nat i)"
    using x \<open>i < 5\<close> in_block_range [of "0x2000" 64 "0x1000 + 4 * of_nat i"] in_block_range [of "0x20c0" 16 "0x1000 + 4 * of_nat i"]
    by (auto simp: s)
qed


theorem thread_create_spec_witness:
  "mem (thread_create_svc image_example 0x1000 0 create_example) 0x1000 = 4
   \<and> bit (wq_ready (thread_create_svc image_example 0x1000 0 create_example)) 3"
proof -
  let ?rt = create_example
  define F where "F = {m :: nat. m < 8 \<and> \<not> bit (0xffffff05 :: u32) m}"
  have F: "F = {1, 3, 4, 5, 6, 7}"
  proof -
    have "F = set (filter (\<lambda>m. \<not> bit (0xffffff05 :: u32) m) [0..<8])" by (auto simp: F_def)
    also have "\<dots> = {1, 3, 4, 5, 6, 7}" by code_simp
    finally show ?thesis .
  qed
  have o: "opt_id 0x03100100 = 3" "opt_stack_size 0x03100100 = 0x100" "\<not> opt_paused 0x03100100"
    by (code_simp, code_simp, code_simp)
  have c: "{m \<in> F. 2 \<le> m} = {3, 4, 5, 6, 7}" by (auto simp: F)
  have s: "slot_choice (opt_id 0x03100100 - 1) F = 3" by (simp add: slot_choice_def o c)
  have a: "arg_ld ?rt 0x1000 3 = 0x03100100" "arg_ld ?rt 0x1000 2 = 0x2000" "th_alloc ?rt = 0xffffff05"
    "sched_limit ?rt = 20" "th_stat ?rt = (\<lambda>_. 0)"
    by (simp_all add: create_example_def arg_ld_def rt_clear_def)
  have l: "list_all (bit (0xffffff05 :: u32)) [8..<32]" by code_simp
  have ok: "word_bmp_ok 8 0xffffff05"
    unfolding word_bmp_ok_def using l by (metis list_all_iff set_upt atLeastLessThan_iff)
  have ne: "F \<noteq> {}" using F by blast
  note t = thread_create_spec [where rt = ?rt and arg = "0x1000" and im = image_example and self = 0, unfolded a F_def [symmetric] s,
    unfolded if_not_P [OF ne]]
  have nb: "\<not> opt_stack_size 0x03100100 < 64" by (simp add: o(2))
  have "(mem (thread_create_svc image_example 0x1000 0 create_example) 0x1000 = of_nat 3 + 1)
     \<and> (\<not> opt_paused 0x03100100 \<longrightarrow> bit (wq_ready (thread_create_svc image_example 0x1000 0 create_example)) 3)"
  proof -
    have "\<forall>m\<in>F. (0 :: nat) = 0" "unat (20 :: u32) \<le> 32" by simp_all
    then show ?thesis using t [OF ok _ _ create_example_frame, unfolded if_not_P [OF nb]] by blast
  qed
  then show ?thesis using o(3) by simp
qed


section \<open>Termination\<close>

lemma join_wakeup_step: "ctx_r0_st th code (wakeup wq th rt) = wakeup_return wq th code rt"
  by (simp add: wakeup_is_return wakeup_return_eq ctx_r0_st_eq)

lemma join_wakeup_eq: "join_wakeup wq code rt = wakeup_all_return wq code rt"
proof (induction wq code rt rule: join_wakeup.induct)
  case (1 wq code rt)
  then show ?case
    by (simp add: join_wakeup.simps [of wq code rt] wakeup_all_return.simps [of wq code rt] Let_def join_wakeup_step)
qed

lemma abort_limit:
  "\<exists>l. fold (\<lambda>j rt. if j = t \<or> ctx rt j = 0 then rt
             else if unat (sched_limit rt) < unat (sched_pri rt j)
             then rt\<lparr>sched_limit := ucast (sched_pri rt j)\<rparr> else rt) js rt = rt\<lparr>sched_limit := l\<rparr>
     \<and> unat (sched_limit rt) \<le> unat l
     \<and> (unat (sched_limit rt) \<le> 32 \<longrightarrow> (\<forall>j\<in>set js. unat (sched_pri rt j) \<le> 32) \<longrightarrow> unat l \<le> 32)"
  (is "\<exists>l. fold ?f js rt = _ \<and> _ \<and> _")
proof (induction js arbitrary: rt)
  case Nil
  show ?case by (intro exI [of _ "sched_limit rt"]) simp
next
  case (Cons j js)
  obtain l where l: "fold ?f js (?f j rt) = (?f j rt)\<lparr>sched_limit := l\<rparr>" "unat (sched_limit (?f j rt)) \<le> unat l"
    "unat (sched_limit (?f j rt)) \<le> 32 \<longrightarrow> (\<forall>i\<in>set js. unat (sched_pri (?f j rt) i) \<le> 32) \<longrightarrow> unat l \<le> 32"
    using Cons.IH by blast
  have p: "sched_pri (?f j rt) = sched_pri rt" by simp
  have u: "unat (ucast (sched_pri rt j) :: u32) = unat (sched_pri rt j)"
  proof -
    have "unat (sched_pri rt j) < 2 ^ LENGTH(8)" by (rule unsigned_less)
    then show ?thesis by (simp add: unsigned_ucast_eq take_bit_nat_eq_self)
  qed
  have "(?f j rt)\<lparr>sched_limit := l\<rparr> = rt\<lparr>sched_limit := l\<rparr>" by simp
  moreover have "unat (sched_limit rt) \<le> unat (sched_limit (?f j rt))" by (simp add: u)
  moreover have "unat (sched_limit rt) \<le> 32 \<Longrightarrow> unat (sched_pri rt j) \<le> 32 \<Longrightarrow> unat (sched_limit (?f j rt)) \<le> 32"
    by (simp add: u)
  ultimately show ?case using l p by (intro exI [of _ l]) simp
qed

lemma thread_abort_eq:
  obtains l where "thread_abort t rt = rt\<lparr>sched_limit := l, th_alloc := bit_mem_wr (th_alloc rt) t False,
      active := (if t = active rt then 9 else active rt), ctx := (ctx rt)(t := 0),
      wq_lst := suspend_wq t (wq_lst rt), pendsv := True\<rparr>"
    "unat (sched_limit rt) \<le> unat l"
    "unat (sched_limit rt) \<le> 32 \<Longrightarrow> (\<And>j. j < 8 \<Longrightarrow> unat (sched_pri rt j) \<le> 32) \<Longrightarrow> unat l \<le> 32"
proof -
  obtain l where l: "fold (\<lambda>j rt. if j = t \<or> ctx rt j = 0 then rt
             else if unat (sched_limit rt) < unat (sched_pri rt j)
             then rt\<lparr>sched_limit := ucast (sched_pri rt j)\<rparr> else rt) [0..<THINKOS_THREADS_MAX] rt = rt\<lparr>sched_limit := l\<rparr>"
    "unat (sched_limit rt) \<le> unat l"
    "unat (sched_limit rt) \<le> 32 \<longrightarrow> (\<forall>j\<in>set [0..<THINKOS_THREADS_MAX]. unat (sched_pri rt j) \<le> 32) \<longrightarrow> unat l \<le> 32"
    using abort_limit [of t "[0..<THINKOS_THREADS_MAX]" rt] by blast
  have e: "thread_abort t rt = rt\<lparr>sched_limit := l, th_alloc := bit_mem_wr (th_alloc rt) t False,
      active := (if t = active rt then 9 else active rt), ctx := (ctx rt)(t := 0),
      wq_lst := suspend_wq t (wq_lst rt), pendsv := True\<rparr>"
    unfolding thread_abort_def l(1) Let_def suspend_eq defer_sched_def
    by (cases "t = active rt") simp_all
  show thesis using that [OF e l(2)] l(3) by simp
qed

text \<open>The call up to the release of the thread.\<close>
definition detach :: "nat \<Rightarrow> thinkos_rt \<Rightarrow> thinkos_rt" where
  "detach t rt = rt\<lparr>th_stat := (th_stat rt)(t := 0),
     wq_lst := (\<lambda>w. if w = 1 \<or> w = th_stat rt t div 2 then bit_mem_wr (wq_lst rt w) t False else wq_lst rt w)\<rparr>"

lemma detach_fields [simp]:
  "mem (detach t rt) = mem rt" "ctx (detach t rt) = ctx rt" "th_alloc (detach t rt) = th_alloc rt"
  "active (detach t rt) = active rt" "clock (detach t rt) = clock rt" "ticks (detach t rt) = ticks rt"
  "irq_th (detach t rt) = irq_th rt" "th_stat (detach t rt) = (th_stat rt)(t := 0)"
  by (simp_all add: detach_def)

lemma terminate_eq:
  assumes "t < 8" "bit (th_alloc rt) t" "arg_ld rt arg 0 = of_nat t + 1 \<or> (arg_ld rt arg 0 = 0 \<and> self = t)"
  shows "\<exists>b. terminate_svc arg self rt = thread_abort t ((wakeup_all_return (47 + t) (arg_ld rt arg 1) (detach t rt))\<lparr>pendsv := b\<rparr>)"
proof -
  let ?id = "if arg_ld rt arg 0 = 0 then of_nat self else arg_ld rt arg 0 - 1 :: u32"
  have t: "unat (of_nat t :: u32) = t" using assms(1) by (simp add: unat_of_nat)
  have "unat (of_nat (Suc t) :: u32) = Suc t" using assms(1) unfolding unat_of_nat by simp
  then have ne: "of_nat t + 1 \<noteq> (0 :: u32)" by (metis add.commute nat.distinct(1) of_nat_Suc unat_0)
  have id: "?id = of_nat t" using assms(3) ne by auto
  have v: "\<not> (of_nat THINKOS_THREADS_MAX :: u32) \<le> of_nat t"
    using t assms(1) by (simp add: word_le_nat_alt)
  have d: "wq_bit (th_stat rt t div 2) t False (th_stat_st t 0 (wq_bit THINKOS_WQ_TMSHARE t False rt)) = detach t rt"
    using assms(1) by (auto simp: kernel_simps detach_def fun_eq_iff)
  let ?J = "wakeup_all_return (47 + t) (arg_ld rt arg 1) (detach t rt)"
  have j: "(if wq_head (47 + t) (detach t rt) \<noteq> THINKOS_THREAD_NULL
      then defer_sched (wakeup_all_return (47 + t) (arg_ld rt arg 1) (wakeup_return (47 + t) (wq_head (47 + t) (detach t rt)) (arg_ld rt arg 1) (detach t rt)))
      else detach t rt) = ?J\<lparr>pendsv := (pendsv ?J \<or> wq_head (47 + t) (detach t rt) \<noteq> THINKOS_THREAD_NULL)\<rparr>"
    using wakeup_all_return_step [of "47 + t" "detach t rt"] wakeup_all_return_empty [of "detach t rt" "47 + t"]
    by (simp add: defer_sched_def wq_head_eq ctz_eq_32)
  have st: "th_stat (wq_bit THINKOS_WQ_TMSHARE t False rt) t = th_stat rt t" by (simp add: wq_bit_def)
  show ?thesis
    unfolding terminate_svc_def Let_def id if_not_P [OF v] t
    unfolding st d join_wakeup_step join_wakeup_eq wq_layout(9)
    unfolding j using assms(2) by (auto simp: bit_mem_rd_def)
qed


text \<open>The fields after a successful call.\<close>
lemma terminate_fields:
  assumes "t < 8" "bit (th_alloc rt) t" "arg_ld rt arg 0 = of_nat t + 1 \<or> (arg_ld rt arg 0 = 0 \<and> self = t)"
    and "\<not> bit (wq_lst rt (47 + t)) t" and rt': "rt' = terminate_svc arg self rt"
  shows "wq_lst rt' (47 + t) = 0"
    "bit (wq_lst rt (47 + t)) j \<Longrightarrow> bit (wq_ready rt') j \<and> th_stat rt' j = 0"
    "mem rt' a = (if \<exists>j. bit (wq_lst rt (47 + t)) j \<and> ctx rt j \<noteq> 0 \<and> a = ctx rt j + 32 then arg_ld rt arg 1 else mem rt a)"
    "\<not> bit (wq_ready rt') t" "\<not> bit (wq_tmshare rt') t" "th_alloc rt' = bit_mem_wr (th_alloc rt) t False"
    "ctx rt' = (ctx rt)(t := 0)" "active rt' = (if active rt = t then 9 else active rt)" "pendsv rt'" "th_stat rt' t = 0"
    "clock rt' = clock rt" "ticks rt' = ticks rt"
    "bit (wq_clock rt') t \<longleftrightarrow> bit (wq_clock rt) t \<and> th_stat rt t div 2 \<noteq> 2"
    "irq_th rt' = irq_th rt"
proof -
  let ?D = "detach t rt"
  define v where "v = arg_ld rt arg 1"
  define R where "R = wakeup_all_return (47 + t) v ?D"
  obtain b where b: "rt' = thread_abort t (R\<lparr>pendsv := b\<rparr>)" using terminate_eq [OF assms(1-3)] rt' by (auto simp: R_def v_def)
  have J: "wq_lst ?D (47 + t) = wq_lst rt (47 + t)" using assms(1,4) by (auto simp: detach_def)
  have q: "wq_lst R (47 + t) = 0" "bitset (wq_ready R) = bitset (wq_ready ?D) \<union> bitset (wq_lst rt (47 + t))"
    "bitset (wq_clock R) = bitset (wq_clock ?D) - bitset (wq_lst rt (47 + t))"
    "\<And>w. w \<noteq> 0 \<Longrightarrow> w \<noteq> 2 \<Longrightarrow> w \<noteq> 47 + t \<Longrightarrow> wq_lst R w = wq_lst ?D w"
    "\<And>j. th_stat R j = (if bit (wq_lst rt (47 + t)) j then 0 else th_stat ?D j)"
    using wakeup_all_return_queues [of "47 + t" v ?D, folded R_def] J by simp_all
  obtain q' st w where fr: "R = ?D\<lparr>wq_lst := q', th_stat := st,
     mem := (\<lambda>a. if \<exists>j. bit (wq_lst ?D (47 + t)) j \<and> ctx ?D j \<noteq> 0 \<and> a = ctx ?D j + 32 then v else mem ?D a), wild := w\<rparr>"
    using wakeup_all_return_frame [of "47 + t" v ?D, folded R_def] by blast
  have f: "ctx R = ctx rt" "th_alloc R = th_alloc rt" "active R = active rt" "clock R = clock rt" "ticks R = ticks rt"
    "irq_th R = irq_th rt"
    "mem R = (\<lambda>a. if \<exists>j. bit (wq_lst rt (47 + t)) j \<and> ctx rt j \<noteq> 0 \<and> a = ctx rt j + 32 then v else mem rt a)"
    by (subst fr, simp add: J cong: if_cong)+
  obtain l where l: "thread_abort t (R\<lparr>pendsv := b\<rparr>) = (R\<lparr>pendsv := b\<rparr>)\<lparr>sched_limit := l, th_alloc := bit_mem_wr (th_alloc rt) t False,
      active := (if t = active rt then 9 else active rt), ctx := (ctx rt)(t := 0),
      wq_lst := suspend_wq t (wq_lst R), pendsv := True\<rparr>"
    by (rule thread_abort_eq [of t "R\<lparr>pendsv := b\<rparr>"]) (simp add: f cong: if_cong)
  note rt' = b [unfolded l]
  show "wq_lst rt' (47 + t) = 0" by (simp add: rt' q(1))
  have tm: "\<not> bit (wq_lst R 1) t" using q(4) [of 1] by (simp add: detach_def)
  show "\<not> bit (wq_ready rt') t" "\<not> bit (wq_tmshare rt') t" using tm by (simp_all add: rt' suspend_wq_bits)
  show "bit (wq_lst rt (47 + t)) j \<Longrightarrow> bit (wq_ready rt') j \<and> th_stat rt' j = 0"
    using q(2,5) assms(4) by (auto simp: rt' suspend_wq_bits set_eq_iff)
  show "mem rt' a = (if \<exists>j. bit (wq_lst rt (47 + t)) j \<and> ctx rt j \<noteq> 0 \<and> a = ctx rt j + 32 then arg_ld rt arg 1 else mem rt a)"
    unfolding v_def [symmetric] by (simp add: rt' f(7))
  show "th_alloc rt' = bit_mem_wr (th_alloc rt) t False" "ctx rt' = (ctx rt)(t := 0)"
    "active rt' = (if active rt = t then 9 else active rt)" "pendsv rt'" "clock rt' = clock rt" "ticks rt' = ticks rt"
    "irq_th rt' = irq_th rt"
    using f by (simp_all add: rt')
  show "th_stat rt' t = 0" using q(5) [of t] assms(4) by (simp add: rt')
  have "bit (wq_clock R) t \<longleftrightarrow> bit (wq_clock ?D) t" using q(3) assms(4) by (auto simp: set_eq_iff)
  then show "bit (wq_clock rt') t \<longleftrightarrow> bit (wq_clock rt) t \<and> th_stat rt t div 2 \<noteq> 2"
    by (auto simp: rt' detach_def)
qed


text \<open>
  C31. Terminating a thread wakes every thread that joined it, with the exit code as
  the value its join returns, frees the thread number and the context, and leaves
  the terminated thread neither ready nor in turn nor active.
\<close>
theorem terminate_wakes_joiners:
  assumes "t < 8" "bit (th_alloc rt) t" "arg_ld rt arg 0 = of_nat t + 1 \<or> (arg_ld rt arg 0 = 0 \<and> self = t)"
    and "\<not> bit (wq_lst rt (THINKOS_JOIN_BASE + t)) t" "rt' = terminate_svc arg self rt"
  shows "wq_lst rt' (THINKOS_JOIN_BASE + t) = 0
    \<and> (\<forall>j. bit (wq_lst rt (THINKOS_JOIN_BASE + t)) j \<longrightarrow> bit (wq_ready rt') j \<and> th_stat rt' j = 0
         \<and> (ctx rt j \<noteq> 0 \<longrightarrow> mem rt' (ctx rt j + 4 * of_nat CTX_R0) = arg_ld rt arg 1))
    \<and> \<not> bit (wq_ready rt') t \<and> \<not> bit (wq_tmshare rt') t \<and> active rt' \<noteq> t
    \<and> bitset (th_alloc rt') = bitset (th_alloc rt) - {t} \<and> ctx rt' t = 0 \<and> pendsv rt'"
proof -
  have n: "\<not> bit (wq_lst rt (47 + t)) t" using assms(4) by simp
  note f = terminate_fields [OF assms(1-3) n assms(5)]
  have "active rt' \<noteq> t" using f(8) assms(1) by auto
  then show ?thesis
    using f(1,2,3,4,5,6,7,9) by (auto simp: bitset_clear)
qed

text \<open>Thread 3 runs; threads 1 and 5 wait for its end.\<close>
definition join_example :: thinkos_rt where
  "join_example = rt_clear\<lparr>wq_lst := (\<lambda>_. 0)(0 := 0x108, 50 := 0x22), th_stat := (\<lambda>_. 0)(1 := 100, 5 := 100),
     active := 3, th_alloc := 0xffffff2a, ctx := (\<lambda>t. 0x3000 + 0x100 * of_nat t), mem := (\<lambda>_. 0)(0x1004 := 77)\<rparr>"

theorem terminate_wakes_joiners_witness:
  "mem (terminate_svc 0x1000 3 join_example) 0x3120 = 77 \<and> mem (terminate_svc 0x1000 3 join_example) 0x3520 = 77
   \<and> bit (wq_ready (terminate_svc 0x1000 3 join_example)) 5"
proof -
  have e: "wq_lst join_example (THINKOS_JOIN_BASE + 3) = 0x22" "th_alloc join_example = 0xffffff2a"
    "arg_ld join_example 0x1000 0 = 0" "arg_ld join_example 0x1000 1 = 77"
    "ctx join_example 1 = 0x3100" "ctx join_example 5 = 0x3500"
    by (simp_all add: join_example_def arg_ld_def)
  have b: "bit (0x22 :: u32) 1" "bit (0x22 :: u32) 5" "\<not> bit (0x22 :: u32) 3" "bit (0xffffff2a :: u32) 3"
    by (simp_all add: bit_numeral_rec)
  have "\<forall>j. bit (0x22 :: u32) j \<longrightarrow> bit (wq_ready (terminate_svc 0x1000 3 join_example)) j
      \<and> th_stat (terminate_svc 0x1000 3 join_example) j = 0
      \<and> (ctx join_example j \<noteq> 0 \<longrightarrow> mem (terminate_svc 0x1000 3 join_example) (ctx join_example j + 4 * of_nat CTX_R0) = 77)"
    using terminate_wakes_joiners [of 3 join_example "0x1000" 3, OF _ b(4) [folded e(2)] _ b(3) [folded e(1)] refl] e(1-4)
    by (simp only: e) (auto simp del: mult_numeral_1)
  from spec [OF this, of 1] spec [OF this, of 5] show ?thesis
    using b e(5,6) by simp
qed

text \<open>
  C32. A thread terminated during a wait with timeout stays in the clock queue: at
  the tick of its timeout it is made ready again although its context is gone, and
  when it is the lowest numbered ready thread the scheduler switches to a context
  at address zero.
\<close>
theorem terminate_zombie:
  assumes "t < 8" "bit (th_alloc rt) t" "arg_ld rt arg 0 = of_nat t + 1" "active rt \<noteq> t"
    and "\<not> bit (wq_lst rt (THINKOS_JOIN_BASE + t)) t" "expires rt t" "th_stat rt t div 2 \<noteq> THINKOS_WQ_CLOCK"
    and rt': "rt' = terminate_svc arg self rt"
  shows "\<not> bit (th_alloc rt') t \<and> ctx (cm3_systick_isr rt') t = 0 \<and> bit (wq_ready (cm3_systick_isr rt')) t
    \<and> (Min (bitset (wq_ready (cm3_systick_isr rt'))) = t \<longrightarrow>
         active (cm3_pendsv_isr (cm3_systick_isr rt')) = t \<and> psp (cm3_pendsv_isr (cm3_systick_isr rt')) = 32)"
proof -
  have n: "\<not> bit (wq_lst rt (47 + t)) t" using assms(5) by simp
  note f = terminate_fields [OF assms(1,2) disjI1 [OF assms(3)] n rt']
  let ?k = "tick_wake rt'"
  note k = tick_wake_spec [of rt', unfolded ticked_def, simplified]
  have ex: "expires rt' t" using assms(6,7) f by (simp add: expires_def due_def)
  have r: "bit (wq_ready ?k) t" "\<not> bit (wq_tmshare ?k) t" "active ?k = active rt'" "ctx ?k = ctx rt'"
    using k ex f(5) by simp_all
  have act: "active rt' \<noteq> t" using f(8) assms(4) by simp
  have ready: "bit (wq_ready (cm3_systick_isr rt')) t"
    unfolding systick_eq using timeshare_other [of t ?k 0] r act by simp
  have ctx0: "ctx (cm3_systick_isr rt') t = 0" using r f(7) by (simp add: systick_eq)
  note p = pendsv_fields [OF refl, where rt = "cm3_systick_isr rt'"]
  have "wq_ready (cm3_systick_isr rt') \<noteq> 0" using ready by auto
  moreover have "active (cm3_systick_isr rt') = active rt'" by (simp add: systick_eq r)
  ultimately show ?thesis
    using ready ctx0 f(6) p(1,5,7) act by (auto simp: bitset_ctz_min)
qed

text \<open>Thread 3 waits for semaphore 0 for one more tick; thread 5 terminates it.\<close>
definition zombie_example :: thinkos_rt where
  "zombie_example = pause_example\<lparr>clock := (\<lambda>_. 1), mem := (\<lambda>_. 0)(0x1000 := 4)\<rparr>"

theorem terminate_zombie_witness:
  "bit (wq_ready (cm3_systick_isr (terminate_svc 0x1000 5 zombie_example))) 3
   \<and> ctx (cm3_systick_isr (terminate_svc 0x1000 5 zombie_example)) 3 = 0"
proof -
  have "expires zombie_example 3"
    by (simp add: expires_def due_def zombie_example_def pause_example_def bit_numeral_rec rt_clear_def)
  moreover have "bit (th_alloc zombie_example) 3" "arg_ld zombie_example 0x1000 0 = of_nat 3 + 1" "active zombie_example \<noteq> 3"
    "\<not> bit (wq_lst zombie_example (THINKOS_JOIN_BASE + 3)) 3" "th_stat zombie_example 3 div 2 \<noteq> THINKOS_WQ_CLOCK"
    by (simp_all add: zombie_example_def pause_example_def arg_ld_def bit_numeral_rec)
  ultimately show ?thesis
    using terminate_zombie [of 3 zombie_example "0x1000", OF _ _ _ _ _ _ _ refl, of 5] by simp
qed


section \<open>Exit and join\<close>

lemma exit_fields:
  assumes "self < 8" and rt': "rt' = exit_svc im arg self rt"
  shows "mem rt' = (mem rt)(arg + 24 := thread_exit im)" "ctx rt' = ctx rt" "th_alloc rt' = th_alloc rt"
    "wq_lst rt' = (if wq_lst rt (47 + self) = 0
       then suspend_wq self ((wq_lst rt)(58 := bit_mem_wr (wq_canceled rt) self True)) else wq_lst rt)"
  using assms(1) by (simp_all add: rt' exit_svc_def kernel_simps wq_insert_def Let_def)

lemma join_fields:
  assumes "t < 8" "bit (th_alloc rt) t" "arg_ld rt arg 0 = of_nat t + 1" and rt': "rt' = join_svc arg self rt"
  defines "q \<equiv> (if bit (wq_canceled rt) t
       then (wq_lst rt)(58 := bit_mem_wr (wq_canceled rt) t False, 0 := bit_mem_wr (wq_ready rt) t True) else wq_lst rt)"
  shows "mem rt' = (mem rt)(arg := -1)" "ctx rt' = ctx rt" "th_alloc rt' = th_alloc rt"
    "wq_lst rt' = suspend_wq self (q(47 + t := bit_mem_wr (q (47 + t)) self True))"
    "th_stat rt' = (th_stat rt)(self := 2 * (47 + t))"
proof -
  have t: "unat (of_nat t :: u32) = t" using assms(1) by (simp add: unat_of_nat)
  have v: "\<not> (of_nat THINKOS_THREADS_MAX :: u32) \<le> of_nat t"
    using t assms(1) by (simp add: word_le_nat_alt)
  have id: "arg_ld rt arg 0 - 1 = of_nat t" using assms(3) by simp
  have e: "rt' = arg_ret arg (- 1) (defer_sched (suspend self (wq_insert (47 + t) self (rt\<lparr>wq_lst := q\<rparr>))))"
    unfolding rt' join_svc_def Let_def id if_not_P [OF v] t
    using assms(2) by (simp add: bit_mem_rd_def q_def kernel_simps)
  show "mem rt' = (mem rt)(arg := -1)" "ctx rt' = ctx rt" "th_alloc rt' = th_alloc rt"
    "wq_lst rt' = suspend_wq self (q(47 + t := bit_mem_wr (q (47 + t)) self True))"
    "th_stat rt' = (th_stat rt)(self := 2 * (47 + t))"
    by (simp_all add: e wq_insert_def kernel_simps)
qed


text \<open>With another thread besides the idle one ready, suspending only clears the bit.\<close>
lemma suspend_wq_ready: "bit (q 0) t \<Longrightarrow> t \<noteq> s \<Longrightarrow> t \<noteq> 8 \<Longrightarrow> suspend_wq s q = q(0 := bit_mem_wr (q 0) s False)"
proof -
  assume t: "bit (q 0) t" "t \<noteq> s" "t \<noteq> 8"
  have "bit (bit_mem_wr (q 0) s False) t" "\<not> bit (push_bit 8 (1 :: u32)) t"
    using t by (simp_all add: bit_push_bit_iff bit_1_iff del: push_bit_of_1)
  then have "\<not> collects s q" unfolding collects_def by metis
  then show ?thesis by (simp add: suspend_wq_def)
qed

lemma exit_th_stat:
  "self < 8 \<Longrightarrow> th_stat (exit_svc im arg self rt) =
     (if wq_lst rt (47 + self) = 0 then (th_stat rt)(self := 116) else th_stat rt)"
  by (simp add: exit_svc_def kernel_simps wq_insert_def Let_def)

text \<open>
  C33. The order of exit and join does not matter: whether thread \<open>t\<close> exits before
  or after thread \<open>j\<close> calls join on it, the wait queues, the memory and the
  contexts end up the same, with \<open>t\<close> ready at its exit routine and \<open>j\<close> its only
  joiner. Only the status word of \<open>t\<close> keeps naming the canceled queue it has left
  in the first case.
\<close>
theorem exit_join_order:
  assumes "t < 8" "j < 8" "t \<noteq> j" "bit (th_alloc rt) t" "arg_ld rt b 0 = of_nat t + 1" "b \<noteq> a + 24"
    and "wq_lst rt (THINKOS_JOIN_BASE + t) = 0" "bit (wq_ready rt) t" "bit (wq_ready rt) j" "\<not> bit (wq_canceled rt) t"
    and ej: "ej = join_svc b j (exit_svc im a t rt)" and je: "je = exit_svc im a t (join_svc b j rt)"
  shows "wq_lst ej = wq_lst je \<and> mem ej = mem je \<and> ctx ej = ctx je \<and> th_alloc ej = th_alloc je
    \<and> wq_lst ej = (wq_lst rt)(THINKOS_WQ_READY := bit_mem_wr (wq_ready rt) j False, THINKOS_JOIN_BASE + t := push_bit j 1)
    \<and> mem ej (a + 24) = thread_exit im \<and> th_stat ej t = 2 * THINKOS_WQ_CANCELED \<and> th_stat je t = th_stat rt t"
proof -
  have q0: "wq_lst rt (47 + t) = 0" and nc: "\<not> bit (wq_lst rt 58) t" using assms(7,10) by simp_all
  have one: "bit_mem_wr 0 j True = push_bit j 1"
    using assms(2) by (intro bit_word_eqI) (auto simp: bit_push_bit_iff bit_1_iff simp del: push_bit_of_1)
  define x where "x = exit_svc im a t rt"
  note xf = exit_fields [OF assms(1) x_def]
  have xq: "wq_lst x = (wq_lst rt)(58 := bit_mem_wr (wq_canceled rt) t True, 0 := bit_mem_wr (wq_ready rt) t False)"
    using xf(4) q0 suspend_wq_ready [of "(wq_lst rt)(58 := bit_mem_wr (wq_canceled rt) t True)" j t] assms(2,3,9) by simp
  have xa: "arg_ld x b 0 = of_nat t + 1" "bit (th_alloc x) t"
    using assms(4,5,6) by (simp_all add: xf arg_ld_def)
  note jf = join_fields [OF assms(1) xa(2,1) ej [folded x_def]]
  let ?q = "(wq_lst rt)(47 + t := push_bit j 1)"
  have sq: "suspend_wq j ?q = ?q(0 := bit_mem_wr (wq_ready rt) j False)"
    using suspend_wq_ready [of ?q t j] assms(1,3,8) by simp
  have undone: "(wq_lst x)(58 := bit_mem_wr (wq_lst x 58) t False, 0 := bit_mem_wr (wq_lst x 0) t True) = wq_lst rt"
    using nc assms(1,8) by (auto simp: xq fun_eq_iff)
  have cx: "bit (wq_canceled x) t" using assms(1) by (simp add: xq)
  have e1: "wq_lst ej = ?q(0 := bit_mem_wr (wq_ready rt) j False)"
    using jf(4) cx undone sq q0 one by simp
  define y where "y = join_svc b j rt"
  note yf = join_fields [OF assms(1,4,5) y_def]
  have yq: "wq_lst y = ?q(0 := bit_mem_wr (wq_ready rt) j False)" using yf(4) nc q0 one sq by simp
  note zf = exit_fields [OF assms(1) je [folded y_def]]
  have "bit (push_bit j (1 :: u32)) j" using assms(2) unfolding one [symmetric] by simp
  then have "push_bit j 1 \<noteq> (0 :: u32)" by (metis bit_0_eq bot_apply bot_bool_def)
  then have e2: "wq_lst je = wq_lst y" "th_stat je = th_stat y" using zf(4) exit_th_stat [OF assms(1), of im a y] je
    by (simp_all add: yq y_def [symmetric])
  have st: "th_stat ej t = 116" "th_stat y t = th_stat rt t"
    using exit_th_stat [OF assms(1), of im a rt] q0 assms(3) jf(5) yf(5) by (simp_all add: x_def)
  have m: "mem ej = (mem rt)(a + 24 := thread_exit im, b := -1)" "mem je = (mem rt)(b := -1, a + 24 := thread_exit im)"
    "ctx ej = ctx rt" "ctx je = ctx rt" "th_alloc ej = th_alloc rt" "th_alloc je = th_alloc rt"
    by (simp_all add: jf xf yf zf)
  show ?thesis
    using e1 e2 yq st m assms(6) by (simp add: fun_upd_twist)
qed


definition rendezvous_example :: thinkos_rt where
  "rendezvous_example = rt_clear\<lparr>wq_lst := (\<lambda>_. 0)(0 := 0x10a), active := 3, th_alloc := 0xffffff0a,
     ctx := (\<lambda>t. 0x3000 + 0x100 * of_nat t), mem := (\<lambda>_. 0)(0x1000 := 4)\<rparr>"

theorem exit_join_order_witness:
  "wq_lst (join_svc 0x1000 1 (exit_svc image_example 0x2000 3 rendezvous_example))
     = wq_lst (exit_svc image_example 0x2000 3 (join_svc 0x1000 1 rendezvous_example)) \<and> wq_ready rendezvous_example = 0x10a"
proof -
  have "bit (th_alloc rendezvous_example) 3" "arg_ld rendezvous_example 0x1000 0 = of_nat 3 + 1"
    "wq_lst rendezvous_example (THINKOS_JOIN_BASE + 3) = 0" "bit (wq_ready rendezvous_example) 3"
    "bit (wq_ready rendezvous_example) 1" "\<not> bit (wq_canceled rendezvous_example) 3" "wq_ready rendezvous_example = 0x10a"
    by (simp_all add: rendezvous_example_def arg_ld_def bit_numeral_rec)
  then show ?thesis
    using exit_join_order [of 3 1 rendezvous_example "0x1000" "0x2000", OF _ _ _ _ _ _ _ _ _ _ refl refl, of image_example] by simp
qed

end
