(* ===== verification/Irq.thy ===== *)
theory Irq
  imports Thread
begin

text \<open>
  Waiting for interrupts (\<open>thinkos_irq.c\<close>): a thread is assigned to an interrupt
  line and the default handler makes it ready when the interrupt comes. The
  assignment \<open>irq_th\<close> is also what tells, after a wait with timeout, which of the
  two ended it.
\<close>

section \<open>Operations\<close>

definition IRQ_DEF_PRIORITY :: nat where [simp]: "IRQ_DEF_PRIORITY = 4 * 2 ^ 5"
definition IRQ_PRIORITY_VERY_HIGH :: int where [simp]: "IRQ_PRIORITY_VERY_HIGH = 2 * 2 ^ 5"
definition IRQ_PRIORITY_VERY_LOW :: int where [simp]: "IRQ_PRIORITY_VERY_LOW = 6 * 2 ^ 5"

definition cm3_irq_pri_set :: "nat \<Rightarrow> nat \<Rightarrow> thinkos_rt \<Rightarrow> thinkos_rt" where
  "cm3_irq_pri_set irq pri rt = rt\<lparr>irq_pri := (irq_pri rt)(irq := pri)\<rparr>"

text \<open>The body and the loop of \<open>__thinkos_irq_reset_all\<close>.\<close>
definition irq_reset :: "nat \<Rightarrow> thinkos_rt \<Rightarrow> thinkos_rt" where
  "irq_reset irq rt =
     (let rt = cm3_irq_pri_set irq IRQ_DEF_PRIORITY rt
      in rt\<lparr>irq_th := (irq_th rt)(irq := THINKOS_THREAD_IDLE)\<rparr>)"

definition irq_reset_all :: "thinkos_rt \<Rightarrow> thinkos_rt" where
  "irq_reset_all rt = fold irq_reset [0..<THINKOS_IRQ_MAX] rt"

definition irq_wait_svc :: svc_handler where
  "irq_wait_svc arg self rt =
     (let irq = arg_ld rt arg 0 in
      if of_nat THINKOS_IRQ_MAX \<le> irq then arg_ret arg THINKOS_EINVAL rt
      else
        let irq = unat irq;
            rt = arg_ret arg THINKOS_OK rt;
            rt = suspend self rt;
            rt = wq_insert THINKOS_WQ_IRQ self rt;
            rt = rt\<lparr>irq_th := (irq_th rt)(irq := self)\<rparr>;
            rt = defer_sched rt;
            rt = cm3_irq_pend_clr irq rt
        in cm3_irq_enable irq rt)"

definition irq_timedwait_svc :: svc_handler where
  "irq_timedwait_svc arg self rt =
     (let irq = arg_ld rt arg 0; ms = arg_ld rt arg 1 in
      if of_nat THINKOS_IRQ_MAX \<le> irq then arg_ret arg THINKOS_EINVAL rt
      else
        let irq = unat irq;
            rt = suspend self rt;
            rt = tmdwq_insert THINKOS_WQ_IRQ self ms rt;
            rt = rt\<lparr>irq_th := (irq_th rt)(irq := self)\<rparr>;
            rt = defer_sched rt;
            rt = cm3_irq_pend_clr irq rt
        in cm3_irq_enable irq rt)"

text \<open>The second call of the user level function, made after the thread woke up.\<close>
definition irq_timedwait_cleanup_svc :: svc_handler where
  "irq_timedwait_cleanup_svc arg self rt =
     (let irq = arg_ld rt arg 0 in
      if of_nat THINKOS_IRQ_MAX \<le> irq then arg_ret arg THINKOS_EINVAL rt
      else
        let irq = unat irq in
        if irq_th rt irq \<noteq> THINKOS_THREAD_IDLE
        then
          let rt = rt\<lparr>irq_th := (irq_th rt)(irq := THINKOS_THREAD_IDLE)\<rparr>;
              rt = cm3_irq_disable irq rt
          in arg_ret arg THINKOS_ETIMEDOUT rt
        else arg_ret arg THINKOS_OK rt)"

text \<open>The priority a request is limited to; the argument is a signed integer.\<close>
definition irq_pri_limit :: "u32 \<Rightarrow> nat" where
  "irq_pri_limit pri =
     (if IRQ_PRIORITY_VERY_LOW < sint pri then nat IRQ_PRIORITY_VERY_LOW
      else if sint pri < IRQ_PRIORITY_VERY_HIGH then nat IRQ_PRIORITY_VERY_HIGH
      else nat (sint pri))"

text \<open>\<open>irq_max\<close> is the number of vectors in the image; the vectors are in ROM.\<close>
definition irq_ctl_svc :: "u32 \<Rightarrow> svc_handler" where
  "irq_ctl_svc irq_max arg self rt =
     (let req = arg_ld rt arg 0; irq = arg_ld rt arg 1 in
      if irq_max \<le> irq then arg_ret arg THINKOS_EINVAL rt
      else
        let rt = arg_ret arg 0 rt; irq = unat irq in
        if req = 1 then cm3_irq_enable irq rt
        else if req = 0 then cm3_irq_disable irq rt
        else if req = 2 then cm3_irq_pri_set irq (irq_pri_limit (arg_ld rt arg 2)) rt
        else arg_ret arg THINKOS_EINVAL rt)"

declare irq_wait_svc_def [handler_defs] irq_timedwait_svc_def [handler_defs]
  irq_timedwait_cleanup_svc_def [handler_defs] irq_ctl_svc_def [handler_defs]

section \<open>Who is assigned to a line\<close>

lemma irq_reset_all_eq:
  "irq_reset_all rt = rt\<lparr>irq_pri := (\<lambda>i. if i < 80 then 128 else irq_pri rt i),
     irq_th := (\<lambda>i. if i < 80 then 8 else irq_th rt i)\<rparr>"
proof -
  have upd: "((\<lambda>i. if i < n then c else f i)(n := c)) = (\<lambda>i. if i < Suc n then c else f i)" for n c :: nat and f
    by (auto simp: fun_eq_iff)
  have "fold irq_reset [0..<n] rt
      = rt\<lparr>irq_pri := (\<lambda>i. if i < n then 128 else irq_pri rt i), irq_th := (\<lambda>i. if i < n then 8 else irq_th rt i)\<rparr>" for n
  proof (induction n)
    case (Suc n)
    have "irq_reset n (rt\<lparr>irq_pri := f, irq_th := g\<rparr>) = rt\<lparr>irq_pri := f(n := 128), irq_th := g(n := 8)\<rparr>" for f g
      by (simp add: irq_reset_def cm3_irq_pri_set_def)
    then show ?case using upd [of n 128 "irq_pri rt"] upd [of n 8 "irq_th rt"] Suc by simp
  qed simp
  from this [of 80] show ?thesis by (simp add: irq_reset_all_def)
qed

lemma irq_th_frame [simp]:
  "irq_th (wakeup_return wq th v rt) = irq_th rt" "irq_en (wakeup_return wq th v rt) = irq_en rt"
  by (simp_all add: wakeup_return_eq)

lemma isr_irq_th:
  "irq_th (isr_run i rt) irq = (if i = IrqLine irq then 8 else irq_th rt irq)"
  "irq_en (isr_run i rt) irq = (irq_en rt irq \<and> i \<noteq> IrqLine irq)"
proof -
  have "irq_th (isr_run i rt) irq = (if i = IrqLine irq then 8 else irq_th rt irq)
    \<and> irq_en (isr_run i rt) irq = (irq_en rt irq \<and> i \<noteq> IrqLine irq)"
    by (cases i) (simp_all add: isr_defs sem_post_i_def ev_raise_i_def flag_give_i_def gate_open_i_def kernel_simps Let_def split: prod.split)
  then show "irq_th (isr_run i rt) irq = (if i = IrqLine irq then 8 else irq_th rt irq)"
    "irq_en (isr_run i rt) irq = (irq_en rt irq \<and> i \<noteq> IrqLine irq)" by simp_all
qed

lemma systick_loop_irq: "irq_en (systick_loop wq tk rt) = irq_en rt"
proof (induction wq tk rt rule: systick_loop.induct)
  case (1 wq tk rt)
  then show ?case
    by (simp add: systick_loop.simps [of wq tk rt] Let_def time_wakeup_def kernel_simps)
qed

lemma kevent_irq_th:
  "irq_th (kevent_run e rt) irq = (if e = Intr (IrqLine irq) then 8 else irq_th rt irq)"
  "irq_en (kevent_run e rt) irq = (irq_en rt irq \<and> e \<noteq> Intr (IrqLine irq))"
proof -
  have t: "irq_th (cm3_systick_isr rt) = irq_th rt"
    using tick_wake_spec [of rt] by (simp add: systick_eq ticked_def)
  have "irq_en (timeshare rt) = irq_en rt" for rt by (auto simp: timeshare_def kernel_simps Let_def)
  then have "irq_en (cm3_systick_isr rt) = irq_en rt" by (simp add: systick_eq tick_wake_def systick_loop_irq)
  moreover have "irq_th (cm3_pendsv_isr rt) = irq_th rt" "irq_en (cm3_pendsv_isr rt) = irq_en rt"
    by (simp_all add: cm3_pendsv_isr_def sched_entry_def sched_exit_def Let_def)
  ultimately show "irq_th (kevent_run e rt) irq = (if e = Intr (IrqLine irq) then 8 else irq_th rt irq)"
    "irq_en (kevent_run e rt) irq = (irq_en rt irq \<and> e \<noteq> Intr (IrqLine irq))"
    using t by (cases e; simp add: isr_irq_th)+
qed

lemma krun_irq_th:
  "irq_th (krun es rt) irq = (if Intr (IrqLine irq) \<in> set es then 8 else irq_th rt irq)"
  "irq_en (krun es rt) irq = (irq_en rt irq \<and> Intr (IrqLine irq) \<notin> set es)"
  by (induction es arbitrary: rt) (auto simp: kevent_irq_th simp del: kevent_run.simps)

section \<open>Properties\<close>

text \<open>
  C34. A wait with timeout on an interrupt gives the right verdict: whatever ticks,
  context switches and interrupts follow the call, the second call reports success
  exactly if the interrupt of that line came in between and a timeout otherwise,
  and in both cases the line is left disabled and assigned to no thread.
\<close>
theorem irq_timedwait_verdict:
  assumes "self < 8" "irq < 80" "arg_ld rt arg 0 = of_nat irq"
    and mid: "mid = krun es (irq_timedwait_svc arg self rt)" and "arg_ld mid arg' 0 = of_nat irq"
    and rt': "rt' = irq_timedwait_cleanup_svc arg' self mid"
  shows "mem rt' arg' = (if Intr (IrqLine irq) \<in> set es then THINKOS_OK else THINKOS_ETIMEDOUT)
    \<and> \<not> irq_en rt' irq \<and> irq_th rt' irq = THINKOS_THREAD_IDLE"
proof -
  have u: "unat (of_nat irq :: u32) = irq" using assms(2) by (simp add: unat_of_nat)
  have v: "\<not> (of_nat THINKOS_IRQ_MAX :: u32) \<le> of_nat irq"
    using u assms(2) by (simp add: word_le_nat_alt)
  have "irq_th (irq_timedwait_svc arg self rt) irq = self"
    unfolding irq_timedwait_svc_def Let_def assms(3) if_not_P [OF v] u
    by (simp add: kernel_simps tmdwq_insert_def)
  then have m: "irq_th mid irq = (if Intr (IrqLine irq) \<in> set es then 8 else self)"
    "Intr (IrqLine irq) \<in> set es \<Longrightarrow> \<not> irq_en mid irq"
    by (simp_all add: mid krun_irq_th)
  show ?thesis
    unfolding rt' irq_timedwait_cleanup_svc_def Let_def assms(5) if_not_P [OF v] u
    using m assms(1) by (auto simp: kernel_simps)
qed

definition irq_example :: thinkos_rt where
  "irq_example = rt_clear\<lparr>wq_lst := (\<lambda>_. 0)(0 := 0x102), irq_th := (\<lambda>_. 8), active := 1, th_alloc := 0xffffff02,
     ctx := (\<lambda>t. 0x3000 + 0x100 * of_nat t), mem := (\<lambda>_. 37)\<rparr>"

theorem irq_timedwait_verdict_witness:
  "mem (irq_timedwait_cleanup_svc 0x1000 1
       (krun [Tick, Intr (IrqLine 37)] (irq_timedwait_svc 0x1000 1 irq_example))) 0x1000 = THINKOS_OK
   \<and> mem (irq_timedwait_cleanup_svc 0x1000 1 (krun [Tick] (irq_timedwait_svc 0x1000 1 irq_example))) 0x1000 = THINKOS_ETIMEDOUT"
proof -
  have t: "mem (cm3_systick_isr rt) = mem rt" for rt
    using tick_wake_spec [of rt] by (simp add: systick_eq ticked_def)
  have d: "mem (cm3_default_isr irq rt) = mem rt" for irq rt
    by (simp add: cm3_default_isr_def wq_remove_def kernel_simps Let_def)
  have e: "mem irq_example = (\<lambda>_. 37)" by (simp add: irq_example_def)
  have w: "mem (irq_timedwait_svc 0x1000 1 irq_example) = mem irq_example"
    by (simp add: irq_timedwait_svc_def tmdwq_insert_def kernel_simps e)
  have a: "arg_ld irq_example 0x1000 0 = of_nat 37"
    "arg_ld (krun [Tick] (irq_timedwait_svc 0x1000 1 irq_example)) 0x1000 0 = of_nat 37"
    "arg_ld (krun [Tick, Intr (IrqLine 37)] (irq_timedwait_svc 0x1000 1 irq_example)) 0x1000 0 = of_nat 37"
    by (simp_all add: arg_ld_def t d w [simplified] e)
  show ?thesis
    using irq_timedwait_verdict [OF _ _ a(1) refl a(2) refl] irq_timedwait_verdict [OF _ _ a(1) refl a(3) refl]
    by simp
qed

text \<open>
  Priorities set through the control service stay between the two limits: above
  the exceptions of the kernel and not below the system calls.
\<close>
lemma irq_ctl_priority:
  assumes "\<forall>i. 64 \<le> irq_pri rt i \<and> irq_pri rt i \<le> 192"
  shows "64 \<le> irq_pri (irq_ctl_svc irq_max arg self rt) i \<and> irq_pri (irq_ctl_svc irq_max arg self rt) i \<le> 192"
proof -
  have "64 \<le> irq_pri_limit p \<and> irq_pri_limit p \<le> 192" for p
    by (auto simp: irq_pri_limit_def)
  then show ?thesis
    using assms by (auto simp: irq_ctl_svc_def kernel_simps cm3_irq_pri_set_def Let_def)
qed

end
