(* ===== verification/Init.thy ===== *)
theory Init
  imports Irq
begin

text \<open>
  Initialization of the kernel (\<open>thinkos_init.c\<close>, \<open>thinkos_idle.c\<close>, the reset of
  the exception buffer in \<open>thinkos_except.c\<close>) and the idle thread. The reload value
  of the tick timer is a constant of the board and has no counterpart.
\<close>

section \<open>Reset\<close>

definition MONITOR_PRIORITY :: nat where [simp]: "MONITOR_PRIORITY = 0"
definition SYSCALL_PRIORITY :: nat where [simp]: "SYSCALL_PRIORITY = 6 * 2 ^ 5"
definition CLOCK_PRIORITY :: nat where [simp]: "CLOCK_PRIORITY = 6 * 2 ^ 5"
definition SCHED_PRIORITY :: nat where [simp]: "SCHED_PRIORITY = 7 * 2 ^ 5"

definition CM3_EXCEPT_SVC :: nat where [simp]: "CM3_EXCEPT_SVC = 11"
definition CM3_EXCEPT_DEBUG_MONITOR :: nat where [simp]: "CM3_EXCEPT_DEBUG_MONITOR = 12"
definition CM3_EXCEPT_PENDSV :: nat where [simp]: "CM3_EXCEPT_PENDSV = 14"
definition CM3_EXCEPT_SYSTICK :: nat where [simp]: "CM3_EXCEPT_SYSTICK = 15"

definition cm3_except_pri_set :: "nat \<Rightarrow> nat \<Rightarrow> thinkos_rt \<Rightarrow> thinkos_rt" where
  "cm3_except_pri_set x pri rt = rt\<lparr>exc_pri := (exc_pri rt)(x := pri)\<rparr>"

text \<open>All threads are gone, the idle thread is left; the processor state is discarded.\<close>
definition kill_all :: "thinkos_rt \<Rightarrow> thinkos_rt" where
  "kill_all rt =
     (let rt = rt\<lparr>wq_lst := (\<lambda>wq. if wq < THINKOS_WQ_LST_END then 0 else wq_lst rt wq)\<rparr>;
          rt = wq_bit THINKOS_WQ_READY THINKOS_THREADS_MAX True rt;
          rt = rt\<lparr>active := THINKOS_THREAD_VOID\<rparr>
      in defer_sched rt)"

text \<open>\<open>__thinkos_memset32(&thinkos_rt, 0, sizeof(struct thinkos_rt))\<close>.\<close>
definition rt_zero :: "thinkos_rt \<Rightarrow> thinkos_rt" where
  "rt_zero rt = rt\<lparr>ctx := (\<lambda>_. 0), critical_cnt := 0, active := 0, wq_lst := (\<lambda>_. 0), th_stat := (\<lambda>_. 0),
     sched_val := (\<lambda>_. 0), sched_pri := (\<lambda>_. 0), sched_limit := 0, ticks := 0, clock := (\<lambda>_. 0),
     sem_val := (\<lambda>_. 0), ev_pend := (\<lambda>_. 0), ev_mask := (\<lambda>_. 0), flag := 0, gate := 0,
     lock := (\<lambda>_. 0), irq_th := (\<lambda>_. 0), th_alloc := 0, mutex_alloc := 0, cond_alloc := 0,
     sem_alloc := 0, ev_alloc := 0, flag_alloc := 0, gate_alloc := 0, th_inf := (\<lambda>_. 0)\<rparr>"

definition thinkos_reset :: "thinkos_rt \<Rightarrow> thinkos_rt" where
  "thinkos_reset rt =
     (let rt = cm3_except_pri_set CM3_EXCEPT_SVC SYSCALL_PRIORITY rt;
          rt = cm3_except_pri_set CM3_EXCEPT_SYSTICK CLOCK_PRIORITY rt;
          rt = cm3_except_pri_set CM3_EXCEPT_PENDSV SCHED_PRIORITY rt;
          rt = cm3_except_pri_set CM3_EXCEPT_DEBUG_MONITOR MONITOR_PRIORITY rt;
          rt = rt_zero rt;
          rt = irq_reset_all rt;
          rt = rt\<lparr>lock := (\<lambda>i. if i < THINKOS_MUTEX_MAX then -1 else lock rt i)\<rparr>;
          rt = rt\<lparr>ev_mask := (\<lambda>i. if i < THINKOS_EVENT_MAX then 0xffffffff else ev_mask rt i)\<rparr>;
          rt = rt\<lparr>th_alloc := bmp_init1 THINKOS_THREADS_MAX\<rparr>;
          rt = rt\<lparr>mutex_alloc := bmp_init1 THINKOS_MUTEX_MAX\<rparr>;
          rt = rt\<lparr>sem_alloc := bmp_init1 THINKOS_SEMAPHORE_MAX\<rparr>;
          rt = rt\<lparr>cond_alloc := bmp_init1 THINKOS_COND_MAX\<rparr>;
          rt = rt\<lparr>flag_alloc := bmp_init1 THINKOS_FLAG_MAX\<rparr>;
          rt = rt\<lparr>ev_alloc := bmp_init1 THINKOS_EVENT_MAX\<rparr>;
          rt = rt\<lparr>gate_alloc := bmp_init1 THINKOS_GATE_MAX\<rparr>;
          rt = rt\<lparr>systick_on := True\<rparr>;
          rt = rt\<lparr>active := THINKOS_THREAD_IDLE\<rparr>
      in rt\<lparr>wq_lst := (wq_lst rt)(THINKOS_WQ_READY := push_bit THINKOS_THREADS_MAX 1)\<rparr>)"

section \<open>The idle thread\<close>

definition idle_init :: "image \<Rightarrow> thinkos_rt \<Rightarrow> u32 \<times> thinkos_rt" where
  "idle_init im rt =
     (let idle_ctx = idle_stack_base im;
          rt = mem_st (idle_ctx + 4 * of_nat CTX_PC) (idle_task im AND NOT 1) rt;
          rt = mem_st (idle_ctx + 4 * of_nat CTX_LR) (thread_exit im) rt;
          rt = mem_st (idle_ctx + 4 * of_nat CTX_XPSR) CM_EPSR_T rt;
          rt = rt\<lparr>ctx := (ctx rt)(THINKOS_THREAD_IDLE := idle_ctx)\<rparr>;
          rt = wq_bit THINKOS_WQ_READY THINKOS_THREADS_MAX True rt;
          rt = rt\<lparr>th_inf := (th_inf rt)(THINKOS_THREAD_IDLE := idle_inf im)\<rparr>
      in (idle_ctx, rt))"

text \<open>The only system call of the idle thread, made whenever it runs.\<close>
definition idle_svc :: svc_handler where
  "idle_svc arg self rt =
     (let rt = dbgmon_signal_idle rt in
      if wq_ready rt \<noteq> push_bit THINKOS_THREADS_MAX 1 then defer_sched rt else rt)"

section \<open>Start\<close>

definition exception_reset :: "thinkos_rt \<Rightarrow> thinkos_rt" where
  "exception_reset rt =
     (let rt = rt\<lparr>xcpt := except_clear\<rparr>
      in rt\<lparr>xcpt := (xcpt rt)\<lparr>x_active := -1\<rparr>\<rparr>)"

definition exception_init :: "thinkos_rt \<Rightarrow> thinkos_rt" where
  "exception_init rt = exception_reset (rt\<lparr>shcsr := 0\<rparr>)"

definition THINKOS_SCHED_LIMIT_MIN :: nat where [simp]: "THINKOS_SCHED_LIMIT_MIN = 1"

text \<open>
  \<open>__thinkos_init_main\<close>. When there is no free slot from the requested number on, the
  code goes on with the error value: it writes the entry \<open>-1\<close> of the tables and shifts by \<open>-1\<close>, which is undefined
  in C, before the error is returned. So the state is \<open>wild\<close> there and none of its other fields is specified.
\<close>
definition init_main :: "image \<Rightarrow> u32 \<Rightarrow> thinkos_rt \<Rightarrow> nat option \<times> thinkos_rt" where
  "init_main im opt rt =
     (let priority = opt_priority opt in
      case alloc_lo (th_alloc rt) (opt_id opt - 1) of
        None \<Rightarrow> (None, rt\<lparr>wild := True\<rparr>)
      | Some (i, bmp) \<Rightarrow>
          let rt = rt\<lparr>th_alloc := bmp\<rparr>;
              rt = rt\<lparr>th_inf := (th_inf rt)(i := main_inf im)\<rparr>;
              priority = min priority THINKOS_SCHED_LIMIT_MAX;
              rt = rt\<lparr>sched_pri := (sched_pri rt)(i := of_nat priority)\<rparr>;
              rt = rt\<lparr>sched_val := (sched_val rt)(i := of_nat (priority div 2))\<rparr>;
              rt = rt\<lparr>sched_limit := of_nat priority\<rparr>;
              rt = (if unat (sched_limit rt) < THINKOS_SCHED_LIMIT_MIN
                    then rt\<lparr>sched_limit := of_nat THINKOS_SCHED_LIMIT_MIN\<rparr> else rt);
              rt = rt\<lparr>active := i\<rparr>;
              rt = rt\<lparr>wq_lst := (wq_lst rt)(THINKOS_WQ_READY := push_bit i 1 OR push_bit THINKOS_THREADS_MAX 1)\<rparr>;
              rt = (if opt_paused opt then rt\<lparr>wq_lst := (wq_lst rt)(THINKOS_WQ_PAUSED := push_bit i 1)\<rparr> else rt)
          in (Some i, rt))"

definition THINKOS_EXCEPT_STACK_SIZE :: nat where [simp]: "THINKOS_EXCEPT_STACK_SIZE = 320"

text \<open>\<open>thinkos_init\<close>; \<open>sp\<close> is the stack pointer of the caller, which becomes the main thread.\<close>
definition thinkos_init :: "image \<Rightarrow> u32 \<Rightarrow> u32 \<Rightarrow> thinkos_rt \<Rightarrow> int \<times> thinkos_rt" where
  "thinkos_init im opt sp rt =
     (let rt = rt\<lparr>primask := True\<rparr>;
          rt = memset32 (except_stack im) 0xdeadbeef THINKOS_EXCEPT_STACK_SIZE rt;
          rt = thinkos_reset rt;
          (_, rt) = idle_init im rt;
          rt = exception_init rt in
      case init_main im opt rt of
        (None, rt) \<Rightarrow> (-1, rt)
      | (Some thread_id, rt) \<Rightarrow>
          let rt = rt\<lparr>scr := 0\<rparr>;
              rt = rt\<lparr>ccr := push_bit 1 1 OR push_bit 9 1 OR push_bit 3 1\<rparr>;
              rt = rt\<lparr>psp := sp\<rparr>;
              rt = rt\<lparr>msp := except_stack im + of_nat THINKOS_EXCEPT_STACK_SIZE\<rparr>;
              rt = rt\<lparr>control := push_bit 1 1\<rparr>;
              rt = rt\<lparr>primask := False\<rparr>
          in (int thread_id + 1, rt))"

end
