(* ===== verification/Console.thy ===== *)
theory Console
  imports Irq
begin

text \<open>
  The console service (\<open>thinkos_console.c\<close>): threads read and write the two
  pipes, and wait when there is nothing to read or no room to write. The buffer
  of the caller is in the byte memory \<open>umem\<close>. A service takes the interrupts that
  run at the interruption points of its passes, one element per pass; the loops at
  \<open>wr_again\<close> and \<open>drain_again\<close> are partial functions, so the service returns an option, \<open>None\<close> for a loop
  that runs forever. The checks of \<open>tx_pipe.tail\<close> against \<open>0x40000000\<close> only call \<open>__THINKOS_ERROR\<close>, which is
  empty (\<open>THINKOS_ENABLE_ERROR_TRAP\<close> is 0), so they have no counterpart.
\<close>

section \<open>Access to the pipes\<close>

definition pipe_write :: "u32 \<Rightarrow> u32 \<Rightarrow> thinkos_rt \<Rightarrow> u32 \<times> thinkos_rt" where
  "pipe_write bp len rt =
     (case tx_pipe_write (\<lambda>i. umem rt (bp + of_nat i)) len (tx_pipe (console rt)) of
        (n, p) \<Rightarrow> (n, rt\<lparr>console := (console rt)\<lparr>tx_pipe := p\<rparr>\<rparr>))"

definition pipe_read :: "u32 \<Rightarrow> u32 \<Rightarrow> thinkos_rt \<Rightarrow> nat \<times> thinkos_rt" where
  "pipe_read bp len rt =
     (case rx_pipe_read len (rx_pipe (console rt)) of
        (xs, p) \<Rightarrow> (length xs, umem_st bp xs (rt\<lparr>console := (console rt)\<lparr>rx_pipe := p\<rparr>\<rparr>)))"

section \<open>Writing\<close>

abbreviation tx_room :: "thinkos_rt \<Rightarrow> bool" where
  "tx_room rt \<equiv> \<not> tx_pipe_isfull (tx_pipe (console rt))"

abbreviation tx_idle :: "thinkos_rt \<Rightarrow> bool" where
  "tx_idle rt \<equiv> tx_pipe_isempty (tx_pipe (console rt))"

text \<open>One pass of the loop at \<open>wr_again\<close>; the result says whether it starts over.\<close>
definition write_once :: "u32 \<Rightarrow> u32 \<Rightarrow> u32 \<Rightarrow> nat \<Rightarrow> irqs \<Rightarrow> thinkos_rt \<Rightarrow> bool \<times> thinkos_rt" where
  "write_once bp len arg self q rt =
     (let (n, rt1) = pipe_write bp len rt in
      if 0 < n then (False, arg_ret arg n (dbgmon_signal DBGMON_TX_PIPE rt1))
      else wait_block tx_room (prep_ctx self (2 * THINKOS_WQ_CONSOLE_WR) arg) (\<lambda>rt. rt) defer_sched
             THINKOS_WQ_CONSOLE_WR self q (arg_ret arg 0 rt1))"

partial_function (option) write_loop :: "u32 \<Rightarrow> u32 \<Rightarrow> u32 \<Rightarrow> nat \<Rightarrow> irqs list \<Rightarrow> thinkos_rt \<Rightarrow> thinkos_rt option" where
  "write_loop bp len arg self qs rt =
     (let (again, rt') = write_once bp len arg self (case qs of [] \<Rightarrow> no_irqs | q # _ \<Rightarrow> q) rt in
      if again then write_loop bp len arg self (tl qs) rt' else Some rt')"

text \<open>The loop at \<open>drain_again\<close>.\<close>
definition drain_once :: "u32 \<Rightarrow> nat \<Rightarrow> irqs \<Rightarrow> thinkos_rt \<Rightarrow> bool \<times> thinkos_rt" where
  "drain_once arg self q rt =
     (if tx_idle rt then (False, arg_ret arg 0 rt)
      else wait_block tx_idle (prep_ctx self (2 * THINKOS_WQ_CONSOLE_WR) arg) (\<lambda>rt. rt) defer_sched
             THINKOS_WQ_CONSOLE_WR self q (arg_ret arg THINKOS_EAGAIN rt))"

partial_function (option) drain_loop :: "u32 \<Rightarrow> nat \<Rightarrow> irqs list \<Rightarrow> thinkos_rt \<Rightarrow> thinkos_rt option" where
  "drain_loop arg self qs rt =
     (let (again, rt') = drain_once arg self (case qs of [] \<Rightarrow> no_irqs | q # _ \<Rightarrow> q) rt in
      if again then drain_loop arg self (tl qs) rt' else Some rt')"

section \<open>Reading\<close>

text \<open>
  A read that finds nothing queues the thread; interrupts may run before the
  suspension, between it and the insertion into the queue, and after that. The
  timeout of a timed read is the last argument of the call.
\<close>
definition read_wait :: "irqs \<Rightarrow> (nat \<Rightarrow> thinkos_rt \<Rightarrow> thinkos_rt) \<Rightarrow> nat \<Rightarrow> thinkos_rt \<Rightarrow> thinkos_rt" where
  "read_wait q insert_fn self rt =
     (let rt = isrs_run (i_ld q) rt;
          rt = suspend self rt;
          rt = isrs_run (i_susp q) rt;
          rt = insert_fn self rt
      in isrs_run (i_tail q) rt)"

definition console_read :: "irqs \<Rightarrow> svc_handler" where
  "console_read q arg self rt =
     (let (n, rt) = pipe_read (arg_ld rt arg 1) (arg_ld rt arg 2) rt in
      if 0 < n then arg_ret arg (of_nat n) (dbgmon_signal DBGMON_RX_PIPE rt)
      else defer_sched (read_wait q (wq_insert THINKOS_WQ_CONSOLE_RD) self rt))"

definition console_timedread :: "irqs \<Rightarrow> svc_handler" where
  "console_timedread q arg self rt =
     (let (n, rt) = pipe_read (arg_ld rt arg 1) (arg_ld rt arg 2) rt in
      if 0 < n then arg_ret arg (of_nat n) (dbgmon_signal DBGMON_RX_PIPE rt)
      else
        let rt = read_wait q (\<lambda>th rt. tmdwq_insert THINKOS_WQ_CONSOLE_RD th (arg_ld rt arg 3) rt) self rt;
            rt = arg_ret arg THINKOS_ETIMEDOUT rt
        in defer_sched rt)"

section \<open>The service\<close>

definition console_svc :: "irqs list \<Rightarrow> u32 \<Rightarrow> nat \<Rightarrow> thinkos_rt \<Rightarrow> thinkos_rt option" where
  "console_svc qs arg self rt =
     (let req = arg_ld rt arg 0; con = console rt; q = (case qs of [] \<Rightarrow> no_irqs | q # _ \<Rightarrow> q) in
      if req = 3 then Some (arg_ret arg THINKOS_OK (rt\<lparr>console := con\<lparr>open_cnt := open_cnt con + 1\<rparr>\<rparr>))
      else if req = 4 then Some (arg_ret arg (if 0 < open_cnt con then THINKOS_EBADF else THINKOS_OK) rt)
      else if req = 6 then Some (arg_ret arg THINKOS_OK rt)
      else if req = 7 then Some (arg_ret arg (if connected con then 1 else 0) rt)
      else if req = 2 then Some (console_timedread q arg self rt)
      else if req = 1 then Some (console_read q arg self rt)
      else if req = 0 then write_loop (arg_ld rt arg 1) (arg_ld rt arg 2) arg self qs rt
      else if req = 5 then drain_loop arg self qs rt
      else Some (arg_ret arg THINKOS_EINVAL rt))"

definition console_reset :: "thinkos_rt \<Rightarrow> thinkos_rt" where
  "console_reset rt =
     (let rt = dbgmon_clear DBGMON_TX_PIPE rt;
          rt = dbgmon_clear DBGMON_RX_PIPE rt;
          con = console rt
      in rt\<lparr>console := con\<lparr>tx_last_cnt := 0,
             tx_pipe := (tx_pipe con)\<lparr>head := 0, tail := 0\<rparr>,
             rx_pipe := (rx_pipe con)\<lparr>head := 0, tail := 0\<rparr>,
             connected := False, open_cnt := 0\<rparr>\<rparr>)"

definition console_connect_set :: "bool \<Rightarrow> thinkos_rt \<Rightarrow> thinkos_rt" where
  "console_connect_set val rt = rt\<lparr>console := (console rt)\<lparr>connected := val\<rparr>\<rparr>"

definition console_init :: "thinkos_rt \<Rightarrow> thinkos_rt" where
  "console_init rt = console_reset rt"

text \<open>\<open>__console_tx_pipe_ptr\<close> also records the length of the block it offers.\<close>
definition tx_pipe_block :: "thinkos_rt \<Rightarrow> (nat \<times> nat) \<times> thinkos_rt" where
  "tx_pipe_block rt =
     (let (pos, cnt) = console_tx_pipe_ptr (tx_pipe (console rt))
      in ((pos, cnt), rt\<lparr>console := (console rt)\<lparr>tx_last_cnt := of_nat cnt\<rparr>\<rparr>))"

section \<open>Termination of the loops\<close>

text \<open>Only the interrupt handlers and the driver touch a pipe the service found full.\<close>

lemma block_quiet: "fst (wait_block avail prep arm fin wq self no_irqs rt) = avail (prep (suspend self rt))"
  by (simp add: wait_block_def no_irqs_def Let_def)

lemma tx_pipe_write_zero:
  assumes "tx_pipe_write cp len p = (n, p')"
  shows "n = 0 \<longleftrightarrow> len = 0 \<or> tx_pipe_isfull p" "n = 0 \<Longrightarrow> p' = p"
proof -
  have f: "tail p + of_nat THINKOS_CONSOLE_FIFO_LEN - head p = 0 \<longleftrightarrow> tx_pipe_isfull p"
    by (simp add: tx_pipe_isfull_def)
  have pos: "\<not> THINKOS_CONSOLE_FIFO_LEN < unat (head p) mod THINKOS_CONSOLE_FIFO_LEN"
    using mod_less_divisor [of 64 "unat (head p)"] by (simp add: not_less)
  show z: "n = 0 \<longleftrightarrow> len = 0 \<or> tx_pipe_isfull p"
    using assms f by (auto simp: tx_pipe_write_def Let_def min_def split: if_splits)
  show "n = 0 \<Longrightarrow> p' = p"
  proof (cases "tx_pipe_isfull p")
    case True
    then show ?thesis using assms f by (simp add: tx_pipe_write_def)
  next
    case False
    assume "n = 0"
    then have "len = 0" using z False by blast
    then have "p' = p\<lparr>buf := memcpy_at (unat (head p) mod THINKOS_CONSOLE_FIFO_LEN) [] (buf p), head := head p + 0\<rparr>"
      using assms pos False f by (auto simp: tx_pipe_write_def Let_def)
    then show ?thesis by (simp add: memcpy_at_def)
  qed
qed

lemma pipe_write_zero:
  assumes "pipe_write bp len rt = (n, rt1)"
  shows "n = 0 \<longleftrightarrow> len = 0 \<or> \<not> tx_room rt" "n = 0 \<Longrightarrow> rt1 = rt"
proof -
  obtain p where p: "tx_pipe_write (\<lambda>i. umem rt (bp + of_nat i)) len (tx_pipe (console rt)) = (n, p)"
    and r: "rt1 = rt\<lparr>console := (console rt)\<lparr>tx_pipe := p\<rparr>\<rparr>"
    using assms by (auto simp: pipe_write_def split: prod.splits)
  show "n = 0 \<longleftrightarrow> len = 0 \<or> \<not> tx_room rt" "n = 0 \<Longrightarrow> rt1 = rt"
    using tx_pipe_write_zero [OF p] r by simp_all
qed

lemma console_frame [simp]:
  "console (suspend self rt) = console rt" "console (prep_ctx self st arg rt) = console rt"
  "console (arg_ret arg v rt) = console rt" "console (wait_rollback self rt) = console rt"
  by (simp_all add: kernel_simps prep_ctx_def wait_rollback_def)

lemma write_once_quiet:
  assumes "write_once bp len arg self no_irqs rt = (again, rt')"
  shows "again \<longleftrightarrow> len = 0 \<and> tx_room rt" "again \<Longrightarrow> console rt' = console rt"
proof -
  obtain n rt1 where w: "pipe_write bp len rt = (n, rt1)" by (cases "pipe_write bp len rt") auto
  note z = pipe_write_zero [OF w]
  let ?b = "wait_block tx_room (prep_ctx self (2 * THINKOS_WQ_CONSOLE_WR) arg) (\<lambda>rt. rt) defer_sched THINKOS_WQ_CONSOLE_WR self no_irqs (arg_ret arg 0 rt)"
  have b: "fst ?b = tx_room rt" by (simp add: block_quiet)
  have c: "fst ?b \<Longrightarrow> console (snd ?b) = console rt"
    by (auto simp: wait_block_def no_irqs_def Let_def)
  have nz: "0 < n \<longleftrightarrow> n \<noteq> 0" by (rule word_neq_0_conv [symmetric])
  have e: "(again, rt') = (if 0 < n then (False, arg_ret arg n (dbgmon_signal DBGMON_TX_PIPE rt1)) else ?b)"
    using assms w z(2) nz by (cases "n = 0") (auto simp: write_once_def)
  show "again \<longleftrightarrow> len = 0 \<and> tx_room rt" using e b z(1) nz by (cases "0 < n") (auto simp: prod_eq_iff)
  show "again \<Longrightarrow> console rt' = console rt" using e c by (cases "0 < n") (auto simp: prod_eq_iff)
qed

lemma write_loop_returns: "len \<noteq> 0 \<Longrightarrow> \<exists>rt'. write_loop bp len arg self qs rt = Some rt'"
proof (induction qs arbitrary: rt)
  case Nil
  obtain again rt' where w: "write_once bp len arg self no_irqs rt = (again, rt')"
    by (cases "write_once bp len arg self no_irqs rt") auto
  then show ?case
    using write_once_quiet(1) [OF w] Nil by (simp add: write_loop.simps [of bp len arg self "[]"])
next
  case (Cons q qs)
  obtain again rt' where w: "write_once bp len arg self q rt = (again, rt')"
    by (cases "write_once bp len arg self q rt") auto
  then show ?case
    using Cons by (simp add: write_loop.simps [of bp len arg self "q # qs"])
qed

lemma write_loop_diverges:
  assumes "tx_room rt"
  shows "write_loop bp 0 arg self [] rt = None"
proof -
  have step: "len = 0 \<longrightarrow> qs = [] \<longrightarrow> \<not> tx_room rt"
    if IH: "\<And>bp len arg self qs rt y. f bp len arg self qs rt = Some y \<Longrightarrow> len = 0 \<longrightarrow> qs = [] \<longrightarrow> \<not> tx_room rt"
      and body: "(let (again, rt') = write_once bp len arg self (case qs of [] \<Rightarrow> no_irqs | q # x \<Rightarrow> q) rt
                  in if again then f bp len arg self (tl qs) rt' else Some rt') = Some y"
    for f bp len arg self qs rt and y :: thinkos_rt
  proof (intro impI notI)
    assume e: "len = 0" "qs = []" and room: "tx_room rt"
    obtain again rt1 where w: "write_once bp 0 arg self no_irqs rt = (again, rt1)"
      by (cases "write_once bp 0 arg self no_irqs rt") auto
    have again: "again" and "tx_room rt1" using write_once_quiet [OF w] room by simp_all
    moreover have "f bp 0 arg self [] rt1 = Some y" using body w again e by simp
    ultimately show False using IH [of bp 0 arg self "[]" rt1 y] by simp
  qed
  have "len = 0 \<longrightarrow> qs = [] \<longrightarrow> \<not> tx_room rt" if "write_loop bp len arg self qs rt = Some y" for bp len arg self qs rt y
    by (rule write_loop.raw_induct [where P = "\<lambda>bp len arg self qs rt y. len = 0 \<longrightarrow> qs = [] \<longrightarrow> \<not> tx_room rt", OF step that])
  then show ?thesis using assms by (cases "write_loop bp 0 arg self [] rt") blast+
qed

text \<open>
  A pass without interrupts that finds bytes in the pipe waits for them to be sent. So
  the draining loop returns once the interrupts stop, and its last pass is the first one that does not start over.
\<close>
lemma drain_once_quiet: "\<not> fst (drain_once arg self no_irqs rt)"
  by (simp add: drain_once_def block_quiet)

lemma drain_loop_eq: "drain_loop arg self qs rt = Some (retry (drain_once arg self) no_irqs qs rt)"
proof (induction qs arbitrary: rt)
  case Nil
  obtain rt' where "drain_once arg self no_irqs rt = (False, rt')"
    using drain_once_quiet [of arg self rt] by (cases "drain_once arg self no_irqs rt") auto
  then show ?case by (subst drain_loop.simps) simp
next
  case (Cons q qs)
  then show ?case by (subst drain_loop.simps) (simp split: prod.splits)
qed

section \<open>Properties\<close>

text \<open>
  C36. Every call of the console service returns, whatever interrupts run
  meanwhile, except for a write of zero bytes: unless the pipe is full it starts
  over forever.
\<close>
theorem console_svc_returns:
  "(arg_ld rt arg 0 \<noteq> 0 \<or> arg_ld rt arg 2 \<noteq> 0 \<longrightarrow> (\<exists>rt'. console_svc qs arg self rt = Some rt'))
   \<and> (arg_ld rt arg 0 = 0 \<longrightarrow> arg_ld rt arg 2 = 0 \<longrightarrow> tx_room rt \<longrightarrow> console_svc [] arg self rt = None)"
  using write_loop_returns [of "arg_ld rt arg 2"] write_loop_diverges [of rt]
  by (auto simp: console_svc_def drain_loop_eq Let_def)

text \<open>A console with three bytes in its transmit pipe and none received.\<close>
definition console_example :: thinkos_rt where
  "console_example = rt_clear\<lparr>wq_lst := (\<lambda>_. 0)(0 := 0x102), irq_th := (\<lambda>_. 8), active := 1, th_alloc := 0xffffff02,
     ctx := (\<lambda>t. 0x3000 + 0x100 * of_nat t), mem := (\<lambda>_. 0)(0x1004 := 0x5000),
     console := console_clear\<lparr>tx_pipe := pipe_clear\<lparr>head := 3\<rparr>\<rparr>\<rparr>"

theorem console_svc_returns_witness:
  "console_svc [] 0x1000 1 console_example = None
   \<and> (\<exists>rt'. console_svc [] 0x1004 1 console_example = Some rt')"
proof -
  have "tx_room console_example"
    by (simp add: console_example_def tx_pipe_isfull_def console_clear_def pipe_clear_def)
  moreover have "arg_ld console_example 0x1000 0 = 0" "arg_ld console_example 0x1000 2 = 0" "arg_ld console_example 0x1004 0 \<noteq> 0"
    by (simp_all add: console_example_def arg_ld_def)
  ultimately show ?thesis
    using console_svc_returns [of console_example "0x1000" "[]" 1] console_svc_returns [of console_example "0x1004" "[]" 1] by simp
qed

text \<open>
  A reading thread can miss the bytes it waits for: when they arrive after the
  service found the pipe empty and before the thread is in the queue of readers,
  the thread ends up waiting, out of the ready queue, with the bytes in the pipe.
\<close>
lemma console_read_race:
  assumes "arg_ld rt arg 0 = 1" "head (rx_pipe (console rt)) = tail (rx_pipe (console rt))"
    and "wq_lst rt THINKOS_WQ_CONSOLE_RD = 0" "self < THINKOS_THREADS_MAX" "\<not> bit (wq_lst rt THINKOS_WQ_TMSHARE) self"
    and "0 < k" "k \<le> THINKOS_CONSOLE_FIFO_LEN"
  shows "\<exists>rt'. console_svc [no_irqs\<lparr>i_ld := [ConsoleRx k]\<rparr>] arg self rt = Some rt'
      \<and> bit (wq_lst rt' THINKOS_WQ_CONSOLE_RD) self \<and> \<not> bit (wq_lst rt' THINKOS_WQ_READY) self
      \<and> unat (head (rx_pipe (console rt')) - tail (rx_pipe (console rt'))) = k"
proof -
  have r: "pipe_read b l rt = (0, rt)" for b l
    using assms(2) by (simp add: pipe_read_def rx_pipe_read_def umem_st_def)
  have c: "console_rx_pipe_commit k rt
      = rt\<lparr>console := (console rt)\<lparr>rx_pipe := (rx_pipe (console rt))\<lparr>head := head (rx_pipe (console rt)) + of_nat k\<rparr>\<rparr>\<rparr>"
    using assms(3) by (simp add: console_rx_pipe_commit_def wq_head_eq Let_def)
  have k: "unat (of_nat k :: u32) = k"
    using assms(7) by (simp add: unsigned_of_nat take_bit_nat_eq_self)
  show ?thesis
    using assms(1,2,4,5) k
    by (simp add: console_svc_def console_read_def read_wait_def r c no_irqs_def wq_insert_def suspend_wq_bits kernel_simps)
qed

end
