(* ===== verification/Dbgmon.thy ===== *)
theory Dbgmon
  imports Init Console
begin

text \<open>
  The debug monitor (\<open>thinkos_dbgmon.c\<close>): a coroutine that runs in the debug monitor
  exception and is driven by signals, and its management of the interrupt
  controller. The registers of the interrupt controller hold 32 lines each; the
  enable state of a line is \<open>irq_en\<close> of the run time block. Breakpoints, watchpoints
  and stepping are not configured.
\<close>

section \<open>Interrupt controller\<close>

definition NVIC_IRQ_REGS :: nat where [simp]: "NVIC_IRQ_REGS = (THINKOS_IRQ_MAX + 31) div 32"

text \<open>\<open>CM3_NVIC->iser[i]\<close> read and written, \<open>CM3_NVIC->icer[i]\<close> written.\<close>
definition nvic_iser :: "nat \<Rightarrow> thinkos_rt \<Rightarrow> u32" where
  "nvic_iser i rt = fold (\<lambda>k w. bit_mem_wr w k (irq_en rt (32 * i + k))) [0..<32] 0"

definition nvic_iser_st :: "nat \<Rightarrow> u32 \<Rightarrow> thinkos_rt \<Rightarrow> thinkos_rt" where
  "nvic_iser_st i w rt = rt\<lparr>irq_en := (\<lambda>irq. if irq div 32 = i \<and> bit w (irq mod 32) then True else irq_en rt irq)\<rparr>"

definition nvic_icer_st :: "nat \<Rightarrow> u32 \<Rightarrow> thinkos_rt \<Rightarrow> thinkos_rt" where
  "nvic_icer_st i w rt = rt\<lparr>irq_en := (\<lambda>irq. if irq div 32 = i \<and> bit w (irq mod 32) then False else irq_en rt irq)\<rparr>"

text \<open>The saved state \<open>nvic_ie\<close> has one word per register; a store past it hits other memory.\<close>
definition nvic_ie_st :: "nat \<Rightarrow> u32 \<Rightarrow> thinkos_rt \<Rightarrow> thinkos_rt" where
  "nvic_ie_st i w rt = (if i < NVIC_IRQ_REGS then rt\<lparr>nvic_ie := (nvic_ie rt)(i := w)\<rparr> else rt\<lparr>wild := True\<rparr>)"

definition force_enable_one :: "nat \<Rightarrow> thinkos_rt \<Rightarrow> thinkos_rt" where
  "force_enable_one cnt rt =
     (let irq = unat (irq_en_lst rt cnt);
          i = irq div 32;
          k = irq mod 32;
          rt = nvic_ie_st i (nvic_ie rt i OR push_bit k 1) rt
      in nvic_iser_st i (push_bit k 1) rt)"

definition dmon_irq_force_enable :: "thinkos_rt \<Rightarrow> thinkos_rt" where
  "dmon_irq_force_enable rt = fold force_enable_one [0..<4] rt"

definition irq_disable_reg :: "nat \<Rightarrow> thinkos_rt \<Rightarrow> thinkos_rt" where
  "irq_disable_reg i rt = nvic_icer_st i 0xffffff (nvic_ie_st i 0 rt)"

definition dmon_irq_disable_all :: "thinkos_rt \<Rightarrow> thinkos_rt" where
  "dmon_irq_disable_all rt = fold irq_disable_reg [0..<NVIC_IRQ_REGS] rt"

definition irq_pause_reg :: "nat \<Rightarrow> thinkos_rt \<Rightarrow> thinkos_rt" where
  "irq_pause_reg i rt = nvic_icer_st i 0xffffffff (nvic_ie_st i (nvic_iser i rt) rt)"

definition dmon_irq_pause_all :: "thinkos_rt \<Rightarrow> thinkos_rt" where
  "dmon_irq_pause_all rt = fold irq_pause_reg [0..<NVIC_IRQ_REGS] rt"

definition irq_restore_reg :: "nat \<Rightarrow> thinkos_rt \<Rightarrow> thinkos_rt" where
  "irq_restore_reg i rt = nvic_iser_st i (nvic_ie rt i) rt"

definition dmon_irq_restore_all :: "thinkos_rt \<Rightarrow> thinkos_rt" where
  "dmon_irq_restore_all rt = fold irq_restore_reg [0..<NVIC_IRQ_REGS] rt"

text \<open>\<open>__dmon_irq_init\<close>: the first four lines that are enabled are never turned off.\<close>
function irq_probe :: "nat \<Rightarrow> nat \<Rightarrow> u32 \<Rightarrow> thinkos_rt \<Rightarrow> nat \<times> thinkos_rt" where
  "irq_probe i cnt msk rt =
     (if cnt < 4 \<and> msk \<noteq> 0
      then let k = clz (rbit msk)
           in irq_probe i (cnt + 1) (msk AND NOT (push_bit k 1))
                (rt\<lparr>irq_en_lst := (irq_en_lst rt)(cnt := of_nat (32 * i + k))\<rparr>)
      else (cnt, rt))"
  by auto
termination by (relation "measure (\<lambda>(_, cnt, _). 4 - cnt)") auto

declare irq_probe.simps [simp del]

definition irq_init_reg :: "nat \<Rightarrow> nat \<times> thinkos_rt \<Rightarrow> nat \<times> thinkos_rt" where
  "irq_init_reg i s =
     (case s of (cnt, rt) \<Rightarrow>
        let msk = nvic_iser i rt
        in irq_probe i cnt msk (nvic_ie_st i msk rt))"

definition dmon_irq_init :: "thinkos_rt \<Rightarrow> thinkos_rt" where
  "dmon_irq_init rt =
     (let rt = rt\<lparr>irq_en_lst := (\<lambda>n. if n < 4 then 0xff else irq_en_lst rt n)\<rparr>
      in snd (fold irq_init_reg [0..<NVIC_IRQ_REGS] (0, rt)))"

section \<open>Signals\<close>

definition DBGMON_ALARM :: nat where [simp]: "DBGMON_ALARM = 5"
definition DBGMON_EXCEPT :: nat where [simp]: "DBGMON_EXCEPT = 8"
definition DBGMON_THREAD_FAULT :: nat where [simp]: "DBGMON_THREAD_FAULT = 10"
definition DBGMON_SOFTRST :: nat where [simp]: "DBGMON_SOFTRST = 24"
definition DBGMON_STARTUP :: nat where [simp]: "DBGMON_STARTUP = 29"
definition DBGMON_RESET :: nat where [simp]: "DBGMON_RESET = 31"

definition dbgmon_set_mask :: "u32 \<Rightarrow> thinkos_rt \<Rightarrow> thinkos_rt" where
  "dbgmon_set_mask w rt = rt\<lparr>dbgmon_mask := w\<rparr>"

definition dbgmon_unmask :: "nat \<Rightarrow> thinkos_rt \<Rightarrow> thinkos_rt" where
  "dbgmon_unmask sig rt = dbgmon_set_mask (bit_mem_wr (dbgmon_mask rt) sig True) rt"

definition dbgmon_mask_sig :: "nat \<Rightarrow> thinkos_rt \<Rightarrow> thinkos_rt" where
  "dbgmon_mask_sig sig rt = dbgmon_set_mask (bit_mem_wr (dbgmon_mask rt) sig False) rt"

text \<open>
  The monitor sleeps in \<open>dbgmon_context_swap\<close>; the functions of the list \<open>ws\<close> are
  what the rest of the system does up to each time the monitor runs again. The
  result is \<open>None\<close> while the condition of the loop has not come true.
\<close>
fun dbgmon_sleep_until :: "(thinkos_rt \<Rightarrow> bool) \<Rightarrow> (thinkos_rt \<Rightarrow> thinkos_rt) list \<Rightarrow> thinkos_rt \<Rightarrow> thinkos_rt option" where
  "dbgmon_sleep_until c [] rt = None"
| "dbgmon_sleep_until c (w # ws) rt = (if c (w rt) then Some (w rt) else dbgmon_sleep_until c ws (w rt))"

definition dbgmon_select :: "u32 \<Rightarrow> (thinkos_rt \<Rightarrow> thinkos_rt) list \<Rightarrow> thinkos_rt \<Rightarrow> (u32 \<times> thinkos_rt) option" where
  "dbgmon_select evmask ws rt =
     (if dbgmon_events rt AND evmask \<noteq> 0 then Some (dbgmon_events rt AND evmask, rt)
      else
        let rt = dbgmon_set_mask (dbgmon_mask rt OR evmask) rt in
        case dbgmon_sleep_until (\<lambda>rt. dbgmon_events rt AND evmask \<noteq> 0) ws rt of
          None \<Rightarrow> None
        | Some rt \<Rightarrow>
            let evset = dbgmon_events rt
            in Some (evset AND evmask, dbgmon_set_mask (dbgmon_mask rt AND NOT evmask) rt))"

definition dbgmon_expect :: "nat \<Rightarrow> (thinkos_rt \<Rightarrow> thinkos_rt) list \<Rightarrow> thinkos_rt \<Rightarrow> (int \<times> thinkos_rt) option" where
  "dbgmon_expect sig ws rt =
     (let b = push_bit sig 1 in
      if dbgmon_events rt AND b \<noteq> 0 then Some (int sig, rt)
      else
        let evmsk = dbgmon_mask rt;
            stmsk = (evmsk AND b) XOR b;
            rt = dbgmon_set_mask (evmsk OR b) rt in
        case dbgmon_sleep_until (\<lambda>rt. dbgmon_events rt AND dbgmon_mask rt \<noteq> 0) ws rt of
          None \<Rightarrow> None
        | Some rt \<Rightarrow>
            let evset = dbgmon_events rt;
                rt = dbgmon_set_mask (dbgmon_mask rt XOR stmsk) rt
            in Some (if evset AND b \<noteq> 0 then int sig else -1, rt))"

definition dbgmon_wait :: "nat \<Rightarrow> (thinkos_rt \<Rightarrow> thinkos_rt) list \<Rightarrow> thinkos_rt \<Rightarrow> (int \<times> thinkos_rt) option" where
  "dbgmon_wait sig ws rt =
     (case dbgmon_expect sig ws rt of
        None \<Rightarrow> None
      | Some (s, rt) \<Rightarrow> Some (s, if s < 0 then rt else dbgmon_clear (nat s) rt))"

definition dbgmon_sleep :: "(thinkos_rt \<Rightarrow> thinkos_rt) list \<Rightarrow> thinkos_rt \<Rightarrow> (int \<times> thinkos_rt) option" where
  "dbgmon_sleep ws rt = dbgmon_wait DBGMON_ALARM ws (dbgmon_clear DBGMON_ALARM rt)"

definition dbgmon_alarm :: "thinkos_rt \<Rightarrow> thinkos_rt" where
  "dbgmon_alarm rt = dbgmon_unmask DBGMON_ALARM (dbgmon_clear DBGMON_ALARM rt)"

definition dbgmon_alarm_stop :: "thinkos_rt \<Rightarrow> thinkos_rt" where
  "dbgmon_alarm_stop rt = dbgmon_mask_sig DBGMON_ALARM (dbgmon_clear DBGMON_ALARM rt)"

definition dbgmon_wait_idle :: "(thinkos_rt \<Rightarrow> thinkos_rt) list \<Rightarrow> thinkos_rt \<Rightarrow> (int \<times> thinkos_rt) option" where
  "dbgmon_wait_idle ws rt =
     (case dbgmon_wait DBGMON_IDLE ws (rt\<lparr>mon_req := True\<rparr>) of
        None \<Rightarrow> None
      | Some (ret, rt) \<Rightarrow> Some (if ret < 0 then ret else 0, rt))"

section \<open>The core of the monitor\<close>

definition THINKOS_DBGMON_STACK_SIZE :: nat where [simp]: "THINKOS_DBGMON_STACK_SIZE = 960 + 16"

text \<open>\<open>dbgmon_reset\<close> and \<open>dbgmon_exec\<close>, up to the swap that leaves the old task for good.\<close>
definition dbgmon_reset :: "thinkos_rt \<Rightarrow> thinkos_rt" where
  "dbgmon_reset rt = dbgmon_signal DBGMON_RESET rt"

definition dbgmon_exec :: "u32 \<Rightarrow> u32 \<Rightarrow> thinkos_rt \<Rightarrow> thinkos_rt" where
  "dbgmon_exec task param rt = dbgmon_reset (rt\<lparr>dbgmon_task := task, dbgmon_param := param\<rparr>)"

text \<open>\<open>dbgmon_bootstrap\<close> up to the call of the task: the task and its arguments.\<close>
definition dbgmon_boot :: "image \<Rightarrow> thinkos_rt \<Rightarrow> (u32 \<times> u32 \<times> u32) \<times> thinkos_rt" where
  "dbgmon_boot im rt =
     ((dbgmon_task rt, dbgmon_comm rt, dbgmon_param rt), rt\<lparr>dbgmon_task := dbgmon_null_task im\<rparr>)"

text \<open>\<open>thinkos_dbgmon_isr\<close>; the result tells whether it switches to the monitor.\<close>
definition dbgmon_isr :: "image \<Rightarrow> thinkos_rt \<Rightarrow> bool \<times> thinkos_rt" where
  "dbgmon_isr im rt =
     (let sigset = dbgmon_events rt;
          sigmsk = dbgmon_mask rt;
          (sigmsk, rt) =
            (if sigset AND push_bit DBGMON_RESET 1 \<noteq> 0
             then let sp = dbgmon_stack im + 4 * (of_nat (THINKOS_DBGMON_STACK_SIZE div 4) - 10);
                      rt = mem_st sp 0x0100000f rt;
                      rt = mem_st (sp + 4 * 9) (dbgmon_bootstrap im OR 1) rt;
                      rt = rt\<lparr>dbgmon_ctx := sp\<rparr>;
                      rt = rt\<lparr>dbgmon_events := sigset AND NOT (push_bit DBGMON_RESET 1)\<rparr>
                  in (sigmsk OR push_bit DBGMON_RESET 1, rt)
             else (sigmsk, rt))
      in (sigset AND sigmsk \<noteq> 0, rt))"

text \<open>The handler of a fault: all interrupts but the listed ones are turned off.\<close>
definition exception_dsr :: "thinkos_rt \<Rightarrow> thinkos_rt" where
  "exception_dsr rt =
     (let ipsr = unat (x_xpsr (xcpt rt) AND 0x1ff);
          rt = dmon_irq_disable_all rt;
          rt = dmon_irq_force_enable rt
      in if ipsr = 0 \<or> ipsr = CM3_EXCEPT_SVC then dbgmon_signal DBGMON_THREAD_FAULT rt
         else dbgmon_signal DBGMON_EXCEPT rt)"

definition dbgmon_soft_reset :: "image \<Rightarrow> thinkos_rt \<Rightarrow> thinkos_rt" where
  "dbgmon_soft_reset im rt =
     (let rt = dmon_irq_disable_all rt;
          rt = thinkos_reset rt;
          (idle_ctx, rt) = idle_init im rt;
          rt = rt\<lparr>psp := idle_ctx + 4 * of_nat CTX_R0\<rparr>;
          rt = exception_reset rt;
          rt = dmon_irq_force_enable rt
      in dbgmon_signal DBGMON_SOFTRST rt)"

definition dbgmon_svc :: "image \<Rightarrow> svc_handler" where
  "dbgmon_svc im arg self rt =
     (let task = arg_ld rt arg 0; comm = arg_ld rt arg 1; param = arg_ld rt arg 2;
          was_en = mon_en rt;
          rt = rt\<lparr>dbgmon_events := (if \<not> was_en then push_bit DBGMON_STARTUP 1 else 0)\<rparr>;
          rt = rt\<lparr>dbgmon_events := dbgmon_events rt OR push_bit DBGMON_RESET 1\<rparr>;
          rt = rt\<lparr>dbgmon_mask := push_bit DBGMON_RESET 1 OR push_bit DBGMON_STARTUP 1\<rparr>;
          rt = rt\<lparr>dbgmon_comm := comm\<rparr>;
          rt = rt\<lparr>dbgmon_task := task\<rparr>;
          rt = rt\<lparr>dbgmon_param := param\<rparr>;
          rt = dmon_irq_init rt;
          rt = memset32 (dbgmon_stack im) 0xdeadbeef THINKOS_DBGMON_STACK_SIZE rt
      in rt\<lparr>mon_en := True, mon_pend := True\<rparr>)"

section \<open>Properties\<close>

lemma nvic_iser_bit: "bit (nvic_iser i rt) k \<longleftrightarrow> k < 32 \<and> irq_en rt (32 * i + k)"
proof -
  have "bit (fold (\<lambda>k w. bit_mem_wr w k (irq_en rt (32 * i + k))) [0..<n] 0) k \<longleftrightarrow> k < n \<and> irq_en rt (32 * i + k)"
    if "n \<le> 32" for n
    using that by (induction n) auto
  then show ?thesis by (simp only: nvic_iser_def)
qed

text \<open>A line is in one of the three registers, or in none.\<close>
lemma nvic_cases:
  fixes irq :: nat
  obtains "irq < 96" "irq div 32 = 0" | "irq < 96" "irq div 32 = 1" | "irq < 96" "irq div 32 = 2"
    | "96 \<le> irq" "irq div 32 \<noteq> 0" "irq div 32 \<noteq> 1" "irq div 32 \<noteq> 2"
proof (cases "irq < 96")
  case True
  then have "irq div 32 = 0 \<or> irq div 32 = 1 \<or> irq div 32 = 2" by arith
  with True that(1-3) show ?thesis by metis
next
  case False
  then have "96 div 32 \<le> irq div 32" by (intro div_le_mono) simp
  with False that(4) show ?thesis by simp
qed

lemma NVIC_upt: "[0..<NVIC_IRQ_REGS] = [0, 1, 2]"
  by (simp add: upt_rec)

lemmas nvic_defs = nvic_iser_st_def nvic_icer_st_def nvic_ie_st_def

lemma bit_ff: "bit (0xffffff :: int) k \<longleftrightarrow> k < 24" "bit (0xffffffff :: int) k \<longleftrightarrow> k < 32"
proof -
  have "bit (mask 24 :: int) k \<longleftrightarrow> k < 24" "bit (mask 32 :: int) k \<longleftrightarrow> k < 32"
    unfolding bit_mask_iff by auto
  then show "bit (0xffffff :: int) k \<longleftrightarrow> k < 24" "bit (0xffffffff :: int) k \<longleftrightarrow> k < 32"
    by (simp_all only: mask_eq_exp_minus_1) simp_all
qed

lemma pause_all_en: "irq_en (dmon_irq_pause_all rt) = (\<lambda>irq. 96 \<le> irq \<and> irq_en rt irq)" (is "?L = ?R")
proof
  fix irq
  show "?L irq = ?R irq"
    unfolding dmon_irq_pause_all_def NVIC_upt irq_pause_reg_def
    by (cases irq rule: nvic_cases) (auto simp: nvic_defs bit_ff)
qed

lemma pause_all_saved: "i < 3 \<Longrightarrow> bit (nvic_ie (dmon_irq_pause_all rt) i) k \<longleftrightarrow> k < 32 \<and> irq_en rt (32 * i + k)"
  unfolding dmon_irq_pause_all_def NVIC_upt irq_pause_reg_def
  by (auto simp: nvic_defs nvic_iser_bit numeral_3_eq_3 less_Suc_eq)

lemma restore_all_en: "irq_en (dmon_irq_restore_all rt) = (\<lambda>irq. irq_en rt irq \<or> irq < 96 \<and> bit (nvic_ie rt (irq div 32)) (irq mod 32))" (is "?L = ?R")
proof
  fix irq
  show "?L irq = ?R irq"
    unfolding dmon_irq_restore_all_def NVIC_upt irq_restore_reg_def
    by (cases irq rule: nvic_cases) (simp_all add: nvic_defs)
qed

text \<open>
  C5. While the monitor holds the system the interrupts of the program are all off, and
  giving them back restores exactly the enable state of every line.
\<close>
theorem irq_pause_restore:
  "irq_en (dmon_irq_pause_all rt) = (\<lambda>irq. THINKOS_IRQ_MAX + 16 \<le> irq \<and> irq_en rt irq)
   \<and> irq_en (dmon_irq_restore_all (dmon_irq_pause_all rt)) = irq_en rt"
proof -
  have "irq_en (dmon_irq_restore_all (dmon_irq_pause_all rt)) irq = irq_en rt irq" for irq
    using mult_div_mod_eq [of 32 irq]
    by (cases irq rule: nvic_cases) (auto simp: pause_all_en restore_all_en pause_all_saved)
  then show ?thesis by (simp add: pause_all_en fun_eq_iff)
qed

lemma disable_all_en: "irq_en (dmon_irq_disable_all rt) = (\<lambda>irq. irq_en rt irq \<and> (24 \<le> irq mod 32 \<or> 96 \<le> irq))" (is "?L = ?R")
proof
  fix irq
  show "?L irq = ?R irq"
    unfolding dmon_irq_disable_all_def NVIC_upt irq_disable_reg_def
    by (cases irq rule: nvic_cases) (auto simp: nvic_defs bit_ff)
qed

lemma disable_all_frame:
  "irq_en_lst (dmon_irq_disable_all rt) = irq_en_lst rt" "wild (dmon_irq_disable_all rt) = wild rt"
  unfolding dmon_irq_disable_all_def NVIC_upt irq_disable_reg_def
  by (simp_all add: nvic_defs)

lemma force_enable_one_en:
  "irq_en (force_enable_one n rt) = (\<lambda>irq. irq_en rt irq \<or> irq = unat (irq_en_lst rt n))"
  "irq_en_lst (force_enable_one n rt) = irq_en_lst rt"
  "wild (force_enable_one n rt) \<longleftrightarrow> wild rt \<or> 96 \<le> unat (irq_en_lst rt n)"
proof -
  let ?J = "unat (irq_en_lst rt n)"
  have "irq_en (force_enable_one n rt) irq \<longleftrightarrow> irq div 32 = ?J div 32 \<and> irq mod 32 = ?J mod 32 \<or> irq_en rt irq" for irq
    by (simp add: force_enable_one_def Let_def nvic_defs bit_exp_iff) blast
  moreover have "irq div 32 = ?J div 32 \<and> irq mod 32 = ?J mod 32 \<longleftrightarrow> irq = ?J" for irq
    by (metis div_mult_mod_eq)
  ultimately show "irq_en (force_enable_one n rt) = (\<lambda>irq. irq_en rt irq \<or> irq = ?J)"
    by (simp only: fun_eq_iff) blast
qed (simp_all add: force_enable_one_def Let_def nvic_defs, arith)

lemma force_enable_en:
  "irq_en (dmon_irq_force_enable rt) = (\<lambda>irq. irq_en rt irq \<or> irq \<in> (\<lambda>n. unat (irq_en_lst rt n)) ` {..<4})"
  "wild (dmon_irq_force_enable rt) \<longleftrightarrow> wild rt \<or> (\<exists>n<4. 96 \<le> unat (irq_en_lst rt n))"
proof -
  have 4: "[0..<4] = [0, 1, 2, Suc 2]" "{..<4 :: nat} = {0, 1, 2, Suc 2}" by (auto simp: upt_rec)
  show "irq_en (dmon_irq_force_enable rt) = (\<lambda>irq. irq_en rt irq \<or> irq \<in> (\<lambda>n. unat (irq_en_lst rt n)) ` {..<4})"
    unfolding dmon_irq_force_enable_def 4 by (auto simp: force_enable_one_en fun_eq_iff)
  have "(\<exists>n<4. P n) \<longleftrightarrow> P 0 \<or> P 1 \<or> P 2 \<or> P (Suc 2)" for P :: "nat \<Rightarrow> bool"
    using 4(2) by (metis insert_iff lessThan_iff singletonD)
  then show "wild (dmon_irq_force_enable rt) \<longleftrightarrow> wild rt \<or> (\<exists>n<4. 96 \<le> unat (irq_en_lst rt n))"
    unfolding dmon_irq_force_enable_def 4 by (simp add: force_enable_one_en)
qed

text \<open>
  C6. After a fault exactly these interrupts are still enabled: the ones the monitor
  listed when it started, and, among those enabled before, the upper eight lines of each register, which
  the code leaves on. An unused entry of the list makes the code
  write past the table of saved registers.
\<close>
theorem fault_interrupts:
  "irq_en (exception_dsr rt) =
     (\<lambda>irq. irq_en rt irq \<and> (24 \<le> irq mod 32 \<or> 96 \<le> irq) \<or> irq \<in> (\<lambda>n. unat (irq_en_lst rt n)) ` {..<4})
   \<and> (wild (exception_dsr rt) \<longleftrightarrow> wild rt \<or> (\<exists>n<4. 96 \<le> unat (irq_en_lst rt n)))
   \<and> bit (dbgmon_events (exception_dsr rt)) (if unat (x_xpsr (xcpt rt) AND 0x1ff) \<in> {0, CM3_EXCEPT_SVC} then DBGMON_THREAD_FAULT else DBGMON_EXCEPT)
   \<and> mon_pend (exception_dsr rt)"
  by (simp add: exception_dsr_def Let_def dbgmon_signal_def force_enable_en disable_all_en disable_all_frame)

end
