(* ===== verification/Ctl.thy ===== *)
theory Ctl
  imports Init
begin

text \<open>
  The control service (\<open>thinkos_ctl.c\<close>). The clock frequencies, the delay factor of
  the board and the cycle counter of the processor are the fields of \<open>sysenv\<close>.
\<close>

record sysenv =
  sysclk_hz :: u32
  udelay_factor :: u32
  dwt_cyccnt :: u32

text \<open>
  Request 3 (snapshot) and 6 (cycle counters) are not configured. Request 7 resets
  the system: \<open>cm3_sysrst\<close> does not return, and the result is \<open>None\<close>. In request 5 the
  count is compared as a signed number and the length in bytes, four times the count, is taken
  modulo \<open>2 ^ 32\<close>: a negative count is kept, and the copy may run over the end of \<open>th_inf\<close>.
\<close>
definition ctl_svc :: "sysenv \<Rightarrow> u32 \<Rightarrow> nat \<Rightarrow> thinkos_rt \<Rightarrow> thinkos_rt option" where
  "ctl_svc env arg self rt0 =
     (let req = arg_ld rt0 arg 0; rt = arg_ret arg 0 rt0 in
      if req = 2 then Some (mem_st (arg_ld rt arg 1) (sysclk_hz env) rt)
      else if req = 1 then Some (mem_st (arg_ld rt arg 1) (udelay_factor env) rt)
      else if req = 0 then
        let rt = pause_all rt;
            rt = defer_sched rt
        in Some (rt\<lparr>bkpt := Some 3\<rparr>)
      else if req = 4 then Some rt
      else if req = 7 then None
      else if req = 5 then
        let cnt = (if int THINKOS_THREADS_MAX + 1 < sint (arg_ld rt arg 2) then of_nat (THINKOS_THREADS_MAX + 1) else arg_ld rt arg 2);
            n = (unat (4 * cnt) + 3) div 4 in
        if THINKOS_THREADS_MAX + 1 < n then Some (rt\<lparr>wild := True\<rparr>)
        else
          let rt = rt\<lparr>mem := mem_fill (arg_ld rt arg 1) (map (th_inf rt) [0..<n]) (mem rt)\<rparr>
          in Some (arg_ret arg cnt rt)
      else if req = 8 then Some (arg_ret arg (dwt_cyccnt env) rt)
      else Some (arg_ret arg THINKOS_EINVAL rt))"

end
