(* ===== verification/Svc.thy ===== *)
theory Svc
  imports Cond Gate Event Flag Semaphore Dbgmon Ctl
begin

text \<open>
  The system call entry (\<open>thinkos_svc.c\<close> and \<open>cm3_svc_isr\<close> of
  \<open>thinkos_vector.S\<close>): the dispatch on the service number and the services that
  have no file of their own.
\<close>

section \<open>Small services\<close>

definition nosys :: svc_handler where
  "nosys arg self rt = arg_ret arg THINKOS_ENOSYS rt"

definition clock_svc :: svc_handler where
  "clock_svc arg self rt = arg_ret arg (ticks rt) rt"

definition thread_self_svc :: svc_handler where
  "thread_self_svc arg self rt = arg_ret arg (of_nat self + 1) rt"

text \<open>Writing the clear bit of the interrupt control register takes back a pending switch.\<close>
definition critical_enter_svc :: svc_handler where
  "critical_enter_svc arg self rt =
     (let rt = rt\<lparr>critical_cnt := critical_cnt rt + 1\<rparr> in
      if critical_cnt rt \<noteq> 0 then rt\<lparr>pendsv := False\<rparr> else rt)"

definition critical_exit_svc :: svc_handler where
  "critical_exit_svc arg self rt =
     (if critical_cnt rt = 0 then arg_ret arg THINKOS_EFAULT rt
      else
        let rt = rt\<lparr>critical_cnt := critical_cnt rt - 1\<rparr> in
        if critical_cnt rt = 0 then defer_sched rt else rt)"

declare nosys_def [handler_defs] clock_svc_def [handler_defs] thread_self_svc_def [handler_defs]
  critical_enter_svc_def [handler_defs] critical_exit_svc_def [handler_defs] idle_svc_def [handler_defs]
  dbgmon_svc_def [handler_defs]

section \<open>Dispatch\<close>

text \<open>What the services depend on besides the kernel: the image, the board, the vector table.\<close>
record platform =
  img :: image
  env :: sysenv
  irq_lim :: u32

text \<open>
  The switch of \<open>thinkos_svc_isr\<close>, with the service numbers of \<open>syscalls.h\<close>; the
  console and the control service, which may not return, are separate. \<open>qs\<close> are the interrupts that run
  during the service.
\<close>
definition svc_table :: "platform \<Rightarrow> irqs list \<Rightarrow> (nat \<times> svc_handler) list" where
  "svc_table pf qs =
    [(0, thread_self_svc), (1, thread_create_svc (img pf)), (2, clock_svc), (3, alarm_svc), (4, sleep_svc),
     (5, mutex_lock_svc), (6, mutex_trylock_svc), (7, mutex_timedlock_svc), (8, mutex_unlock_svc),
     (9, sem_init_svc), (10, sem_wait_svc qs), (11, sem_trywait_svc (map i_ld qs)), (12, sem_timedwait_svc qs), (13, sem_post_svc),
     (14, cond_wait_svc), (15, cond_timedwait_svc), (16, cond_signal_svc), (17, cond_broadcast_svc),
     (18, flag_take_svc qs), (19, flag_timedtake_svc qs), (20, flag_give_svc), (21, flag_val_svc), (22, flag_clr_svc),
     (23, flag_set_svc), (24, flag_watch_svc), (25, flag_timedwatch_svc),
     (26, gate_wait_svc qs), (27, gate_timedwait_svc qs), (28, gate_exit_svc), (29, gate_open_svc), (30, gate_close_svc),
     (31, ev_wait_svc qs), (32, ev_timedwait_svc qs), (33, ev_raise_svc), (34, ev_mask_svc), (35, ev_clear_svc),
     (37, irq_wait_svc), (38, irq_timedwait_svc), (65, irq_timedwait_cleanup_svc), (39, irq_ctl_svc (irq_lim pf)),
     (40, mutex_alloc_svc), (41, mutex_free_svc), (42, sem_alloc_svc), (43, sem_free_svc),
     (44, cond_alloc_svc), (45, cond_free_svc), (46, flag_alloc_svc), (47, flag_free_svc),
     (48, ev_alloc_svc), (49, ev_free_svc), (50, gate_alloc_svc), (51, gate_free_svc),
     (52, join_svc), (53, pause_svc), (54, resume_svc), (55, cancel_svc (img pf)), (56, exit_svc (img pf)), (57, terminate_svc),
     (61, nosys), (62, critical_enter_svc), (63, critical_exit_svc), (59, nosys),
     (60, idle_svc), (64, dbgmon_svc (img pf))]"

definition svc_isr :: "platform \<Rightarrow> irqs list \<Rightarrow> u32 \<Rightarrow> nat \<Rightarrow> nat \<Rightarrow> thinkos_rt \<Rightarrow> thinkos_rt option" where
  "svc_isr pf qs arg self svc rt =
     (if svc = 36 then console_svc qs arg self rt
      else if svc = 58 then ctl_svc (env pf) arg self rt
      else case map_of (svc_table pf qs) svc of
        Some h \<Rightarrow> Some (h arg self rt)
      | None \<Rightarrow> Some (nosys arg self rt))"

text \<open>
  \<open>cm3_svc_isr\<close>: the arguments are the registers stacked on the process stack, the
  service number is the low byte of the \<open>SVC\<close> instruction before the return address.
\<close>
definition cm3_svc_isr :: "platform \<Rightarrow> irqs list \<Rightarrow> thinkos_rt \<Rightarrow> thinkos_rt option" where
  "cm3_svc_isr pf qs rt =
     (let self = active rt;
          arg = psp rt;
          svc = unat (umem rt (mem rt (arg + 6 * 4) - 2))
      in svc_isr pf qs arg self svc rt)"

end
