(* ===== verification/Invariant.thy ===== *)
theory Invariant
  imports Svc
begin

text \<open>
  What every part of the kernel keeps: the idle thread is in the ready queue and in
  no other, no queue names a thread that does not exist, the allocation bitmaps
  mark the objects past the last one as taken, the lock words and the
  interrupt table name threads, the status words name queues, and the time share
  parameters are within their limits.
\<close>

section \<open>The invariant\<close>

definition wq_ok :: "(nat \<Rightarrow> u32) \<Rightarrow> bool" where
  "wq_ok q \<longleftrightarrow> bit (q 0) 8 \<and> (\<forall>w t. bit (q w) t \<longrightarrow> t < 8 \<or> w = 0 \<and> t = 8)"

definition sched_ok :: "u32 \<Rightarrow> (nat \<Rightarrow> u8) \<Rightarrow> (nat \<Rightarrow> u8) \<Rightarrow> bool" where
  "sched_ok limit pri val \<longleftrightarrow> unat limit \<le> 32 \<and> pri 8 = 0
     \<and> (\<forall>t. 0 \<le> sint (val t) \<and> sint (val t) \<le> uint limit \<and> uint (pri t) \<le> uint limit)"

definition kinv :: "thinkos_rt \<Rightarrow> bool" where
  "kinv rt \<longleftrightarrow> wq_ok (wq_lst rt) \<and> active rt \<le> 9 \<and> (\<forall>t<8. th_stat rt t < 120) \<and> (\<forall>i<80. irq_th rt i \<le> 8)
     \<and> (\<forall>m<8. - 1 \<le> lock rt m \<and> lock rt m < 8)
     \<and> sched_ok (sched_limit rt) (sched_pri rt) (sched_val rt)
     \<and> word_bmp_ok 8 (th_alloc rt) \<and> word_bmp_ok 8 (mutex_alloc rt) \<and> word_bmp_ok 8 (cond_alloc rt) \<and> word_bmp_ok 8 (sem_alloc rt)
     \<and> word_bmp_ok 4 (ev_alloc rt) \<and> word_bmp_ok 8 (flag_alloc rt) \<and> word_bmp_ok 8 (gate_alloc rt)"

lemmas kinv_parts = kinv_def [THEN iffD1]

section \<open>Updates\<close>

named_theorems kinv_intros

text \<open>Fields the invariant does not mention.\<close>
lemma kinv_frame [kinv_intros]:
  "kinv rt \<Longrightarrow> kinv (rt\<lparr>ctx := a1\<rparr>)" "kinv rt \<Longrightarrow> kinv (rt\<lparr>critical_cnt := a2\<rparr>)"
  "kinv rt \<Longrightarrow> kinv (rt\<lparr>ticks := a3\<rparr>)" "kinv rt \<Longrightarrow> kinv (rt\<lparr>clock := a4\<rparr>)"
  "kinv rt \<Longrightarrow> kinv (rt\<lparr>sem_val := a5\<rparr>)" "kinv rt \<Longrightarrow> kinv (rt\<lparr>ev_pend := a6\<rparr>)"
  "kinv rt \<Longrightarrow> kinv (rt\<lparr>ev_mask := a7\<rparr>)" "kinv rt \<Longrightarrow> kinv (rt\<lparr>flag := a8\<rparr>)"
  "kinv rt \<Longrightarrow> kinv (rt\<lparr>gate := a9\<rparr>)" "kinv rt \<Longrightarrow> kinv (rt\<lparr>th_inf := a10\<rparr>)"
  "kinv rt \<Longrightarrow> kinv (rt\<lparr>console := a11\<rparr>)" "kinv rt \<Longrightarrow> kinv (rt\<lparr>mem := a12\<rparr>)"
  "kinv rt \<Longrightarrow> kinv (rt\<lparr>umem := a13\<rparr>)" "kinv rt \<Longrightarrow> kinv (rt\<lparr>pendsv := a14\<rparr>)"
  "kinv rt \<Longrightarrow> kinv (rt\<lparr>bkpt := a15\<rparr>)"
  "kinv rt \<Longrightarrow> kinv (rt\<lparr>wild := a17\<rparr>)" "kinv rt \<Longrightarrow> kinv (rt\<lparr>irq_en := a18\<rparr>)"
  "kinv rt \<Longrightarrow> kinv (rt\<lparr>irq_pnd := a19\<rparr>)" "kinv rt \<Longrightarrow> kinv (rt\<lparr>irq_pri := a20\<rparr>)"
  "kinv rt \<Longrightarrow> kinv (rt\<lparr>nvic_ie := a21\<rparr>)" "kinv rt \<Longrightarrow> kinv (rt\<lparr>irq_en_lst := a22\<rparr>)"
  "kinv rt \<Longrightarrow> kinv (rt\<lparr>dbgmon_events := a23\<rparr>)" "kinv rt \<Longrightarrow> kinv (rt\<lparr>dbgmon_mask := a24\<rparr>)"
  "kinv rt \<Longrightarrow> kinv (rt\<lparr>dbgmon_comm := a25\<rparr>)" "kinv rt \<Longrightarrow> kinv (rt\<lparr>dbgmon_task := a26\<rparr>)"
  "kinv rt \<Longrightarrow> kinv (rt\<lparr>dbgmon_param := a27\<rparr>)" "kinv rt \<Longrightarrow> kinv (rt\<lparr>mon_en := a28, mon_pend := a29\<rparr>)"
  "kinv rt \<Longrightarrow> kinv (rt\<lparr>psp := a30\<rparr>)" "kinv rt \<Longrightarrow> kinv (rt\<lparr>regs := a31\<rparr>)" "kinv rt \<Longrightarrow> kinv (rt\<lparr>xcpt := a32\<rparr>)"
  "kinv rt \<Longrightarrow> kinv (rt\<lparr>mon_req := a33, mon_pend := a34\<rparr>)" "kinv rt \<Longrightarrow> kinv (rt\<lparr>exc_pri := a35\<rparr>)"
  "kinv rt \<Longrightarrow> kinv (rt\<lparr>mon_pend := a36\<rparr>)" "kinv rt \<Longrightarrow> kinv (rt\<lparr>mon_req := a37\<rparr>)"
  by (simp_all add: kinv_def)

lemma wq_ok_put: "wq_ok q \<Longrightarrow> t < 8 \<or> w = 0 \<and> t = 8 \<Longrightarrow> wq_ok (q(w := bit_mem_wr (q w) t True))"
  and wq_ok_clear: "wq_ok q \<Longrightarrow> \<not> (w = 0 \<and> t = 8) \<Longrightarrow> wq_ok (q(w := bit_mem_wr (q w) t False))"
  by (auto simp: wq_ok_def split: if_splits)

lemma wq_ok_suspend: "wq_ok q \<Longrightarrow> t \<noteq> 8 \<Longrightarrow> wq_ok (suspend_wq t q)"
  by (auto simp: wq_ok_def suspend_wq_bits split: if_splits)

lemma kinv_wq: "kinv rt \<Longrightarrow> wq_ok q \<Longrightarrow> kinv (rt\<lparr>wq_lst := q\<rparr>)"
  by (simp add: kinv_def)

lemma kinv_wq_ok: "kinv rt \<Longrightarrow> wq_ok (wq_lst rt)"
  by (simp add: kinv_def)

lemma kinv_wq_bit [kinv_intros]:
  "kinv rt \<Longrightarrow> t < 8 \<or> \<not> v \<and> (w \<noteq> 0 \<or> t \<noteq> 8) \<or> v \<and> w = 0 \<and> t = 8 \<Longrightarrow> kinv (wq_bit w t v rt)"
  using wq_ok_put [of "wq_lst rt" t w] wq_ok_clear [of "wq_lst rt" w t]
  by (cases v) (auto simp: wq_bit_def intro!: kinv_wq dest: kinv_wq_ok)

lemma kinv_suspend [kinv_intros]: "kinv rt \<Longrightarrow> t \<noteq> 8 \<Longrightarrow> kinv (suspend t rt)"
  by (simp add: suspend_eq kinv_wq wq_ok_suspend kinv_wq_ok)

lemma kinv_th_stat [kinv_intros]: "kinv rt \<Longrightarrow> t < 8 \<longrightarrow> v < 120 \<Longrightarrow> kinv (th_stat_st t v rt)"
  by (simp add: kinv_def th_stat_st_def)

lemma kinv_prims [kinv_intros]:
  "kinv rt \<Longrightarrow> kinv (mem_st a v rt)" "kinv rt \<Longrightarrow> kinv (arg_ret arg v rt)"
  "kinv rt \<Longrightarrow> kinv (ctx_r0_st t v rt)" "kinv rt \<Longrightarrow> kinv (ctx_save t arg rt)"
  "kinv rt \<Longrightarrow> kinv (cm3_irq_enable i rt)" "kinv rt \<Longrightarrow> kinv (cm3_irq_disable i rt)"
  "kinv rt \<Longrightarrow> kinv (cm3_irq_pend_clr i rt)" "kinv rt \<Longrightarrow> kinv (cm3_irq_pri_set i p rt)"
  "kinv rt \<Longrightarrow> kinv (dbgmon_signal s rt)" "kinv rt \<Longrightarrow> kinv (dbgmon_clear s rt)"
  "kinv rt \<Longrightarrow> kinv (dbgmon_signal_idle rt)"
  "kinv rt \<Longrightarrow> kinv (defer_sched rt)" "kinv rt \<Longrightarrow> kinv (preempt rt)"
  "kinv rt \<Longrightarrow> kinv (umem_st a xs rt)" "kinv rt \<Longrightarrow> kinv (memset32 a v n rt)"
  "kinv rt \<Longrightarrow> kinv (ctx_pc_st t v rt)"
  by (simp_all add: kinv_def mem_st_def arg_ret_def ctx_r0_st_def ctx_save_def cm3_irq_enable_def cm3_irq_disable_def
    cm3_irq_pend_clr_def cm3_irq_pri_set_def dbgmon_signal_def dbgmon_clear_def dbgmon_signal_idle_def defer_sched_def
    preempt_def umem_st_def memset32_def ctx_pc_st_def)

lemma kinv_queue_prims [kinv_intros]:
  "kinv rt \<Longrightarrow> t < 8 \<Longrightarrow> w < 60 \<Longrightarrow> kinv (wq_insert w t rt)"
  "kinv rt \<Longrightarrow> t < 8 \<Longrightarrow> w < 60 \<Longrightarrow> kinv (tmdwq_insert w t ms rt)"
  "kinv rt \<Longrightarrow> w \<noteq> 0 \<or> t \<noteq> 8 \<Longrightarrow> kinv (wq_remove w t rt)"
  "kinv rt \<Longrightarrow> t < 8 \<Longrightarrow> kinv (wakeup w t rt)"
  "kinv rt \<Longrightarrow> t < 8 \<Longrightarrow> kinv (wakeup_return w t v rt)"
  unfolding wq_insert_def tmdwq_insert_def wq_remove_def wakeup_def wakeup_return_def
  by (intro kinv_intros; simp)+

text \<open>The head of a queue is a thread.\<close>
lemma kinv_head: "kinv rt \<Longrightarrow> w \<noteq> 0 \<Longrightarrow> wq_head w rt \<noteq> 32 \<Longrightarrow> wq_head w rt < 8"
proof -
  assume a: "kinv rt" "w \<noteq> 0" "wq_head w rt \<noteq> 32"
  then have "bit (wq_lst rt w) (wq_head w rt)"
    using bitset_ctz [of "wq_lst rt w"] by (auto simp: wq_head_eq ctz_eq_32)
  then show "wq_head w rt < 8" using a kinv_wq_ok [of rt] unfolding wq_ok_def by blast
qed

lemma kinv_head_clz: "kinv rt \<Longrightarrow> w \<noteq> 0 \<Longrightarrow> clz (rbit (wq_lst rt w)) \<noteq> 32 \<Longrightarrow> clz (rbit (wq_lst rt w)) < 8"
  using kinv_head [of rt w] by (simp add: wq_head_def)


section \<open>Structure of the handlers\<close>

text \<open>
  A handler is a sequence of bindings of the state and of values read from it,
  and of case distinctions; these rules follow its text. A range check of a
  descriptor leaves the bounds for the rest.
\<close>
lemma kinv_let_state [kinv_intros]:
  "kinv a \<Longrightarrow> (\<And>rt. kinv rt \<Longrightarrow> kinv (f rt)) \<Longrightarrow> kinv (let rt = a :: thinkos_rt in f rt)"
  by (simp add: Let_def)

lemma kinv_let_value [kinv_intros]:
  "kinv (f1 a1) \<Longrightarrow> kinv (let x = a1 :: u32 in f1 x)"
  "kinv (f2 a2) \<Longrightarrow> kinv (let x = a2 :: nat in f2 x)"
  "kinv (f3 a3) \<Longrightarrow> kinv (let x = a3 :: bool in f3 x)"
  "kinv (f4 a4) \<Longrightarrow> kinv (let x = a4 :: int in f4 x)"
  "kinv (f5 a5) \<Longrightarrow> kinv (let x = a5 :: console_rt in f5 x)"
  "kinv (f6 a6) \<Longrightarrow> kinv (let x = a6 :: console_pipe in f6 x)"
  by (simp_all add: Let_def)

lemma kinv_let_alloc [kinv_intros]:
  "(\<And>b i. a = (b, i) \<Longrightarrow> kinv (f b i)) \<Longrightarrow> kinv (let (b, i) = (a :: u32 \<times> int) in f b i)"
  by (cases a) simp

lemma kinv_let_pair [kinv_intros]:
  "kinv (snd a) \<Longrightarrow> (\<And>x rt. kinv rt \<Longrightarrow> kinv (f x rt)) \<Longrightarrow> kinv (let (x, rt) = (a :: 'a \<times> thinkos_rt) in f x rt)"
  by (cases a) simp

text \<open>\<open>wq - BASE >= MAX\<close> in unsigned arithmetic.\<close>
lemma kinv_range [kinv_intros]:
  "kinv x \<Longrightarrow> (b \<le> unat w \<Longrightarrow> unat w < b + m \<Longrightarrow> unat (w - of_nat b) < m \<Longrightarrow> kinv y)
   \<Longrightarrow> b + m < 2 ^ 32 \<Longrightarrow> kinv (if of_nat m \<le> (w - of_nat b :: u32) then x else y)"
  using obj_index [of m w b] by auto

lemma kinv_if [kinv_intros]: "(b \<Longrightarrow> kinv x) \<Longrightarrow> (\<not> b \<Longrightarrow> kinv y) \<Longrightarrow> kinv (if b then x else y)"
  by simp

section \<open>Interrupts\<close>

text \<open>Removing the first thread of a queue with \<open>STREX\<close>.\<close>
lemma kinv_take_head [kinv_intros]:
  "kinv rt \<Longrightarrow> w \<noteq> 0 \<Longrightarrow> kinv (rt\<lparr>wq_lst := (wq_lst rt)(w := wq_lst rt w AND NOT (push_bit t 1))\<rparr>)"
  using wq_ok_clear [of "wq_lst rt" w t] by (simp add: kinv_wq kinv_wq_ok)

lemma kinv_signal_routines:
  "kinv rt \<Longrightarrow> w \<noteq> 0 \<Longrightarrow> kinv (sem_post_i w rt)"
  "kinv rt \<Longrightarrow> w \<noteq> 0 \<Longrightarrow> kinv (flag_give_i w rt)"
  "kinv rt \<Longrightarrow> w \<noteq> 0 \<Longrightarrow> kinv (ev_raise_i w ev rt)"
  "kinv rt \<Longrightarrow> w \<noteq> 0 \<Longrightarrow> kinv (gate_open_i w rt)"
  unfolding sem_post_i_def flag_give_i_def ev_raise_i_def gate_open_i_def
  by (intro kinv_intros; simp add: kinv_head_clz)+


declare kinv_signal_routines [kinv_intros]

lemma kinv_irq_th [kinv_intros]: "kinv rt \<Longrightarrow> t \<le> 8 \<Longrightarrow> kinv (rt\<lparr>irq_th := (irq_th rt)(i := t)\<rparr>)"
  by (simp add: kinv_def)

lemma kinv_default_isr: "kinv rt \<Longrightarrow> i < 80 \<Longrightarrow> kinv (cm3_default_isr i rt)"
proof -
  assume k: "kinv rt" "i < 80"
  define t where "t = irq_th rt i"
  have t: "t \<le> 8" using k by (simp add: kinv_def t_def)
  have "kinv (preempt (wq_remove THINKOS_WQ_IRQ t (wq_bit THINKOS_WQ_READY t True
          (cm3_irq_disable i rt\<lparr>irq_th := (irq_th (cm3_irq_disable i rt))(i := THINKOS_THREAD_IDLE)\<rparr>))))"
    using t by (intro kinv_intros k) auto
  then show ?thesis
    by (simp add: cm3_default_isr_def cm3_irq_disable_def t_def Let_def)
qed

lemma kinv_console_commits:
  "kinv rt \<Longrightarrow> kinv (console_tx_pipe_commit n rt)"
  "kinv rt \<Longrightarrow> kinv (console_rx_pipe_commit n rt)"
proof -
  assume k: "kinv rt"
  show "kinv (console_tx_pipe_commit n rt)"
    unfolding console_tx_pipe_commit_def
    by (intro kinv_intros; simp add: k kinv_head)
  define rt1 where "rt1 = rt\<lparr>console := console rt\<lparr>rx_pipe := rx_pipe (console rt)\<lparr>head := head (rx_pipe (console rt)) + of_nat n\<rparr>\<rparr>\<rparr>"
  have k1: "kinv rt1" unfolding rt1_def by (intro kinv_intros k)
  define t where "t = wq_head THINKOS_WQ_CONSOLE_RD rt1"
  have t: "t \<noteq> 32 \<Longrightarrow> t < 8" unfolding t_def by (rule kinv_head [OF k1]) simp_all
  define rt2 where "rt2 = (if ctx rt1 t = 0 then rt1\<lparr>wild := True\<rparr> else rt1)"
  have k2: "kinv rt2" unfolding rt2_def by (intro kinv_intros k1)
  obtain xs p where r: "rx_pipe_read (mem rt2 (ctx rt2 t + 4 * of_nat (CTX_R0 + 2))) (rx_pipe (console rt2)) = (xs, p)"
    by (cases "rx_pipe_read (mem rt2 (ctx rt2 t + 4 * of_nat (CTX_R0 + 2))) (rx_pipe (console rt2))")
  have "console_rx_pipe_commit n rt =
      (if t = 32 then rt1
       else let rt = umem_st (mem rt2 (ctx rt2 t + 4 * of_nat (CTX_R0 + 1))) xs (rt2\<lparr>console := (console rt2)\<lparr>rx_pipe := p\<rparr>\<rparr>)
            in if xs = [] then rt else defer_sched (wakeup_return THINKOS_WQ_CONSOLE_RD t (of_nat (length xs)) rt))"
    unfolding console_rx_pipe_commit_def Let_def rt1_def [symmetric] t_def [symmetric] rt2_def [symmetric] r
    by simp
  also have "kinv \<dots>"
    by (intro kinv_intros; simp add: k1 k2 t)
  finally show "kinv (console_rx_pipe_commit n rt)" .
qed

lemma kinv_isr: "kinv rt \<Longrightarrow> isr_ok i \<Longrightarrow> kinv (isr_run i rt)"
  by (cases i)
    (auto simp: cm3_except7_isr_def cm3_except9_isr_def cm3_except10_isr_def cm3_except13_isr_def
      intro!: kinv_intros kinv_default_isr kinv_console_commits)

lemma kinv_isrs: "list_all isr_ok is \<Longrightarrow> kinv rt \<Longrightarrow> kinv (isrs_run is rt)"
  by (induction "is" arbitrary: rt) (auto intro: kinv_isr)

section \<open>Waiting services\<close>

text \<open>The parts of a waiting service keep the invariant.\<close>
definition wait_keeps :: "(thinkos_rt \<Rightarrow> thinkos_rt) \<Rightarrow> bool" where
  "wait_keeps f \<longleftrightarrow> (\<forall>rt. kinv rt \<longrightarrow> kinv (f rt))"

lemma kinv_wait_block:
  assumes "kinv rt" "self < 8" "w \<noteq> 0" "irqs_ok q" "wait_keeps prep" "wait_keeps arm" "wait_keeps fin"
  shows "kinv (snd (wait_block avail prep arm fin w self q rt))"
proof -
  have q: "list_all isr_ok (i_ld q)" "list_all isr_ok (i_susp q)" "list_all isr_ok (i_chk q)"
    "list_all isr_ok (i_strex q)" "list_all isr_ok (i_tail q)" "list_all isr_ok (i_ret q)"
    using assms(4) by (simp_all add: irqs_ok_def)
  define rt1 where "rt1 = isrs_run (i_susp q) (prep (suspend self (isrs_run (i_ld q) rt)))"
  have k1: "kinv rt1"
    using assms q by (simp add: rt1_def kinv_isrs wait_keeps_def kinv_suspend)
  define rt2 where "rt2 = isrs_run (i_chk q) rt1"
  have k2: "kinv rt2" unfolding rt2_def by (rule kinv_isrs [OF q(3) k1])
  have roll: "kinv (wait_rollback self rt)" if "kinv rt" for rt
    unfolding wait_rollback_def using that assms(2) by (intro kinv_intros) auto
  have ins: "kinv (rt1\<lparr>wq_lst := (wq_lst rt1)(w := wq_lst rt1 w OR push_bit self 1)\<rparr>)"
    using wq_ok_put [of "wq_lst rt1" self w] k1 assms(2) by (simp add: kinv_wq kinv_wq_ok)
  have "wait_block avail prep arm fin w self q rt =
     (if avail rt2 then (True, isrs_run (i_strex q) (wait_rollback self rt2))
      else if i_chk q \<noteq> [] \<or> i_strex q \<noteq> [] then (True, wait_rollback self (isrs_run (i_strex q) rt2))
      else (False, fin (isrs_run (i_ret q) (arm (isrs_run (i_tail q) (rt1\<lparr>wq_lst := (wq_lst rt1)(w := wq_lst rt1 w OR push_bit self 1)\<rparr>))))))"
    by (simp add: wait_block_def Let_def rt1_def [symmetric] rt2_def)
  then show ?thesis
    using assms q k2 ins by (simp add: wait_keeps_def kinv_isrs roll)
qed

lemma kinv_wait_once:
  assumes "kinv rt" "self < 8" "w \<noteq> 0" "irqs_ok q" "wait_keeps prep" "wait_keeps arm" "wait_keeps fin" "wait_keeps tak"
  shows "kinv (snd (wait_once avail tak prep arm fin w self q rt))"
  using assms kinv_wait_block [of rt self w q prep arm fin avail]
  by (auto simp: wait_once_def wait_keeps_def irqs_ok_def intro!: kinv_isrs)

lemma irqs_ok_none: "irqs_ok no_irqs"
  by (simp add: irqs_ok_def no_irqs_def)

lemma kinv_retry:
  assumes "\<And>q rt. q = q0 \<or> q \<in> set qs \<Longrightarrow> kinv rt \<Longrightarrow> kinv (snd (body q rt))" "kinv rt"
  shows "kinv (retry body q0 qs rt)"
  using assms
proof (induction qs arbitrary: rt)
  case (Cons q qs)
  have "kinv (snd (body q rt))" using Cons.prems by simp
  then show ?case using Cons by (cases "body q rt") auto
qed simp

lemma kinv_retry_wait [kinv_intros]:
  assumes "kinv rt" "\<forall>q\<in>set qs. irqs_ok q" "self < 8" "w \<noteq> 0" "wait_keeps tak" "wait_keeps prep" "wait_keeps arm" "wait_keeps fin"
  shows "kinv (retry (wait_once avail tak prep arm fin w self) no_irqs qs rt)"
  using assms irqs_ok_none by (intro kinv_retry kinv_wait_once) auto

lemma wait_keeps_parts [kinv_intros]:
  "self < 8 \<Longrightarrow> s < 120 \<Longrightarrow> wait_keeps (prep_stat self s)"
  "self < 8 \<Longrightarrow> s < 120 \<Longrightarrow> wait_keeps (prep_ctx self s arg)"
  "self < 8 \<Longrightarrow> wait_keeps (arm_clock self ms)" "wait_keeps (\<lambda>rt. rt)" "wait_keeps (tail_timed arg)" "wait_keeps defer_sched"
  "wait_keeps (sem_take n arg)" "wait_keeps (flag_clear n arg)" "wait_keeps (ev_take msk n arg)" "wait_keeps (gate_pass n arg)"
  unfolding wait_keeps_def prep_stat_def prep_ctx_def arm_clock_def tail_timed_def sem_take_def flag_clear_def ev_take_def gate_pass_def
  by (intro allI impI kinv_intros; simp)+


section \<open>Services\<close>

definition svc_keeps :: "svc_handler \<Rightarrow> bool" where
  "svc_keeps h \<longleftrightarrow> (\<forall>arg self rt. self < 8 \<longrightarrow> kinv rt \<longrightarrow> kinv (h arg self rt))"

lemma svc_keepsI: "(\<And>arg self rt. self < 8 \<Longrightarrow> kinv rt \<Longrightarrow> kinv (h arg self rt)) \<Longrightarrow> svc_keeps h"
  by (simp add: svc_keeps_def)

text \<open>Allocation takes a free object, so the bits past the last object stay set.\<close>
lemma bmp_ok_put: "word_bmp_ok n b \<Longrightarrow> word_bmp_ok n (bit_mem_wr b k True)"
  and bmp_ok_clear: "word_bmp_ok n b \<Longrightarrow> k < n \<Longrightarrow> word_bmp_ok n (bit_mem_wr b k False)"
  by (auto simp: word_bmp_ok_def)

lemma kinv_alloc_maps [kinv_intros]:
  "kinv rt \<Longrightarrow> word_bmp_ok 8 b \<Longrightarrow> kinv (rt\<lparr>mutex_alloc := b\<rparr>)" "kinv rt \<Longrightarrow> word_bmp_ok 8 b \<Longrightarrow> kinv (rt\<lparr>cond_alloc := b\<rparr>)"
  "kinv rt \<Longrightarrow> word_bmp_ok 8 b \<Longrightarrow> kinv (rt\<lparr>sem_alloc := b\<rparr>)" "kinv rt \<Longrightarrow> word_bmp_ok 4 b \<Longrightarrow> kinv (rt\<lparr>ev_alloc := b\<rparr>)"
  "kinv rt \<Longrightarrow> word_bmp_ok 8 b \<Longrightarrow> kinv (rt\<lparr>flag_alloc := b\<rparr>)" "kinv rt \<Longrightarrow> word_bmp_ok 8 b \<Longrightarrow> kinv (rt\<lparr>gate_alloc := b\<rparr>)"
  "kinv rt \<Longrightarrow> word_bmp_ok 8 b \<Longrightarrow> kinv (rt\<lparr>th_alloc := b\<rparr>)"
  by (simp_all add: kinv_def)

lemma kinv_bmps:
  "kinv rt \<Longrightarrow> word_bmp_ok 8 (th_alloc rt)" "kinv rt \<Longrightarrow> word_bmp_ok 8 (mutex_alloc rt)" "kinv rt \<Longrightarrow> word_bmp_ok 8 (cond_alloc rt)"
  "kinv rt \<Longrightarrow> word_bmp_ok 8 (sem_alloc rt)" "kinv rt \<Longrightarrow> word_bmp_ok 4 (ev_alloc rt)" "kinv rt \<Longrightarrow> word_bmp_ok 8 (flag_alloc rt)"
  "kinv rt \<Longrightarrow> word_bmp_ok 8 (gate_alloc rt)"
  by (simp_all add: kinv_def)

lemma kinv_lock [kinv_intros]: "kinv rt \<Longrightarrow> - 1 \<le> v \<Longrightarrow> v < 8 \<Longrightarrow> kinv (rt\<lparr>lock := (lock rt)(m := v)\<rparr>)"
  by (simp add: kinv_def)

lemmas kinv_side = kinv_head kinv_head_clz kinv_bmps bmp_ok_put bmp_ok_clear

lemma mutex_keeps:
  "svc_keeps mutex_lock_svc" "svc_keeps mutex_trylock_svc" "svc_keeps mutex_timedlock_svc"
  "svc_keeps mutex_unlock_svc" "svc_keeps mutex_free_svc"
  unfolding handler_defs
  by (intro svc_keepsI kinv_intros; simp add: kinv_side)+

lemma cond_keeps:
  "svc_keeps cond_wait_svc" "svc_keeps cond_timedwait_svc" "svc_keeps cond_signal_svc" "svc_keeps cond_free_svc"
  unfolding handler_defs
  by (intro svc_keepsI kinv_intros; simp add: kinv_side)+


lemma bmp_ok_alloc: "bmp_alloc1 w m = (b, i) \<Longrightarrow> word_bmp_ok n w \<Longrightarrow> 0 < m \<Longrightarrow> m \<le> 32 \<Longrightarrow> word_bmp_ok n b"
  using bmp_alloc1_eq [of m w] bmp_ok_put [of n w] by (auto split: if_splits)

lemma alloc_keeps:
  "svc_keeps mutex_alloc_svc" "svc_keeps cond_alloc_svc" "svc_keeps sem_alloc_svc" "svc_keeps ev_alloc_svc"
  "svc_keeps flag_alloc_svc" "svc_keeps gate_alloc_svc"
  unfolding handler_defs
  by (intro svc_keepsI kinv_intros; auto intro: bmp_ok_alloc kinv_bmps)+

text \<open>The loop of a broadcast.\<close>
lemma kinv_wakeup_all_return [kinv_intros]: "kinv rt \<Longrightarrow> w \<noteq> 0 \<Longrightarrow> kinv (wakeup_all_return w v rt)"
proof (induction w v rt rule: wakeup_all_return.induct)
  case (1 w v rt)
  show ?case
  proof (cases "wq_head w rt = 32")
    case False
    then have "wq_head w rt < 8" using "1.prems" by (simp add: kinv_head)
    then have "kinv (wakeup_return w (wq_head w rt) v rt)" using "1.prems" by (intro kinv_intros) auto
    then show ?thesis using "1.IH" [OF refl] "1.prems" False by (simp add: wakeup_all_return.simps [of w v rt] Let_def)
  qed (use "1.prems" in \<open>simp add: wakeup_all_return.simps [of w v rt] Let_def\<close>)
qed

lemma kinv_wakeup_all [kinv_intros]: "kinv rt \<Longrightarrow> w \<noteq> 0 \<Longrightarrow> kinv (wakeup_all w rt)"
  by (simp add: wakeup_all_is_return kinv_intros)

lemma cond_broadcast_keeps: "svc_keeps cond_broadcast_svc"
  unfolding handler_defs by (intro svc_keepsI kinv_intros; simp add: kinv_side)

lemma sem_keeps:
  "svc_keeps sem_init_svc" "svc_keeps sem_free_svc" "svc_keeps sem_post_svc"
  "\<forall>q\<in>set qs. irqs_ok q \<Longrightarrow> svc_keeps (sem_wait_svc qs)"
  "\<forall>q\<in>set qs. irqs_ok q \<Longrightarrow> svc_keeps (sem_timedwait_svc qs)"
  unfolding handler_defs
  by (intro svc_keepsI kinv_intros; simp add: kinv_side)+

lemma sem_trywait_keeps: "\<forall>q\<in>set qs. list_all isr_ok q \<Longrightarrow> svc_keeps (sem_trywait_svc qs)"
proof (rule svc_keepsI)
  fix arg self rt
  assume q: "\<forall>q\<in>set qs. list_all isr_ok q" and k: "kinv rt"
  have "kinv (snd (sem_trywait_once arg n q rt))" if "q = [] \<or> q \<in> set qs" "kinv rt" for n q rt
    using that q by (auto simp: sem_trywait_once_def Let_def intro!: kinv_intros kinv_isrs)
  then have "kinv (retry (sem_trywait_once arg n) [] qs rt)" for n
    by (intro kinv_retry k) auto
  then show "kinv (sem_trywait_svc qs arg self rt)"
    unfolding sem_trywait_svc_def by (intro kinv_intros; simp add: k)
qed

lemma flag_keeps:
  "svc_keeps flag_free_svc" "svc_keeps flag_give_svc" "svc_keeps flag_val_svc" "svc_keeps flag_clr_svc"
  "svc_keeps flag_set_svc" "svc_keeps flag_watch_svc" "svc_keeps flag_timedwatch_svc"
  "\<forall>q\<in>set qs. irqs_ok q \<Longrightarrow> svc_keeps (flag_take_svc qs)"
  "\<forall>q\<in>set qs. irqs_ok q \<Longrightarrow> svc_keeps (flag_timedtake_svc qs)"
  unfolding handler_defs flag_clr_def
  by (intro svc_keepsI kinv_intros; simp add: kinv_side)+

lemma ev_keeps:
  "svc_keeps ev_raise_svc" "svc_keeps ev_mask_svc" "svc_keeps ev_clear_svc"
  "\<forall>q\<in>set qs. irqs_ok q \<Longrightarrow> svc_keeps (ev_wait_svc qs)"
  "\<forall>q\<in>set qs. irqs_ok q \<Longrightarrow> svc_keeps (ev_timedwait_svc qs)"
  unfolding handler_defs
  by (intro svc_keepsI kinv_intros; simp add: kinv_side)+

lemma gate_keeps:
  "svc_keeps gate_free_svc" "svc_keeps gate_exit_svc" "svc_keeps gate_open_svc" "svc_keeps gate_close_svc"
  "\<forall>q\<in>set qs. irqs_ok q \<Longrightarrow> svc_keeps (gate_wait_svc qs)"
  unfolding handler_defs
  by (intro svc_keepsI kinv_intros; simp add: kinv_side)+

lemma irq_keeps:
  "svc_keeps irq_wait_svc" "svc_keeps irq_timedwait_svc" "svc_keeps irq_timedwait_cleanup_svc" "svc_keeps (irq_ctl_svc lim)"
  unfolding handler_defs
  by (intro svc_keepsI kinv_intros; simp add: kinv_side)+

lemma time_keeps: "svc_keeps sleep_svc" "svc_keeps alarm_svc"
  unfolding handler_defs
  by (intro svc_keepsI kinv_intros; simp add: kinv_side)+

lemma small_keeps:
  "svc_keeps nosys" "svc_keeps clock_svc" "svc_keeps thread_self_svc" "svc_keeps critical_enter_svc"
  "svc_keeps critical_exit_svc" "svc_keeps idle_svc"
  unfolding handler_defs
  by (intro svc_keepsI kinv_intros; simp add: kinv_side)+


lemma gate_timedwait_keeps: "\<forall>q\<in>set qs. irqs_ok q \<Longrightarrow> svc_keeps (gate_timedwait_svc qs)"
proof (rule svc_keepsI)
  fix arg :: u32 and self :: nat and rt :: thinkos_rt
  assume q: "\<forall>q\<in>set qs. irqs_ok q" and s: "self < 8" and k: "kinv rt"
  have "kinv (snd (gate_timed_once g self arg ms q rt))"
    if "q = no_irqs \<or> q \<in> set qs" "kinv rt" "g < 8" for g ms q rt
    using that q s irqs_ok_none unfolding gate_timed_once_def
    by (auto intro!: kinv_wait_once kinv_intros simp del: push_bit_of_1)
  then have "kinv (retry (gate_timed_once g self arg ms) no_irqs qs rt)" if "g < 8" for g ms
    using that by (intro kinv_retry k) auto
  then show "kinv (gate_timedwait_svc qs arg self rt)"
    unfolding gate_timedwait_svc_def by (intro kinv_intros; simp add: k)
qed

lemma ev_free_keeps: "svc_keeps ev_free_svc"
proof -
  have "unat (w - 27) < 4" if "\<not> (w < 27 \<or> 31 \<le> w)" for w :: u32
  proof -
    have "\<not> of_nat 4 \<le> w - of_nat 27"
      using that by (simp add: word_le_nat_alt word_less_nat_alt unat_sub) linarith
    then show ?thesis using obj_index(2) [of 4 w 27] by simp
  qed
  then show ?thesis
    unfolding handler_defs by (intro svc_keepsI kinv_intros; simp add: kinv_side)
qed

section \<open>Pausing and resuming\<close>

lemma kinv_case_option [kinv_intros]:
  "(x = None \<Longrightarrow> kinv a) \<Longrightarrow> (\<And>y. x = Some y \<Longrightarrow> kinv (f y)) \<Longrightarrow> kinv (case x of None \<Rightarrow> a | Some y \<Rightarrow> f y)"
  by (cases x) simp_all

lemma kinv_resume_routines:
  "kinv rt \<Longrightarrow> t < 8 \<Longrightarrow> kinv (ready_resume t w tmw rt)" "kinv rt \<Longrightarrow> t < 8 \<Longrightarrow> kinv (irq_resume t w tmw rt)"
  "kinv rt \<Longrightarrow> t < 8 \<Longrightarrow> kinv (tmshare_resume t w tmw rt)" "kinv rt \<Longrightarrow> t < 8 \<Longrightarrow> kinv (clock_resume t w tmw rt)"
  "kinv rt \<Longrightarrow> t < 8 \<Longrightarrow> kinv (mutex_resume t w tmw rt)" "kinv rt \<Longrightarrow> t < 8 \<Longrightarrow> kinv (cond_resume t w tmw rt)"
  "kinv rt \<Longrightarrow> t < 8 \<Longrightarrow> kinv (semaphore_resume t w tmw rt)" "kinv rt \<Longrightarrow> t < 8 \<Longrightarrow> kinv (evset_resume t w tmw rt)"
  "kinv rt \<Longrightarrow> t < 8 \<Longrightarrow> kinv (flag_resume t w tmw rt)" "kinv rt \<Longrightarrow> t < 8 \<Longrightarrow> kinv (gate_resume t w tmw rt)"
  "kinv rt \<Longrightarrow> t < 8 \<Longrightarrow> kinv (join_resume t w tmw rt)" "kinv rt \<Longrightarrow> t < 8 \<Longrightarrow> kinv (console_rd_resume t w tmw rt)"
  "kinv rt \<Longrightarrow> t < 8 \<Longrightarrow> kinv (console_wr_resume t w tmw rt)" "kinv rt \<Longrightarrow> t < 8 \<Longrightarrow> kinv (canceled_resume t w tmw rt)"
  "kinv rt \<Longrightarrow> kinv (paused_resume t w tmw rt)"
  unfolding resume_defs by (intro kinv_intros; simp)+

lemma kinv_resume_fns:
  assumes "thread_resume_lut ty = Some r" "kinv rt" "t < 8"
  shows "kinv (r t w tmw rt)"
  using assms by (cases ty) (auto intro: kinv_resume_routines)

lemma snd_let: "snd (let x = a in f x) = (let x = a in snd (f x))"
  by (simp add: Let_def)

lemmas snd_push = if_distrib [of snd] snd_let snd_conv

lemma kinv_thread_resume [kinv_intros]: "kinv rt \<Longrightarrow> t < 8 \<Longrightarrow> kinv (snd (thread_resume t rt))"
  unfolding thread_resume_def snd_push
  by (intro kinv_intros; (simp add: kinv_resume_fns)?)

lemma kinv_thread_pause [kinv_intros]: "kinv rt \<Longrightarrow> t < 8 \<Longrightarrow> kinv (snd (thread_pause t rt))"
  unfolding thread_pause_def snd_push
  by (intro kinv_intros; simp)


lemma pause_keeps: "svc_keeps pause_svc" "svc_keeps resume_svc"
  unfolding handler_defs
  by (intro svc_keepsI kinv_intros; simp add: word_le_nat_alt kinv_side)+

section \<open>Threads\<close>

lemma kinv_fold: "(\<And>x rt. x \<in> set xs \<Longrightarrow> kinv rt \<Longrightarrow> kinv (f x rt)) \<Longrightarrow> kinv rt \<Longrightarrow> kinv (fold f xs rt)"
  by (induction xs arbitrary: rt) auto

lemma kinv_pause_all [kinv_intros]: "kinv rt \<Longrightarrow> kinv (pause_all rt)" "kinv rt \<Longrightarrow> kinv (resume_all rt)"
  unfolding pause_all_def resume_all_def by (intro kinv_intros kinv_fold; simp)+

lemma kinv_active [kinv_intros]: "kinv rt \<Longrightarrow> v \<le> 9 \<Longrightarrow> kinv (rt\<lparr>active := v\<rparr>)"
  by (simp add: kinv_def)

text \<open>A priority never exceeds the limit, so aborting a thread leaves the limit.\<close>
lemma kinv_limit [kinv_intros]: "kinv rt \<Longrightarrow> unat (sched_limit rt) < unat (sched_pri rt j) \<Longrightarrow> kinv (rt\<lparr>sched_limit := v\<rparr>)"
proof -
  assume k: "kinv rt" and l: "unat (sched_limit rt) < unat (sched_pri rt j)"
  have "uint (sched_pri rt j) \<le> uint (sched_limit rt)" using k by (simp add: kinv_def sched_ok_def)
  then have "unat (sched_pri rt j) \<le> unat (sched_limit rt)" by (simp flip: nat_uint_eq add: nat_mono)
  with l show ?thesis by simp
qed

lemma kinv_thread_abort [kinv_intros]: "kinv rt \<Longrightarrow> t < 8 \<Longrightarrow> kinv (thread_abort t rt)"
  unfolding thread_abort_def
  by (intro kinv_fold kinv_intros; simp add: kinv_side)

lemma kinv_join_wakeup [kinv_intros]: "kinv rt \<Longrightarrow> w \<noteq> 0 \<Longrightarrow> kinv (join_wakeup w code rt)"
proof (induction w code rt rule: join_wakeup.induct)
  case (1 w code rt)
  show ?case
  proof (cases "wq_head w rt = 32")
    case False
    then have "wq_head w rt < 8" using "1.prems" by (simp add: kinv_head)
    then have "kinv (ctx_r0_st (wq_head w rt) code (wakeup w (wq_head w rt) rt))" using "1.prems" by (intro kinv_intros) auto
    then show ?thesis using "1.IH" [OF refl] "1.prems" False by (simp add: join_wakeup.simps [of w code rt] Let_def)
  qed (use "1.prems" in \<open>simp add: join_wakeup.simps [of w code rt] Let_def\<close>)
qed

lemma thread_end_keeps: "svc_keeps terminate_svc" "svc_keeps (exit_svc im)" "svc_keeps join_svc" "svc_keeps (cancel_svc im)"
  unfolding handler_defs
  by (intro svc_keepsI kinv_intros; simp add: word_le_nat_alt kinv_side)+

lemma kinv_thread_init [kinv_intros]: "kinv rt \<Longrightarrow> t < 8 \<Longrightarrow> kinv (thread_init im t sp f a rt)"
  unfolding thread_init_def by (intro kinv_intros; simp)

lemma kinv_sched_setup [kinv_intros]:
  assumes "kinv rt" "t < 8" "p < 256"
  shows "kinv (sched_setup t p rt)"
proof -
  have l: "unat (sched_limit rt) \<le> 32" using assms(1) by (simp add: kinv_def sched_ok_def)
  note s = sched_setup_slice [OF l assms(3) refl, where th = t]
  have mono: "uint (sched_limit rt) \<le> uint (sched_limit (sched_setup t p rt))"
    unfolding word_le_def [symmetric] word_le_nat_alt by (rule s(2))
  have "sched_ok (sched_limit (sched_setup t p rt)) (sched_pri (sched_setup t p rt)) (sched_val (sched_setup t p rt))"
    unfolding sched_ok_def
  proof (intro conjI allI)
    show "unat (sched_limit (sched_setup t p rt)) \<le> 32" by (rule s(1))
    show "sched_pri (sched_setup t p rt) 8 = 0"
      using s(5) [of 8] assms by (simp add: kinv_def sched_ok_def)
    fix u
    show "0 \<le> sint (sched_val (sched_setup t p rt) u)"
      "sint (sched_val (sched_setup t p rt) u) \<le> uint (sched_limit (sched_setup t p rt))"
      "uint (sched_pri (sched_setup t p rt) u) \<le> uint (sched_limit (sched_setup t p rt))"
      using s(3) s(5) [of u] mono assms(1) by (cases "u = t"; auto simp: slice_ok_def kinv_def sched_ok_def intro: order_trans)+
  qed
  moreover have "active (sched_setup t p rt) = active rt" "irq_th (sched_setup t p rt) = irq_th rt" "lock (sched_setup t p rt) = lock rt"
    "mutex_alloc (sched_setup t p rt) = mutex_alloc rt" "cond_alloc (sched_setup t p rt) = cond_alloc rt"
    "sem_alloc (sched_setup t p rt) = sem_alloc rt" "ev_alloc (sched_setup t p rt) = ev_alloc rt"
    "flag_alloc (sched_setup t p rt) = flag_alloc rt" "gate_alloc (sched_setup t p rt) = gate_alloc rt"
    by (simp_all add: sched_setup_def Let_def)
  ultimately show ?thesis using assms(1) by (simp add: kinv_def)
qed

text \<open>The number of a new thread is that of a free slot.\<close>
lemma thread_slot_bound:
  assumes "word_bmp_ok 8 b" "thread_slot no b = Some (t, b')"
  shows "t < 8" "word_bmp_ok 8 b'"
proof -
  let ?F = "{m. m < 8 \<and> \<not> bit b m}"
  have s: "?F \<noteq> {}" "t = slot_choice (no - 1) ?F" "b' = bit_mem_wr b t True"
    using thread_slot_spec [OF assms(1), of no] assms(2) by (auto split: if_splits)
  have fin: "finite ?F" by simp
  have "t \<in> ?F"
    using s(1) fin Max_in [OF fin s(1)] Min_in [of "{m \<in> ?F. no - 1 \<le> m}"] unfolding s(2) slot_choice_def by (auto split: if_splits)
  then show "t < 8" by simp
  show "word_bmp_ok 8 b'" unfolding s(3) by (rule bmp_ok_put [OF assms(1)])
qed

lemma opt_priority_less: "opt_priority opt < 256"
proof -
  have "unat (take_bit 8 (drop_bit 16 opt)) = take_bit 8 (unat (drop_bit 16 opt))" by (simp add: unsigned_take_bit_eq)
  then show ?thesis using take_bit_nat_less_exp [of 8 "unat (drop_bit 16 opt)"] by (simp add: opt_priority_def)
qed

lemma thread_create_keeps: "svc_keeps (thread_create_svc im)"
proof (rule svc_keepsI)
  fix arg self rt
  assume k: "kinv rt"
  show "kinv (thread_create_svc im arg self rt)"
  proof (cases "thread_slot (opt_id (arg_ld rt arg 3)) (th_alloc rt)")
    case None
    then show ?thesis using k by (simp add: thread_create_svc_def kinv_intros)
  next
    case (Some r)
    obtain t b where r: "r = (t, b)" by (cases r)
    have t: "t < 8" "word_bmp_ok 8 b"
      using thread_slot_bound [of "th_alloc rt"] Some r k by (auto simp: kinv_bmps)
    show ?thesis
      unfolding thread_create_svc_def Let_def [of "arg_ld rt arg 3"] Some r option.case prod.case
      by (intro kinv_intros; simp add: k t opt_priority_less)
  qed
qed

section \<open>Control and monitor\<close>

lemma kinv_ctl:
  assumes "ctl_svc e arg self rt = Some rt'" "kinv rt"
  shows "kinv rt'"
  using assms unfolding ctl_svc_def Let_def
  by (auto split: if_splits intro!: kinv_intros)

lemma kinv_nvic [kinv_intros]:
  "kinv rt \<Longrightarrow> kinv (nvic_ie_st i w rt)" "kinv rt \<Longrightarrow> kinv (nvic_iser_st i w rt)" "kinv rt \<Longrightarrow> kinv (nvic_icer_st i w rt)"
  unfolding nvic_ie_st_def nvic_iser_st_def nvic_icer_st_def by (intro kinv_intros; simp)+

lemma kinv_irq_mgmt [kinv_intros]:
  "kinv rt \<Longrightarrow> kinv (dmon_irq_force_enable rt)" "kinv rt \<Longrightarrow> kinv (dmon_irq_disable_all rt)"
  "kinv rt \<Longrightarrow> kinv (dmon_irq_pause_all rt)" "kinv rt \<Longrightarrow> kinv (dmon_irq_restore_all rt)"
  unfolding dmon_irq_force_enable_def dmon_irq_disable_all_def dmon_irq_pause_all_def dmon_irq_restore_all_def
    force_enable_one_def irq_disable_reg_def irq_pause_reg_def irq_restore_reg_def
  by (intro kinv_fold kinv_intros; simp)+

lemma kinv_irq_probe: "kinv rt \<Longrightarrow> kinv (snd (irq_probe i cnt m rt))"
proof (induction i cnt m rt rule: irq_probe.induct)
  case (1 i cnt m rt)
  then show ?case by (subst irq_probe.simps) (auto simp: Let_def intro!: kinv_intros)
qed

lemma kinv_irq_init [kinv_intros]: "kinv rt \<Longrightarrow> kinv (dmon_irq_init rt)"
proof -
  assume "kinv rt"
  have step: "kinv (snd (irq_init_reg i s))" if "kinv (snd s)" for i s
    using that by (cases s) (simp add: irq_init_reg_def Let_def kinv_irq_probe kinv_intros)
  have "kinv (snd (fold irq_init_reg is s))" if "kinv (snd s)" for "is" s
    using that by (induction "is" arbitrary: s) (simp_all add: step)
  then show ?thesis using \<open>kinv rt\<close> by (simp add: dmon_irq_init_def Let_def kinv_intros)
qed

lemma dbgmon_keeps: "svc_keeps (dbgmon_svc im)"
  unfolding handler_defs by (intro svc_keepsI kinv_intros; simp)


section \<open>The console\<close>

lemma kinv_pipes [kinv_intros]: "kinv rt \<Longrightarrow> kinv (snd (pipe_write bp len rt))" "kinv rt \<Longrightarrow> kinv (snd (pipe_read bp len rt))"
  by (auto simp: pipe_write_def pipe_read_def split: prod.split intro!: kinv_intros)

lemma kinv_write_once:
  "kinv rt \<Longrightarrow> self < 8 \<Longrightarrow> irqs_ok q \<Longrightarrow> kinv (snd (write_once bp len arg self q rt))"
proof -
  assume k: "kinv rt" and s: "self < 8" "irqs_ok q"
  obtain n rt1 where w: "pipe_write bp len rt = (n, rt1)" by (cases "pipe_write bp len rt")
  have k1: "kinv rt1" using kinv_pipes(1) [OF k, of bp len] w by simp
  show ?thesis
    using s k1 by (auto simp: write_once_def w intro!: kinv_wait_block kinv_intros)
qed

lemma kinv_write_loop:
  assumes "write_loop bp len arg self qs rt = Some rt'" "kinv rt" "self < 8" "\<forall>q\<in>set qs. irqs_ok q"
  shows "kinv rt'"
proof -
  let ?P = "\<lambda>bp len arg self qs rt rt'. kinv rt \<longrightarrow> self < 8 \<longrightarrow> (\<forall>q\<in>set qs. irqs_ok q) \<longrightarrow> kinv rt'"
  have step: "?P bp len arg self qs rt y"
    if IH: "\<And>bp len arg self qs rt y. f bp len arg self qs rt = Some y \<Longrightarrow> ?P bp len arg self qs rt y"
      and body: "(let (again, rt') = write_once bp len arg self (case qs of [] \<Rightarrow> no_irqs | q # x \<Rightarrow> q) rt
                  in if again then f bp len arg self (tl qs) rt' else Some rt') = Some y"
    for f bp len arg self qs rt and y :: thinkos_rt
  proof (intro impI)
    assume h: "kinv rt" "self < 8" "\<forall>q\<in>set qs. irqs_ok q"
    let ?q = "case qs of [] \<Rightarrow> no_irqs | q # x \<Rightarrow> q"
    obtain again rt1 where w: "write_once bp len arg self ?q rt = (again, rt1)"
      by (cases "write_once bp len arg self ?q rt")
    have "irqs_ok ?q" using h(3) irqs_ok_none by (cases qs) auto
    then have "kinv rt1" using kinv_write_once [OF h(1,2), of ?q bp len arg] w by simp
    moreover have "\<forall>q\<in>set (tl qs). irqs_ok q" using h(3) by (cases qs) auto
    ultimately show "kinv y" using body w IH [of bp len arg self "tl qs" rt1 y] h(2) by (cases again) auto
  qed
  have "?P bp len arg self qs rt rt'"
    by (rule write_loop.raw_induct [where P = ?P, OF step assms(1)])
  then show ?thesis using assms(2-4) by blast
qed

lemma kinv_read_wait:
  "kinv rt \<Longrightarrow> irqs_ok q \<Longrightarrow> self < 8 \<Longrightarrow> (\<And>rt. kinv rt \<Longrightarrow> kinv (ins self rt)) \<Longrightarrow> kinv (read_wait q ins self rt)"
  by (simp add: read_wait_def Let_def irqs_ok_def kinv_isrs kinv_suspend)

lemma kinv_console_read:
  "kinv rt \<Longrightarrow> irqs_ok q \<Longrightarrow> self < 8 \<Longrightarrow> kinv (console_read q arg self rt)"
  "kinv rt \<Longrightarrow> irqs_ok q \<Longrightarrow> self < 8 \<Longrightarrow> kinv (console_timedread q arg self rt)"
  unfolding console_read_def console_timedread_def
  by (intro kinv_intros kinv_read_wait; simp)+

lemma kinv_drain_loop:
  "kinv rt \<Longrightarrow> self < 8 \<Longrightarrow> \<forall>q\<in>set qs. irqs_ok q \<Longrightarrow> kinv (retry (drain_once arg self) no_irqs qs rt)"
  unfolding drain_once_def
  using irqs_ok_none by (auto intro!: kinv_retry kinv_wait_block kinv_intros)

lemma kinv_console:
  assumes "console_svc qs arg self rt = Some rt'" "kinv rt" "self < 8" "\<forall>q\<in>set qs. irqs_ok q"
  shows "kinv rt'"
proof -
  have q: "irqs_ok (case qs of [] \<Rightarrow> no_irqs | q # x \<Rightarrow> q)"
    using assms(4) irqs_ok_none by (cases qs) auto
  show ?thesis
    using assms(1)
    by (auto simp: console_svc_def Let_def assms(2-4) q drain_loop_eq kinv_console_read kinv_drain_loop kinv_intros
        split: if_splits dest!: kinv_write_loop [OF _ assms(2-4)])
qed

section \<open>System calls\<close>

lemma svc_table_keeps:
  assumes "\<forall>q\<in>set qs. irqs_ok q" "(n, h) \<in> set (svc_table pf qs)"
  shows "svc_keeps h"
proof -
  have "\<forall>q\<in>set (map i_ld qs). list_all isr_ok q" using assms(1) by (auto simp: irqs_ok_def)
  note keeps = mutex_keeps cond_keeps alloc_keeps cond_broadcast_keeps sem_keeps(1-3) sem_keeps(4,5) [OF assms(1)]
    sem_trywait_keeps [OF this] flag_keeps(1-7) flag_keeps(8,9) [OF assms(1)] ev_keeps(1-3) ev_keeps(4,5) [OF assms(1)]
    gate_keeps(1-4) gate_keeps(5) [OF assms(1)] irq_keeps time_keeps small_keeps gate_timedwait_keeps [OF assms(1)]
    ev_free_keeps pause_keeps thread_end_keeps thread_create_keeps dbgmon_keeps
  show ?thesis
    using assms(2) unfolding svc_table_def list.set insert_iff prod.inject
    by (elim disjE conjE) (simp_all add: keeps)
qed

lemma kinv_svc:
  assumes "svc_isr pf qs arg self svc rt = Some rt'" "kinv rt" "self < 8" "\<forall>q\<in>set qs. irqs_ok q"
  shows "kinv rt'"
proof (cases "svc = 36 \<or> svc = 58")
  case True
  then show ?thesis using assms kinv_console kinv_ctl by (auto simp: svc_isr_def)
next
  case False
  have "svc_keeps h" if "map_of (svc_table pf qs) svc = Some h" for h
    using svc_table_keeps [OF assms(4)] map_of_SomeD [OF that] by blast
  then show ?thesis
    using False assms(1-3) small_keeps(1) by (auto simp: svc_isr_def svc_keeps_def split: option.splits)
qed


section \<open>The tick and the context switch\<close>

lemma kinv_time_wakeup [kinv_intros]: "kinv rt \<Longrightarrow> t < 8 \<Longrightarrow> kinv (time_wakeup t rt)"
  unfolding time_wakeup_def by (intro kinv_intros; simp)

lemma kinv_systick_loop:
  "kinv rt \<Longrightarrow> (\<And>j. bit w (31 - j) \<Longrightarrow> j < 32 \<Longrightarrow> j < 8) \<Longrightarrow> kinv (systick_loop w tk rt)"
proof (induction w tk rt rule: systick_loop.induct)
  case (1 w tk rt)
  show ?case
  proof (cases "clz w < 32")
    case True
    then have "clz w < 8" using clz_top_bit [of w] "1.prems"(2) by blast
    then have "kinv (if sint (clock rt (clz w) - tk) \<le> 0 then time_wakeup (clz w) rt else rt)"
      using "1.prems"(1) by (intro kinv_intros)
    then show ?thesis
      using "1.IH" [OF refl True] "1.prems"(2) True
      by (auto simp: systick_loop.simps [of w tk rt] Let_def bit_and_iff)
  qed (use "1.prems" in \<open>simp add: systick_loop.simps [of w tk rt] Let_def\<close>)
qed

lemma kinv_timeshare [kinv_intros]: "kinv rt \<Longrightarrow> kinv (timeshare rt)"
proof -
  assume k: "kinv rt"
  let ?a = "active rt"
  have s: "unat (sched_limit rt) \<le> 32" "slice_ok rt t" "sched_pri rt 8 = 0" for t
    using k by (simp_all add: kinv_def sched_ok_def slice_ok_def)
  have "sched_limit rt \<le> 32" using s(1) by (simp add: word_le_nat_alt)
  then have l: "uint (sched_limit rt) \<le> int THINKOS_SCHED_LIMIT_MAX" by (simp add: word_le_def)
  note b = timeshare_bounds [OF l s(2)]
  have sched: "sched_ok (sched_limit (timeshare rt)) (sched_pri (timeshare rt)) (sched_val (timeshare rt))"
    unfolding sched_ok_def
  proof (intro conjI allI)
    fix t
    have "slice_ok (timeshare rt) t" using b s(2) [of t] by (cases "t = ?a") (auto simp: slice_ok_def)
    then show "0 \<le> sint (sched_val (timeshare rt) t)" "sint (sched_val (timeshare rt) t) \<le> uint (sched_limit (timeshare rt))"
      "uint (sched_pri (timeshare rt) t) \<le> uint (sched_limit (timeshare rt))"
      by (simp_all add: slice_ok_def)
  qed (use s in simp_all)
  have lt: "?a < 8" if "\<not> 8 < ?a" "sint (sched_val rt ?a - sched_pri rt ?a) < 0"
    using s(2) [of 8] s(3) that by (cases "?a = 8") (simp_all add: slice_ok_def)
  have "wq_ok (suspend_wq ?a ((wq_lst rt)(Suc 0 := bit_mem_wr (wq_lst rt (Suc 0)) ?a True)))" if "?a < 8"
    using that k by (intro wq_ok_suspend wq_ok_put) (simp_all add: kinv_wq_ok)
  then have "wq_ok (wq_lst (timeshare rt))"
    using k lt by (auto simp: timeshare_def kernel_simps Let_def kinv_wq_ok)
  moreover have "lock (timeshare rt) = lock rt" "th_alloc (timeshare rt) = th_alloc rt" "mutex_alloc (timeshare rt) = mutex_alloc rt"
    "cond_alloc (timeshare rt) = cond_alloc rt" "sem_alloc (timeshare rt) = sem_alloc rt" "ev_alloc (timeshare rt) = ev_alloc rt"
    "flag_alloc (timeshare rt) = flag_alloc rt" "gate_alloc (timeshare rt) = gate_alloc rt"
    by (auto simp: timeshare_def kernel_simps Let_def)
  ultimately show "kinv (timeshare rt)" using k sched by (simp add: kinv_def)
qed

lemma kinv_systick: "kinv rt \<Longrightarrow> kinv (cm3_systick_isr rt)"
proof -
  assume k: "kinv rt"
  have lt: "j < 8" if "kinv rt" "bit (rbit (wq_clock rt)) (31 - j)" "j < 32" for j rt
    using that(2,3) kinv_wq_ok [OF that(1)] by (fastforce simp: rbit_bit wq_ok_def)
  show ?thesis
    unfolding cm3_systick_isr_def by (intro kinv_intros kinv_systick_loop) (auto intro: k lt)
qed

lemma kinv_pendsv: "kinv rt \<Longrightarrow> kinv (cm3_pendsv_isr rt)"
  and pendsv_target: "kinv rt \<Longrightarrow> active (cm3_pendsv_isr rt) \<le> 8 \<and> bit (wq_ready rt) (active (cm3_pendsv_isr rt))"
proof -
  assume k: "kinv rt"
  then have r: "bit (wq_ready rt) 8" using kinv_wq_ok [OF k] by (simp add: wq_ok_def)
  have nz: "wq_ready rt \<noteq> 0" using r by auto
  then show t: "active (cm3_pendsv_isr rt) \<le> 8 \<and> bit (wq_ready rt) (active (cm3_pendsv_isr rt))"
    using ctz_le_bit [OF r] bitset_ctz [OF nz] by (simp add: pendsv_fields(1) [OF refl])
  have "kinv (rt\<lparr>active := ctz (wq_ready rt)\<rparr>)"
    using k ctz_le_bit [OF r] by (simp add: kinv_active)
  then show "kinv (cm3_pendsv_isr rt)"
    by (simp add: kinv_def cm3_pendsv_isr_def sched_entry_def sched_exit_def Let_def clz_rbit)
qed

lemma kinv_kevent: "kinv rt \<Longrightarrow> kevent_ok e \<Longrightarrow> kinv (kevent_run e rt)"
  by (cases e) (simp_all add: kinv_systick kinv_pendsv kinv_isr)

section \<open>Initialization\<close>

lemma bmp_init1_bits: "0 < n \<Longrightarrow> n < 32 \<Longrightarrow> bit (bmp_init1 n) k \<longleftrightarrow> n \<le> k \<and> k < 32"
  by (auto simp: bmp_init1_def bmp_init_def Let_def bit_push_bit_iff bit_not_iff bit_mask_iff)


lemma kinv_reset: "kinv (thinkos_reset rt)"
proof -
  have b: "word_bmp_ok n (bmp_init1 n)" if "0 < n" "n < 32" for n
    using that by (simp add: word_bmp_ok_def bmp_init1_bits)
  have e: "(256 :: u32) = bit_mem_wr 0 8 True" using word_put_bit [of 0 8] by simp
  have w: "wq_ok ((\<lambda>_. 0)(0 := 256))" unfolding e by (simp add: wq_ok_def)
  show ?thesis
    unfolding thinkos_reset_def
    by (simp add: kinv_def rt_zero_def cm3_except_pri_set_def irq_reset_all_eq sched_ok_def Let_def b w)
qed

lemma kinv_idle_init: "kinv rt \<Longrightarrow> kinv (snd (idle_init im rt))"
  unfolding idle_init_def snd_push by (intro kinv_intros; simp)

lemma kinv_exception_reset [kinv_intros]: "kinv rt \<Longrightarrow> kinv (exception_reset rt)"
  unfolding exception_reset_def by (intro kinv_intros)

lemma kinv_kill_all: "kinv rt \<Longrightarrow> kinv (kill_all rt)"
proof -
  assume k: "kinv rt"
  have "wq_ok ((\<lambda>w. if w < 60 then 0 else wq_lst rt w)(0 := bit_mem_wr 0 8 True))"
    using kinv_wq_ok [OF k] by (fastforce simp: wq_ok_def split: if_splits)
  then have "kinv (rt\<lparr>wq_lst := (\<lambda>w. if w < 60 then 0 else wq_lst rt w)(0 := bit_mem_wr 0 8 True)\<rparr>)"
    using k by (rule kinv_wq [rotated])
  then show ?thesis by (simp add: kill_all_def wq_bit_def defer_sched_def kinv_def)
qed

lemma kinv_exec: "kinv rt \<Longrightarrow> t < 8 \<Longrightarrow> kinv (thinkos_exec im t f a paused rt)"
  unfolding thinkos_exec_def thread_inf_set_def
  by (intro kinv_intros; simp add: kinv_side)

lemma kinv_soft_reset: "kinv (dbgmon_soft_reset im rt)"
proof -
  obtain c rt1 where i: "idle_init im (thinkos_reset (dmon_irq_disable_all rt)) = (c, rt1)"
    by (cases "idle_init im (thinkos_reset (dmon_irq_disable_all rt))")
  have "kinv rt1" using kinv_idle_init [OF kinv_reset, of im "dmon_irq_disable_all rt"] i by simp
  then show ?thesis
    by (simp add: dbgmon_soft_reset_def Let_def i kinv_intros)
qed

text \<open>The main thread has a slot, is ready, and its priority sets the limit.\<close>
lemma kinv_init_main:
  assumes k: "kinv rt" and z: "sched_pri rt = (\<lambda>_. 0)" "sched_val rt = (\<lambda>_. 0)" "wq_lst rt = (\<lambda>_. 0)(0 := v)"
    and m: "init_main im opt rt = (Some i, rt')"
  shows "kinv rt'"
proof -
  define p where "p = min (opt_priority opt) 32"
  define l :: u32 where "l = (if p = 0 then 1 else of_nat p)"
  obtain b where a: "alloc_lo (th_alloc rt) (opt_id opt - 1) = Some (i, b)"
    using m by (auto simp: init_main_def Let_def split: option.splits prod.splits)
  have s: "opt_id opt - 1 < 32"
    using a by (auto simp: alloc_lo_def Let_def split: if_splits)
  have i: "i < 8" and b: "word_bmp_ok 8 b"
    using alloc_lo_spec(2) [OF s, of "th_alloc rt" i b] a kinv_bmps(1) [OF k] bmp_ok_put
    by (auto simp: word_bmp_ok_def not_le [symmetric])
  have "\<forall>p\<in>set [0..<33]. unat (of_nat p :: u32) = p \<and> uint (of_nat p :: u8) = int p \<and> sint (of_nat (p div 2) :: u8) = int (p div 2)"
    by code_simp
  moreover have p32: "p \<le> 32" by (simp add: p_def)
  ultimately have p: "unat (of_nat p :: u32) = p" "uint (of_nat p :: u8) = int p" "sint (of_nat (p div 2) :: u8) = int (p div 2)"
    by simp_all
  have l: "unat l = max p 1" by (simp add: l_def p)
  then have ul: "uint l = int (max p 1)" by (metis of_nat_unat)
  have pd: "int (p div 2) \<le> int (max p 1)" "0 \<le> int (p div 2)" by simp_all
  have sched: "sched_ok l ((\<lambda>_. 0)(i := of_nat p)) ((\<lambda>_. 0)(i := of_nat (p div 2)))"
    using i p32 l ul p pd by (simp add: sched_ok_def)
  define q where "q = (wq_lst rt)(0 := push_bit i 1 OR push_bit 8 1, 57 := if opt_paused opt then push_bit i 1 else wq_lst rt 57)"
  have q: "wq_ok q"
    using i unfolding q_def z(3) wq_ok_def
    by (auto simp: bit_or_iff bit_push_bit_iff bit_1_iff split: if_splits simp del: push_bit_of_1 word_put_bit)
  have "rt' = rt\<lparr>th_alloc := b, th_inf := (th_inf rt)(i := main_inf im), sched_pri := (\<lambda>_. 0)(i := of_nat p),
      sched_val := (\<lambda>_. 0)(i := of_nat (p div 2)), sched_limit := l, active := i, wq_lst := q\<rparr>"
    using m a p unfolding init_main_def Let_def p_def [symmetric]
    by (auto simp: z l_def q_def p_def [symmetric] fun_eq_iff)
  then show "kinv rt'" using k b i q sched by (simp add: kinv_def)
qed


text \<open>The state in which the main thread is set up.\<close>
definition boot_state :: "image \<Rightarrow> thinkos_rt \<Rightarrow> thinkos_rt" where
  "boot_state im rt = exception_init (snd (idle_init im (thinkos_reset
     (memset32 (except_stack im) 0xdeadbeef THINKOS_EXCEPT_STACK_SIZE (rt\<lparr>primask := True\<rparr>)))))"

lemma thinkos_init_eq:
  "thinkos_init im opt sp rt = (case init_main im opt (boot_state im rt) of (None, r) \<Rightarrow> (-1, r)
      | (Some t, r) \<Rightarrow> (int t + 1, r\<lparr>scr := 0, ccr := push_bit 1 1 OR push_bit 9 1 OR push_bit 3 1, psp := sp,
          msp := except_stack im + of_nat THINKOS_EXCEPT_STACK_SIZE, control := push_bit 1 1, primask := False\<rparr>))"
  by (simp add: thinkos_init_def boot_state_def Let_def case_prod_beta split: option.split)

lemma boot_state_fields:
  "sched_pri (boot_state im rt) = (\<lambda>_. 0)" "sched_val (boot_state im rt) = (\<lambda>_. 0)"
  "wq_lst (boot_state im rt) = (\<lambda>_. 0)(0 := bit_mem_wr 256 8 True)" "th_alloc (boot_state im rt) = bmp_init1 8"
  "mutex_alloc (boot_state im rt) = bmp_init1 8" "cond_alloc (boot_state im rt) = bmp_init1 8"
  "sem_alloc (boot_state im rt) = bmp_init1 8" "ev_alloc (boot_state im rt) = bmp_init1 4"
  "flag_alloc (boot_state im rt) = bmp_init1 8" "gate_alloc (boot_state im rt) = bmp_init1 8"
  "wild (boot_state im rt) = wild rt"
  by (simp_all add: boot_state_def exception_init_def exception_reset_def idle_init_def thinkos_reset_def rt_zero_def
      cm3_except_pri_set_def irq_reset_all_eq wq_bit_def mem_st_def memset32_def Let_def)

lemma kinv_boot_state: "kinv (boot_state im rt)"
  using kinv_idle_init [OF kinv_reset] by (simp add: boot_state_def exception_init_def exception_reset_def kinv_def)

lemma kinv_init:
  assumes "thinkos_init im opt sp rt = (n, rt')" "0 < n"
  shows "kinv rt'"
proof -
  obtain i rt3 where m: "init_main im opt (boot_state im rt) = (Some i, rt3)"
    using assms thinkos_init_eq [of im opt sp rt] by (cases "init_main im opt (boot_state im rt)") (auto split: option.splits)
  have "kinv rt3" by (rule kinv_init_main [OF kinv_boot_state boot_state_fields(1-3) m])
  then show ?thesis using assms thinkos_init_eq [of im opt sp rt] m by (auto simp: kinv_def)
qed

end
