(* ===== verification/System.thy ===== *)
theory System
  imports Invariant
begin

text \<open>
  The kernel as a whole: the states it can reach from initialization through system
  calls of the running thread, ticks, context switches, interrupts, the operations
  of the monitor and the execution of threads between two of these.
\<close>

section \<open>Reachability\<close>

inductive reach :: "('s \<Rightarrow> bool) \<Rightarrow> ('s \<Rightarrow> 's \<Rightarrow> bool) \<Rightarrow> 's \<Rightarrow> bool" for I S where
  start: "I s \<Longrightarrow> reach I S s"
| step: "reach I S s \<Longrightarrow> S s t \<Longrightarrow> reach I S t"

text \<open>The contract between a system and an invariant.\<close>
locale invariant_system =
  fixes init :: "'s \<Rightarrow> bool" and trans :: "'s \<Rightarrow> 's \<Rightarrow> bool" and inv :: "'s \<Rightarrow> bool"
  assumes init_inv: "init s \<Longrightarrow> inv s"
    and trans_inv: "inv s \<Longrightarrow> trans s t \<Longrightarrow> inv t"
begin

lemma reach_inv: "reach init trans s \<Longrightarrow> inv s"
  by (induction rule: reach.induct) (auto intro: init_inv trans_inv)

lemma reach_steps:
  assumes "reach init trans s" "rtranclp trans s t"
  shows "inv t" and "reach init trans t"
proof -
  show r: "reach init trans t" using assms(2,1) by (induction rule: rtranclp_induct) (auto intro: reach.step)
  then show "inv t" by (rule reach_inv)
qed

end

section \<open>The steps of the kernel\<close>

text \<open>The main thread returns from \<open>thinkos_init\<close> with its number.\<close>
definition kinit :: "platform \<Rightarrow> thinkos_rt \<Rightarrow> bool" where
  "kinit pf rt \<longleftrightarrow> (\<exists>opt sp rt0 n. thinkos_init (img pf) opt sp rt0 = (n, rt) \<and> 0 < n)"

text \<open>
  What threads do between system calls is not restricted: they write to memory and
  to their registers as they like. The run time block itself is out of their reach.
\<close>
inductive kstep :: "platform \<Rightarrow> thinkos_rt \<Rightarrow> thinkos_rt \<Rightarrow> bool" for pf where
  call: "active rt < THINKOS_THREADS_MAX \<Longrightarrow> \<forall>q\<in>set qs. irqs_ok q \<Longrightarrow> cm3_svc_isr pf qs rt = Some rt' \<Longrightarrow> kstep pf rt rt'"
| idle: "active rt = THINKOS_THREAD_IDLE \<Longrightarrow> kstep pf rt (idle_svc (psp rt) (active rt) rt)"
| event: "kevent_ok e \<Longrightarrow> kstep pf rt (kevent_run e rt)"
| thread: "kstep pf rt (rt\<lparr>mem := m, umem := u, regs := r, psp := p\<rparr>)"
| soft_reset: "kstep pf rt (dbgmon_soft_reset (img pf) rt)"
| kill: "kstep pf rt (kill_all rt)"
| exec: "t < THINKOS_THREADS_MAX \<Longrightarrow> kstep pf rt (thinkos_exec (img pf) t f a paused rt)"
| pause: "kstep pf rt (pause_all rt)"
| resume: "kstep pf rt (resume_all rt)"

inductive_cases kstep_cases: "kstep pf rt rt'"

text \<open>
  A store outside the tables of the kernel can hit anything, so a state with \<open>wild\<close> set
  has no successors here.
\<close>
definition ktrans :: "platform \<Rightarrow> thinkos_rt \<Rightarrow> thinkos_rt \<Rightarrow> bool" where
  "ktrans pf rt rt' \<longleftrightarrow> \<not> wild rt \<and> kstep pf rt rt'"

abbreviation kreach :: "platform \<Rightarrow> thinkos_rt \<Rightarrow> bool" where
  "kreach pf \<equiv> reach (kinit pf) (ktrans pf)"

lemma kstep_kinv:
  assumes "kstep pf rt rt'" "kinv rt"
  shows "kinv rt'"
  using assms(1)
proof cases
  case (call qs)
  then show ?thesis using kinv_svc assms(2) by (simp add: cm3_svc_isr_def Let_def)
next
  case idle
  then show ?thesis unfolding idle_svc_def by (simp only:) (intro kinv_intros assms(2))
next
  case (thread m u r p)
  then show ?thesis using assms(2) by (simp add: kinv_def)
qed (use assms(2) in \<open>simp_all add: kinv_kevent kinv_soft_reset kinv_kill_all kinv_exec kinv_pause_all\<close>)

interpretation kernel: invariant_system "kinit pf" "ktrans pf" kinv for pf
proof
  show "kinv rt" if "kinit pf rt" for rt
    using that kinv_init by (auto simp: kinit_def)
  show "kinv rt'" if "kinv rt" "ktrans pf rt rt'" for rt rt'
    using that by (auto simp: ktrans_def intro: kstep_kinv)
qed

end
