(* ===== verification/Crc.thy ===== *)
theory Crc
  imports Prelude
begin

text \<open>
  The check sums of \<open>src/sdk/libcrc\<close>. Each width has three implementations that the
  build chooses from: a table for bytes, a table for half bytes, and an expression over the
  bits of the whole byte. The reference is the shift register that takes
  one bit at a time, least significant bit first; all of them compute it.
\<close>

unbundle bit_operations_syntax

section \<open>Implementations\<close>

text \<open>\<open>register unsigned int crc\<close>; \<open>crc5bwe.c\<close>, and the copy of it in \<open>crc5.c\<close>.\<close>
definition crc5bwe_step :: "u8 \<Rightarrow> u32 \<Rightarrow> u32" where
  "crc5bwe_step c crc =
     (let crc = crc XOR ucast c;
          a = push_bit 2 crc XOR push_bit 3 crc;
          crc = crc XOR (drop_bit 3 crc XOR a XOR push_bit 4 a)
      in (crc AND 0x18) OR (drop_bit 5 crc AND 0x07))"

definition crc5bwe :: "u8 list \<Rightarrow> u32" where
  "crc5bwe data = fold crc5bwe_step data 0x1f XOR 0x1f"

definition crc5lut4 :: "u32 list" where
  "crc5lut4 = [
    0x00, 0x16, 0x05, 0x13, 0x0a, 0x1c, 0x0f, 0x19, 0x14, 0x02, 0x11, 0x07, 0x1e, 0x08, 0x1b, 0x0d,
    0x00, 0x0e, 0x1c, 0x12, 0x11, 0x1f, 0x0d, 0x03, 0x0b, 0x05, 0x17, 0x19, 0x1a, 0x14, 0x06, 0x08]"

definition crc5lut :: "u32 list" where
  "crc5lut = [
    0x00, 0x0e, 0x1c, 0x12, 0x11, 0x1f, 0x0d, 0x03, 0x0b, 0x05, 0x17, 0x19, 0x1a, 0x14, 0x06, 0x08,
    0x16, 0x18, 0x0a, 0x04, 0x07, 0x09, 0x1b, 0x15, 0x1d, 0x13, 0x01, 0x0f, 0x0c, 0x02, 0x10, 0x1e,
    0x05, 0x0b, 0x19, 0x17, 0x14, 0x1a, 0x08, 0x06, 0x0e, 0x00, 0x12, 0x1c, 0x1f, 0x11, 0x03, 0x0d,
    0x13, 0x1d, 0x0f, 0x01, 0x02, 0x0c, 0x1e, 0x10, 0x18, 0x16, 0x04, 0x0a, 0x09, 0x07, 0x15, 0x1b,
    0x0a, 0x04, 0x16, 0x18, 0x1b, 0x15, 0x07, 0x09, 0x01, 0x0f, 0x1d, 0x13, 0x10, 0x1e, 0x0c, 0x02,
    0x1c, 0x12, 0x00, 0x0e, 0x0d, 0x03, 0x11, 0x1f, 0x17, 0x19, 0x0b, 0x05, 0x06, 0x08, 0x1a, 0x14,
    0x0f, 0x01, 0x13, 0x1d, 0x1e, 0x10, 0x02, 0x0c, 0x04, 0x0a, 0x18, 0x16, 0x15, 0x1b, 0x09, 0x07,
    0x19, 0x17, 0x05, 0x0b, 0x08, 0x06, 0x14, 0x1a, 0x12, 0x1c, 0x0e, 0x00, 0x03, 0x0d, 0x1f, 0x11,
    0x14, 0x1a, 0x08, 0x06, 0x05, 0x0b, 0x19, 0x17, 0x1f, 0x11, 0x03, 0x0d, 0x0e, 0x00, 0x12, 0x1c,
    0x02, 0x0c, 0x1e, 0x10, 0x13, 0x1d, 0x0f, 0x01, 0x09, 0x07, 0x15, 0x1b, 0x18, 0x16, 0x04, 0x0a,
    0x11, 0x1f, 0x0d, 0x03, 0x00, 0x0e, 0x1c, 0x12, 0x1a, 0x14, 0x06, 0x08, 0x0b, 0x05, 0x17, 0x19,
    0x07, 0x09, 0x1b, 0x15, 0x16, 0x18, 0x0a, 0x04, 0x0c, 0x02, 0x10, 0x1e, 0x1d, 0x13, 0x01, 0x0f,
    0x1e, 0x10, 0x02, 0x0c, 0x0f, 0x01, 0x13, 0x1d, 0x15, 0x1b, 0x09, 0x07, 0x04, 0x0a, 0x18, 0x16,
    0x08, 0x06, 0x14, 0x1a, 0x19, 0x17, 0x05, 0x0b, 0x03, 0x0d, 0x1f, 0x11, 0x12, 0x1c, 0x0e, 0x00,
    0x1b, 0x15, 0x07, 0x09, 0x0a, 0x04, 0x16, 0x18, 0x10, 0x1e, 0x0c, 0x02, 0x01, 0x0f, 0x1d, 0x13,
    0x0d, 0x03, 0x11, 0x1f, 0x1c, 0x12, 0x00, 0x0e, 0x06, 0x08, 0x1a, 0x14, 0x17, 0x19, 0x0b, 0x05]"

definition crc5tbl4 :: "u8 list \<Rightarrow> u32" where
  "crc5tbl4 data = fold (\<lambda>c crc.
     let idx = crc XOR ucast c
     in crc5lut4 ! (unat (idx AND 0x0f) + 16) XOR crc5lut4 ! unat (drop_bit 4 idx)) data 0x1f XOR 0x1f"

definition crc5tbl8 :: "u8 list \<Rightarrow> u32" where
  "crc5tbl8 data = fold (\<lambda>c crc.
     let idx = crc XOR ucast c in crc5lut ! unat idx) data 0x1f XOR 0x1f"

definition crc8_bitwise_expression :: "u32 \<Rightarrow> u32" where
  "crc8_bitwise_expression bits =
     ((drop_bit 2 bits XOR drop_bit 1 bits XOR bits) AND 0x0f) OR
     ((drop_bit 2 bits XOR drop_bit 1 bits XOR bits XOR push_bit 4 bits) AND 0x30) OR
     ((drop_bit 1 bits XOR bits XOR push_bit 5 bits) AND 0x40) OR
     ((bits XOR push_bit 6 bits XOR push_bit 7 bits) AND 0x80)"

definition crc8bwe :: "u8 list \<Rightarrow> u32" where
  "crc8bwe data = fold (\<lambda>c crc.
     let idx = crc XOR ucast c in crc8_bitwise_expression idx) data 0xff XOR 0xff"

definition crc8lut4 :: "u32 list" where
  "crc8lut4 = [
    0x00, 0x1c, 0x38, 0x24, 0x70, 0x6c, 0x48, 0x54, 0xe0, 0xfc, 0xd8, 0xc4, 0x90, 0x8c, 0xa8, 0xb4,
    0x00, 0x91, 0xe3, 0x72, 0x07, 0x96, 0xe4, 0x75, 0x0e, 0x9f, 0xed, 0x7c, 0x09, 0x98, 0xea, 0x7b]"

definition crc8lut :: "u32 list" where
  "crc8lut = [
    0x00, 0x91, 0xe3, 0x72, 0x07, 0x96, 0xe4, 0x75, 0x0e, 0x9f, 0xed, 0x7c, 0x09, 0x98, 0xea, 0x7b,
    0x1c, 0x8d, 0xff, 0x6e, 0x1b, 0x8a, 0xf8, 0x69, 0x12, 0x83, 0xf1, 0x60, 0x15, 0x84, 0xf6, 0x67,
    0x38, 0xa9, 0xdb, 0x4a, 0x3f, 0xae, 0xdc, 0x4d, 0x36, 0xa7, 0xd5, 0x44, 0x31, 0xa0, 0xd2, 0x43,
    0x24, 0xb5, 0xc7, 0x56, 0x23, 0xb2, 0xc0, 0x51, 0x2a, 0xbb, 0xc9, 0x58, 0x2d, 0xbc, 0xce, 0x5f,
    0x70, 0xe1, 0x93, 0x02, 0x77, 0xe6, 0x94, 0x05, 0x7e, 0xef, 0x9d, 0x0c, 0x79, 0xe8, 0x9a, 0x0b,
    0x6c, 0xfd, 0x8f, 0x1e, 0x6b, 0xfa, 0x88, 0x19, 0x62, 0xf3, 0x81, 0x10, 0x65, 0xf4, 0x86, 0x17,
    0x48, 0xd9, 0xab, 0x3a, 0x4f, 0xde, 0xac, 0x3d, 0x46, 0xd7, 0xa5, 0x34, 0x41, 0xd0, 0xa2, 0x33,
    0x54, 0xc5, 0xb7, 0x26, 0x53, 0xc2, 0xb0, 0x21, 0x5a, 0xcb, 0xb9, 0x28, 0x5d, 0xcc, 0xbe, 0x2f,
    0xe0, 0x71, 0x03, 0x92, 0xe7, 0x76, 0x04, 0x95, 0xee, 0x7f, 0x0d, 0x9c, 0xe9, 0x78, 0x0a, 0x9b,
    0xfc, 0x6d, 0x1f, 0x8e, 0xfb, 0x6a, 0x18, 0x89, 0xf2, 0x63, 0x11, 0x80, 0xf5, 0x64, 0x16, 0x87,
    0xd8, 0x49, 0x3b, 0xaa, 0xdf, 0x4e, 0x3c, 0xad, 0xd6, 0x47, 0x35, 0xa4, 0xd1, 0x40, 0x32, 0xa3,
    0xc4, 0x55, 0x27, 0xb6, 0xc3, 0x52, 0x20, 0xb1, 0xca, 0x5b, 0x29, 0xb8, 0xcd, 0x5c, 0x2e, 0xbf,
    0x90, 0x01, 0x73, 0xe2, 0x97, 0x06, 0x74, 0xe5, 0x9e, 0x0f, 0x7d, 0xec, 0x99, 0x08, 0x7a, 0xeb,
    0x8c, 0x1d, 0x6f, 0xfe, 0x8b, 0x1a, 0x68, 0xf9, 0x82, 0x13, 0x61, 0xf0, 0x85, 0x14, 0x66, 0xf7,
    0xa8, 0x39, 0x4b, 0xda, 0xaf, 0x3e, 0x4c, 0xdd, 0xa6, 0x37, 0x45, 0xd4, 0xa1, 0x30, 0x42, 0xd3,
    0xb4, 0x25, 0x57, 0xc6, 0xb3, 0x22, 0x50, 0xc1, 0xba, 0x2b, 0x59, 0xc8, 0xbd, 0x2c, 0x5e, 0xcf]"

definition crc8tbl4 :: "u8 list \<Rightarrow> u32" where
  "crc8tbl4 data = fold (\<lambda>c crc.
     let idx = crc XOR ucast c
     in crc8lut4 ! (unat (idx AND 0x0f) + 16) XOR crc8lut4 ! unat (drop_bit 4 idx)) data 0xff XOR 0xff"

definition crc8tbl8 :: "u8 list \<Rightarrow> u32" where
  "crc8tbl8 data = fold (\<lambda>c crc.
     let idx = crc XOR ucast c in crc8lut ! unat idx) data 0xff XOR 0xff"

definition crc16bwe_step :: "u8 \<Rightarrow> u32 \<Rightarrow> u32" where
  "crc16bwe_step c crc =
     (let crc = drop_bit 8 crc OR push_bit 8 (crc AND 0xff);
          crc = crc XOR push_bit 8 (ucast c);
          crc = crc XOR (push_bit 4 crc AND 0xf000);
          crc = crc XOR (drop_bit 12 crc AND 0x000f)
      in crc XOR (drop_bit 5 crc AND 0x07f8))"

definition crc16bwe :: "u8 list \<Rightarrow> u32" where
  "crc16bwe data = fold crc16bwe_step data 0xffff XOR 0xffff"

definition crc16lut4 :: "u32 list" where
  "crc16lut4 = [
    0x0000, 0x1081, 0x2102, 0x3183, 0x4204, 0x5285, 0x6306, 0x7387,
    0x8408, 0x9489, 0xa50a, 0xb58b, 0xc60c, 0xd68d, 0xe70e, 0xf78f,
    0x0000, 0x1189, 0x2312, 0x329b, 0x4624, 0x57ad, 0x6536, 0x74bf,
    0x8c48, 0x9dc1, 0xaf5a, 0xbed3, 0xca6c, 0xdbe5, 0xe97e, 0xf8f7]"

definition crc16lut :: "u32 list" where
  "crc16lut = [
    0x0000, 0x1189, 0x2312, 0x329b, 0x4624, 0x57ad, 0x6536, 0x74bf,
    0x8c48, 0x9dc1, 0xaf5a, 0xbed3, 0xca6c, 0xdbe5, 0xe97e, 0xf8f7,
    0x1081, 0x0108, 0x3393, 0x221a, 0x56a5, 0x472c, 0x75b7, 0x643e,
    0x9cc9, 0x8d40, 0xbfdb, 0xae52, 0xdaed, 0xcb64, 0xf9ff, 0xe876,
    0x2102, 0x308b, 0x0210, 0x1399, 0x6726, 0x76af, 0x4434, 0x55bd,
    0xad4a, 0xbcc3, 0x8e58, 0x9fd1, 0xeb6e, 0xfae7, 0xc87c, 0xd9f5,
    0x3183, 0x200a, 0x1291, 0x0318, 0x77a7, 0x662e, 0x54b5, 0x453c,
    0xbdcb, 0xac42, 0x9ed9, 0x8f50, 0xfbef, 0xea66, 0xd8fd, 0xc974,
    0x4204, 0x538d, 0x6116, 0x709f, 0x0420, 0x15a9, 0x2732, 0x36bb,
    0xce4c, 0xdfc5, 0xed5e, 0xfcd7, 0x8868, 0x99e1, 0xab7a, 0xbaf3,
    0x5285, 0x430c, 0x7197, 0x601e, 0x14a1, 0x0528, 0x37b3, 0x263a,
    0xdecd, 0xcf44, 0xfddf, 0xec56, 0x98e9, 0x8960, 0xbbfb, 0xaa72,
    0x6306, 0x728f, 0x4014, 0x519d, 0x2522, 0x34ab, 0x0630, 0x17b9,
    0xef4e, 0xfec7, 0xcc5c, 0xddd5, 0xa96a, 0xb8e3, 0x8a78, 0x9bf1,
    0x7387, 0x620e, 0x5095, 0x411c, 0x35a3, 0x242a, 0x16b1, 0x0738,
    0xffcf, 0xee46, 0xdcdd, 0xcd54, 0xb9eb, 0xa862, 0x9af9, 0x8b70,
    0x8408, 0x9581, 0xa71a, 0xb693, 0xc22c, 0xd3a5, 0xe13e, 0xf0b7,
    0x0840, 0x19c9, 0x2b52, 0x3adb, 0x4e64, 0x5fed, 0x6d76, 0x7cff,
    0x9489, 0x8500, 0xb79b, 0xa612, 0xd2ad, 0xc324, 0xf1bf, 0xe036,
    0x18c1, 0x0948, 0x3bd3, 0x2a5a, 0x5ee5, 0x4f6c, 0x7df7, 0x6c7e,
    0xa50a, 0xb483, 0x8618, 0x9791, 0xe32e, 0xf2a7, 0xc03c, 0xd1b5,
    0x2942, 0x38cb, 0x0a50, 0x1bd9, 0x6f66, 0x7eef, 0x4c74, 0x5dfd,
    0xb58b, 0xa402, 0x9699, 0x8710, 0xf3af, 0xe226, 0xd0bd, 0xc134,
    0x39c3, 0x284a, 0x1ad1, 0x0b58, 0x7fe7, 0x6e6e, 0x5cf5, 0x4d7c,
    0xc60c, 0xd785, 0xe51e, 0xf497, 0x8028, 0x91a1, 0xa33a, 0xb2b3,
    0x4a44, 0x5bcd, 0x6956, 0x78df, 0x0c60, 0x1de9, 0x2f72, 0x3efb,
    0xd68d, 0xc704, 0xf59f, 0xe416, 0x90a9, 0x8120, 0xb3bb, 0xa232,
    0x5ac5, 0x4b4c, 0x79d7, 0x685e, 0x1ce1, 0x0d68, 0x3ff3, 0x2e7a,
    0xe70e, 0xf687, 0xc41c, 0xd595, 0xa12a, 0xb0a3, 0x8238, 0x93b1,
    0x6b46, 0x7acf, 0x4854, 0x59dd, 0x2d62, 0x3ceb, 0x0e70, 0x1ff9,
    0xf78f, 0xe606, 0xd49d, 0xc514, 0xb1ab, 0xa022, 0x92b9, 0x8330,
    0x7bc7, 0x6a4e, 0x58d5, 0x495c, 0x3de3, 0x2c6a, 0x1ef1, 0x0f78]"

definition crc16tbl4 :: "u8 list \<Rightarrow> u32" where
  "crc16tbl4 data = fold (\<lambda>c crc.
     let crc = crc XOR ucast c
     in drop_bit 8 crc XOR crc16lut4 ! unat (drop_bit 4 crc AND 15) XOR crc16lut4 ! (unat (crc AND 15) + 16)) data 0xffff XOR 0xffff"

definition crc16tbl8 :: "u8 list \<Rightarrow> u32" where
  "crc16tbl8 data = fold (\<lambda>c crc.
     let idx = (crc XOR ucast c) AND 0xff
     in crc16lut ! unat idx XOR drop_bit 8 crc) data 0xffff XOR 0xffff"

text \<open>\<open>CRC16CCITT\<close> and \<open>CRC32\<close> of \<open>crc.h\<close> take one byte; the running value is an argument.\<close>
definition crc16ccitt_step :: "u8 \<Rightarrow> u32 \<Rightarrow> u32" where
  "crc16ccitt_step c crc =
     (let crc = drop_bit 8 crc OR push_bit 8 (crc AND 0xff);
          crc = crc XOR ucast c;
          crc = crc XOR drop_bit 4 (crc AND 0xff);
          crc = crc XOR push_bit 12 (crc AND 0x0f)
      in crc XOR push_bit 5 (crc AND 0xff))"

definition crc16ccitt :: "u32 \<Rightarrow> u8 list \<Rightarrow> u32" where
  "crc16ccitt crc buf = fold crc16ccitt_step buf crc"

definition crc32tab :: "u32 list" where
  "crc32tab = [
    0x00000000, 0x77073096, 0xee0e612c, 0x990951ba,
    0x076dc419, 0x706af48f, 0xe963a535, 0x9e6495a3,
    0x0edb8832, 0x79dcb8a4, 0xe0d5e91e, 0x97d2d988,
    0x09b64c2b, 0x7eb17cbd, 0xe7b82d07, 0x90bf1d91,
    0x1db71064, 0x6ab020f2, 0xf3b97148, 0x84be41de,
    0x1adad47d, 0x6ddde4eb, 0xf4d4b551, 0x83d385c7,
    0x136c9856, 0x646ba8c0, 0xfd62f97a, 0x8a65c9ec,
    0x14015c4f, 0x63066cd9, 0xfa0f3d63, 0x8d080df5,
    0x3b6e20c8, 0x4c69105e, 0xd56041e4, 0xa2677172,
    0x3c03e4d1, 0x4b04d447, 0xd20d85fd, 0xa50ab56b,
    0x35b5a8fa, 0x42b2986c, 0xdbbbc9d6, 0xacbcf940,
    0x32d86ce3, 0x45df5c75, 0xdcd60dcf, 0xabd13d59,
    0x26d930ac, 0x51de003a, 0xc8d75180, 0xbfd06116,
    0x21b4f4b5, 0x56b3c423, 0xcfba9599, 0xb8bda50f,
    0x2802b89e, 0x5f058808, 0xc60cd9b2, 0xb10be924,
    0x2f6f7c87, 0x58684c11, 0xc1611dab, 0xb6662d3d,
    0x76dc4190, 0x01db7106, 0x98d220bc, 0xefd5102a,
    0x71b18589, 0x06b6b51f, 0x9fbfe4a5, 0xe8b8d433,
    0x7807c9a2, 0x0f00f934, 0x9609a88e, 0xe10e9818,
    0x7f6a0dbb, 0x086d3d2d, 0x91646c97, 0xe6635c01,
    0x6b6b51f4, 0x1c6c6162, 0x856530d8, 0xf262004e,
    0x6c0695ed, 0x1b01a57b, 0x8208f4c1, 0xf50fc457,
    0x65b0d9c6, 0x12b7e950, 0x8bbeb8ea, 0xfcb9887c,
    0x62dd1ddf, 0x15da2d49, 0x8cd37cf3, 0xfbd44c65,
    0x4db26158, 0x3ab551ce, 0xa3bc0074, 0xd4bb30e2,
    0x4adfa541, 0x3dd895d7, 0xa4d1c46d, 0xd3d6f4fb,
    0x4369e96a, 0x346ed9fc, 0xad678846, 0xda60b8d0,
    0x44042d73, 0x33031de5, 0xaa0a4c5f, 0xdd0d7cc9,
    0x5005713c, 0x270241aa, 0xbe0b1010, 0xc90c2086,
    0x5768b525, 0x206f85b3, 0xb966d409, 0xce61e49f,
    0x5edef90e, 0x29d9c998, 0xb0d09822, 0xc7d7a8b4,
    0x59b33d17, 0x2eb40d81, 0xb7bd5c3b, 0xc0ba6cad,
    0xedb88320, 0x9abfb3b6, 0x03b6e20c, 0x74b1d29a,
    0xead54739, 0x9dd277af, 0x04db2615, 0x73dc1683,
    0xe3630b12, 0x94643b84, 0x0d6d6a3e, 0x7a6a5aa8,
    0xe40ecf0b, 0x9309ff9d, 0x0a00ae27, 0x7d079eb1,
    0xf00f9344, 0x8708a3d2, 0x1e01f268, 0x6906c2fe,
    0xf762575d, 0x806567cb, 0x196c3671, 0x6e6b06e7,
    0xfed41b76, 0x89d32be0, 0x10da7a5a, 0x67dd4acc,
    0xf9b9df6f, 0x8ebeeff9, 0x17b7be43, 0x60b08ed5,
    0xd6d6a3e8, 0xa1d1937e, 0x38d8c2c4, 0x4fdff252,
    0xd1bb67f1, 0xa6bc5767, 0x3fb506dd, 0x48b2364b,
    0xd80d2bda, 0xaf0a1b4c, 0x36034af6, 0x41047a60,
    0xdf60efc3, 0xa867df55, 0x316e8eef, 0x4669be79,
    0xcb61b38c, 0xbc66831a, 0x256fd2a0, 0x5268e236,
    0xcc0c7795, 0xbb0b4703, 0x220216b9, 0x5505262f,
    0xc5ba3bbe, 0xb2bd0b28, 0x2bb45a92, 0x5cb36a04,
    0xc2d7ffa7, 0xb5d0cf31, 0x2cd99e8b, 0x5bdeae1d,
    0x9b64c2b0, 0xec63f226, 0x756aa39c, 0x026d930a,
    0x9c0906a9, 0xeb0e363f, 0x72076785, 0x05005713,
    0x95bf4a82, 0xe2b87a14, 0x7bb12bae, 0x0cb61b38,
    0x92d28e9b, 0xe5d5be0d, 0x7cdcefb7, 0x0bdbdf21,
    0x86d3d2d4, 0xf1d4e242, 0x68ddb3f8, 0x1fda836e,
    0x81be16cd, 0xf6b9265b, 0x6fb077e1, 0x18b74777,
    0x88085ae6, 0xff0f6a70, 0x66063bca, 0x11010b5c,
    0x8f659eff, 0xf862ae69, 0x616bffd3, 0x166ccf45,
    0xa00ae278, 0xd70dd2ee, 0x4e048354, 0x3903b3c2,
    0xa7672661, 0xd06016f7, 0x4969474d, 0x3e6e77db,
    0xaed16a4a, 0xd9d65adc, 0x40df0b66, 0x37d83bf0,
    0xa9bcae53, 0xdebb9ec5, 0x47b2cf7f, 0x30b5ffe9,
    0xbdbdf21c, 0xcabac28a, 0x53b39330, 0x24b4a3a6,
    0xbad03605, 0xcdd70693, 0x54de5729, 0x23d967bf,
    0xb3667a2e, 0xc4614ab8, 0x5d681b02, 0x2a6f2b94,
    0xb40bbe37, 0xc30c8ea1, 0x5a05df1b, 0x2d02ef8d]"

definition crc32_step :: "u8 \<Rightarrow> u32 \<Rightarrow> u32" where
  "crc32_step c crc = crc32tab ! unat ((crc XOR ucast c) AND 0xff) XOR drop_bit 8 crc"

definition crc32 :: "u32 \<Rightarrow> u8 list \<Rightarrow> u32" where
  "crc32 crc buf = fold crc32_step buf crc XOR 0xffffffff"

section \<open>The shift register\<close>

definition lfsr :: "u32 \<Rightarrow> u32 \<Rightarrow> u32" where
  "lfsr poly crc = (if bit crc 0 then drop_bit 1 crc XOR poly else drop_bit 1 crc)"

definition crc_byte :: "u32 \<Rightarrow> u8 \<Rightarrow> u32 \<Rightarrow> u32" where
  "crc_byte poly c crc = (lfsr poly ^^ 8) (crc XOR ucast c)"

lemma lfsr_xor: "lfsr p (a XOR b) = lfsr p a XOR lfsr p b"
  by (rule bit_word_eqI) (auto simp: lfsr_def bit_simps)

lemma lfsr_pow_xor: "(lfsr p ^^ n) (a XOR b) = (lfsr p ^^ n) a XOR (lfsr p ^^ n) b"
  by (induction n) (simp_all add: lfsr_xor)

lemma lfsr_even: "\<not> bit c 0 \<Longrightarrow> lfsr p c = drop_bit 1 c"
  by (simp add: lfsr_def)

lemma lfsr_pow_shift: "(\<And>k. k < n \<Longrightarrow> \<not> bit c k) \<Longrightarrow> (lfsr p ^^ n) c = drop_bit n c"
proof (induction n)
  case (Suc n)
  then have "(lfsr p ^^ n) c = drop_bit n c" by simp
  moreover have "\<not> bit (drop_bit n c) 0" using Suc.prems [of n] by (simp add: bit_drop_bit_eq)
  ultimately show ?case by (simp add: lfsr_even drop_bit_drop_bit)
qed simp

text \<open>A byte shifted out affects the register only through its own contribution.\<close>
lemma lfsr_byte: "(lfsr p ^^ 8) c = drop_bit 8 c XOR (lfsr p ^^ 8) (c AND 0xff)"
proof -
  have m: "(0xff :: u32) = mask 8" by (simp add: mask_eq_exp_minus_1)
  have "c = (c AND NOT (mask 8)) XOR (c AND mask 8)"
    by (rule bit_word_eqI) (auto simp: bit_simps)
  then have "(lfsr p ^^ 8) c = (lfsr p ^^ 8) (c AND NOT (mask 8)) XOR (lfsr p ^^ 8) (c AND mask 8)"
    by (metis lfsr_pow_xor)
  moreover have "(lfsr p ^^ 8) (c AND NOT (mask 8)) = drop_bit 8 (c AND NOT (mask 8))"
    by (rule lfsr_pow_shift) (simp add: bit_simps)
  moreover have "drop_bit 8 (c AND NOT (mask 8)) = drop_bit 8 c"
    by (rule bit_word_eqI) (auto simp: bit_simps dest: bit_imp_le_length)
  ultimately show ?thesis unfolding m by simp
qed

text \<open>Folds that agree on an invariant part of the states.\<close>
lemma fold_agree:
  assumes "P s" "\<And>c s. P s \<Longrightarrow> f c s = g c s \<and> P (g c s)"
  shows "fold f xs s = fold g xs s"
  using assms(1) by (induction xs arbitrary: s) (simp_all add: assms(2))

section \<open>Linear maps of bit vectors\<close>

definition lin :: "(u32 \<Rightarrow> u32) \<Rightarrow> bool" where
  "lin f \<longleftrightarrow> (\<forall>a b. f (a XOR b) = f a XOR f b)"

lemma lin_lfsr: "lin (lfsr p ^^ n)"
  by (simp add: lin_def lfsr_pow_xor)

lemma lin_0: "lin f \<Longrightarrow> f 0 = 0"
  unfolding lin_def by (metis xor_self_eq)

text \<open>Two linear maps that agree on single bits agree.\<close>
lemma lin_agree:
  assumes "lin f" "lin g" "\<And>j. j < n \<Longrightarrow> f (push_bit j 1) = g (push_bit j 1)"
  shows "f (take_bit n x) = g (take_bit n x)"
  using assms(3)
proof (induction n)
  case 0
  then show ?case using lin_0 [OF assms(1)] lin_0 [OF assms(2)] by simp
next
  case (Suc n)
  have "take_bit (Suc n) x = take_bit n x XOR (if bit x n then push_bit n 1 else 0)"
    by (rule bit_word_eqI) (auto simp: bit_simps less_Suc_eq simp del: push_bit_of_1)
  with Suc show ?case
    using assms(1,2) lin_0 [OF assms(1)] lin_0 [OF assms(2)] by (simp add: lin_def)
qed

lemma take_bit_less:
  fixes x :: u32
  assumes "unat x < 2 ^ n"
  shows "take_bit n x = x"
proof -
  have "unat (take_bit n x) = unat x" using assms by (simp add: unsigned_take_bit_eq take_bit_nat_eq_self)
  then show ?thesis by (simp only: word_unat_eq_iff)
qed

lemma lin_byte:
  assumes "lin f" "lin g" "\<forall>j\<in>{0, 1, 2, 3, 4, 5, 6, 7}. f (push_bit j 1) = g (push_bit j 1)" "x < 256"
  shows "f x = g x"
proof -
  have "j < 8 \<Longrightarrow> j \<in> {0, 1, 2, 3, 4, 5, 6, 7 :: nat}" for j by auto
  then have "f (take_bit 8 x) = g (take_bit 8 x)" using assms(3) by (intro lin_agree [OF assms(1,2)]) blast
  moreover have "take_bit 8 x = x" using take_bit_less [of x 8] assms(4) by (simp add: word_less_nat_alt)
  ultimately show ?thesis by simp
qed

section \<open>Tables\<close>

text \<open>The table for a polynomial: what the shift register makes of each byte.\<close>
definition crc_tab :: "u32 \<Rightarrow> nat \<Rightarrow> u32" where
  "crc_tab poly i = (lfsr poly ^^ 8) (of_nat i)"

lemma of_nat_xor: "r < 2 ^ k \<Longrightarrow> (of_nat (2 ^ k * h + r) :: u32) = of_nat (2 ^ k * h) XOR of_nat r"
proof -
  assume "r < 2 ^ k"
  then have "take_bit k r = r" by (rule take_bit_nat_eq_self)
  then have "push_bit k h AND r = 0"
    by (intro bit_eqI) (metis bit_0_eq bit_and_iff bit_push_bit_iff bit_take_bit_iff bot_apply not_less bot_bool_def)
  then have "2 ^ k * h + r = (2 ^ k * h) XOR r"
    using disjunctive_add_eq_xor [of "push_bit k h" r] by (simp add: push_bit_eq_mult mult.commute)
  then show ?thesis by (metis of_nat_xor_eq)
qed

lemma crc_tab_split: "r < 2 ^ k \<Longrightarrow> crc_tab p (2 ^ k * h + r) = crc_tab p (2 ^ k * h) XOR crc_tab p r"
  by (simp add: crc_tab_def of_nat_xor lfsr_pow_xor del: of_nat_add of_nat_mult of_nat_power)

lemma pow8: "(f ^^ 8) x = f (f (f (f (f (f (f (f x)))))))"
  by (simp add: eval_nat_numeral)

text \<open>A table doubles with each further bit; its entries are for multiples of \<open>2 ^ m\<close>.\<close>
fun tab_double :: "u32 list \<Rightarrow> u32 list \<Rightarrow> u32 list" where
  "tab_double [] T = T"
| "tab_double (b # bs) T = tab_double bs (T @ map (\<lambda>v. b XOR v) T)"

lemma crc_tab_step:
  "map (\<lambda>i. crc_tab p (2 ^ m * i)) [0..<2 ^ k] @ map (\<lambda>v. crc_tab p (2 ^ (m + k)) XOR v) (map (\<lambda>i. crc_tab p (2 ^ m * i)) [0..<2 ^ k])
     = map (\<lambda>i. crc_tab p (2 ^ m * i)) [0..<2 ^ Suc k]"
proof (rule nth_equalityI, goal_cases)
  case (2 i)
  have "crc_tab p (2 ^ m * i) = crc_tab p (2 ^ (m + k)) XOR crc_tab p (2 ^ m * (i - 2 ^ k))" if "2 ^ k \<le> i" "i < 2 ^ k + 2 ^ k"
  proof -
    have "2 ^ m * i = 2 ^ (m + k) * 1 + 2 ^ m * (i - 2 ^ k)" using that(1) by (simp add: power_add diff_mult_distrib2)
    moreover have "2 ^ m * (i - 2 ^ k) < 2 ^ (m + k)" using that by (simp add: power_add less_diff_conv2)
    ultimately show ?thesis using crc_tab_split [of "2 ^ m * (i - 2 ^ k)" "m + k" p 1] by simp
  qed
  with 2 show ?case by (auto simp: nth_append)
qed simp

lemma tab_double_eq:
  "tab_double (map (\<lambda>j. crc_tab p (2 ^ (m + j))) [k..<k + n]) (map (\<lambda>i. crc_tab p (2 ^ m * i)) [0..<2 ^ k])
     = map (\<lambda>i. crc_tab p (2 ^ m * i)) [0..<2 ^ (k + n)]"
proof (induction n arbitrary: k)
  case (Suc n)
  moreover have "[k..<k + Suc n] = k # [Suc k..<Suc k + n]" by (simp add: upt_conv_Cons)
  ultimately show ?case
    using Suc.IH [of "Suc k"] by (simp only: list.map tab_double.simps crc_tab_step add_Suc_right add_Suc)
qed simp

lemma crc_tab_bits:
  "crc_tab p (2 ^ j) = (lfsr p ^^ 8) (push_bit j 1)" "crc_tab p 0 = 0"
  using lin_0 [OF lin_lfsr] by (simp_all add: crc_tab_def)

lemma crc_tab_table:
  "map (crc_tab p) [0..<256] = tab_double (map (\<lambda>j. (lfsr p ^^ 8) (push_bit j 1)) [0, 1, 2, 3, 4, 5, 6, 7]) [0]"
proof -
  have "[0..<0 + 8] = [0, 1, 2, 3, 4, 5, 6, 7 :: nat]" by (simp add: upt_rec)
  then show ?thesis using tab_double_eq [of p 0 0 8] by (simp add: crc_tab_bits del: push_bit_of_1)
qed

lemma crc5lut_eq: "crc5lut = map (crc_tab 0x14) [0..<256]"
  unfolding crc_tab_table pow8 crc5lut_def by (simp add: lfsr_def)

lemma crc8lut_eq: "crc8lut = map (crc_tab 0xe0) [0..<256]"
  unfolding crc_tab_table pow8 crc8lut_def by (simp add: lfsr_def)

lemma crc16lut_eq: "crc16lut = map (crc_tab 0x8408) [0..<256]"
  unfolding crc_tab_table pow8 crc16lut_def by (simp add: lfsr_def)

lemma crc32tab_eq: "crc32tab = map (crc_tab 0xedb88320) [0..<256]"
  unfolding crc_tab_table pow8 crc32tab_def by (simp add: lfsr_def)


lemma lut_byte:
  assumes "T = map (crc_tab p) [0..<256]" "x < 256"
  shows "T ! unat x = (lfsr p ^^ 8) x"
  using assms by (simp add: word_less_nat_alt crc_tab_def)

text \<open>The tables for half bytes: first the upper half, then the lower half.\<close>
lemma crc_tab_half: "map (\<lambda>h. crc_tab p (16 * h)) [0..<16] @ map (crc_tab p) [0..<16]
    = tab_double (map (\<lambda>j. (lfsr p ^^ 8) (push_bit j 1)) [4, 5, 6, 7]) [0] @ tab_double (map (\<lambda>j. (lfsr p ^^ 8) (push_bit j 1)) [0, 1, 2, 3]) [0]"
proof -
  have "[0..<0 + 4] = [0, 1, 2, 3 :: nat]" by (simp add: upt_rec)
  then show ?thesis
    using tab_double_eq [of p 0 0 4] tab_double_eq [of p 4 0 4] by (simp add: crc_tab_bits del: push_bit_of_1)
qed

lemma half_luts:
  "crc5lut4 = map (\<lambda>h. crc_tab 0x14 (16 * h)) [0..<16] @ map (crc_tab 0x14) [0..<16]"
  "crc8lut4 = map (\<lambda>h. crc_tab 0xe0 (16 * h)) [0..<16] @ map (crc_tab 0xe0) [0..<16]"
  "crc16lut4 = map (\<lambda>h. crc_tab 0x8408 (16 * h)) [0..<16] @ map (crc_tab 0x8408) [0..<16]"
  unfolding crc_tab_half pow8 crc5lut4_def crc8lut4_def crc16lut4_def by (simp_all add: lfsr_def)

lemma lut_half:
  assumes T: "T = map (\<lambda>h. crc_tab p (16 * h)) [0..<16] @ map (crc_tab p) [0..<16]" and x: "x < 256"
  shows "T ! (unat (x AND 15) + 16) XOR T ! unat (drop_bit 4 x) = (lfsr p ^^ 8) x"
proof -
  have n: "unat x < 256" using x by (simp add: word_less_nat_alt)
  have l: "unat (x AND 15) = unat x mod 16"
  proof -
    have "x AND 15 = take_bit 4 x" by (simp add: take_bit_eq_mask mask_eq_exp_minus_1)
    then show ?thesis by (simp only: unsigned_take_bit_eq) (simp add: take_bit_eq_mod)
  qed
  have "take_bit 32 (unat x) = unat x" using n by (intro take_bit_nat_eq_self) simp
  then have h: "unat (drop_bit 4 x) = unat x div 16" by (simp only: unsigned_drop_bit_eq) (simp add: drop_bit_eq_div)
  have "T ! (unat x mod 16 + 16) = crc_tab p (unat x mod 16)" by (simp add: T nth_append)
  moreover have "T ! (unat x div 16) = crc_tab p (16 * (unat x div 16))" using n by (simp add: T nth_append div_less_iff_less_mult)
  moreover have "crc_tab p (unat x) = crc_tab p (16 * (unat x div 16)) XOR crc_tab p (unat x mod 16)"
    using crc_tab_split [of "unat x mod 16" 4 p "unat x div 16"] by simp
  ultimately show ?thesis by (simp add: l h crc_tab_def xor.commute)
qed

text \<open>Values of at most \<open>n\<close> bits.\<close>
definition narrow :: "nat \<Rightarrow> u32 \<Rightarrow> bool" where
  "narrow n x \<longleftrightarrow> take_bit n x = x"

lemma narrow_bits: "narrow n x \<longleftrightarrow> (\<forall>k. bit x k \<longrightarrow> k < n)"
proof
  assume "narrow n x"
  then show "\<forall>k. bit x k \<longrightarrow> k < n" unfolding narrow_def by (metis bit_take_bit_iff)
next
  assume "\<forall>k. bit x k \<longrightarrow> k < n"
  then show "narrow n x" unfolding narrow_def by (intro bit_word_eqI) (auto simp: bit_take_bit_iff)
qed

lemma narrow_less: "narrow 8 x \<longleftrightarrow> x < 256"
proof -
  have "x < 256 \<longleftrightarrow> unat x < 2 ^ 8" by (simp add: word_less_nat_alt)
  moreover have "narrow 8 x \<longleftrightarrow> take_bit 8 (unat x) = unat x"
    by (simp only: narrow_def word_unat_eq_iff unsigned_take_bit_eq)
  ultimately show ?thesis by (simp add: take_bit_nat_eq_self_iff)
qed

lemma narrow_xor: "narrow n x \<Longrightarrow> narrow n y \<Longrightarrow> narrow n (x XOR y)"
  by (auto simp: narrow_bits bit_simps)

lemma narrow_byte: "8 \<le> n \<Longrightarrow> narrow n (ucast (c :: u8))"
  unfolding narrow_bits by (auto simp: bit_simps dest!: bit_imp_le_length)

lemma narrow_drop: "narrow n x \<Longrightarrow> narrow n (drop_bit m x)"
  unfolding narrow_bits bit_drop_bit_eq by fastforce

lemma narrow_lfsr: "narrow n p \<Longrightarrow> narrow n x \<Longrightarrow> narrow n ((lfsr p ^^ k) x)"
  by (induction k) (simp_all add: lfsr_def narrow_xor narrow_drop)

section \<open>All implementations compute the shift register\<close>

lemma crc_narrow: "narrow n p \<Longrightarrow> 8 \<le> n \<Longrightarrow> narrow n crc \<Longrightarrow> narrow n (crc_byte p c crc)"
  by (simp add: crc_byte_def narrow_lfsr narrow_xor narrow_byte)

lemma crc_fold:
  assumes "\<And>c crc. narrow n crc \<Longrightarrow> f c crc = crc_byte p c crc" "narrow n p" "narrow n i" "8 \<le> n"
  shows "fold f data i = fold (crc_byte p) data i"
  by (rule fold_agree [where P = "narrow n"]) (simp_all add: assms crc_narrow)

lemma narrow_consts:
  "narrow 8 0x14" "narrow 8 0xe0" "narrow 8 0x1f" "narrow 8 0xff" "narrow 16 0x8408" "narrow 16 0xffff"
  by (simp_all add: narrow_def)

lemma index_less: "narrow 8 crc \<Longrightarrow> crc XOR ucast (c :: u8) < (256 :: u32)"
  unfolding narrow_less [symmetric] by (intro narrow_xor narrow_byte) simp_all

lemma lin_rules:
  "lin (\<lambda>x. x)" "lin f \<Longrightarrow> lin (\<lambda>x. push_bit n (f x))" "lin f \<Longrightarrow> lin (\<lambda>x. drop_bit n (f x))"
  "lin f \<Longrightarrow> lin (\<lambda>x. f x AND m)" "lin f \<Longrightarrow> lin g \<Longrightarrow> lin (\<lambda>x. f x XOR g x)"
  by (auto simp: lin_def push_bit_xor drop_bit_xor bit.conj_xor_distrib2 xor.assoc xor.left_commute)

lemma lin_comp: "lin g \<Longrightarrow> lin f \<Longrightarrow> lin (\<lambda>x. g (f x))"
  by (simp add: lin_def)

text \<open>The union of parts with disjoint masks is linear.\<close>
definition lin_in :: "u32 \<Rightarrow> (u32 \<Rightarrow> u32) \<Rightarrow> bool" where
  "lin_in m f \<longleftrightarrow> lin f \<and> (\<forall>x k. bit (f x) k \<longrightarrow> bit m k)"

lemma lin_in_and: "lin f \<Longrightarrow> lin_in m (\<lambda>x. f x AND m)"
  by (simp add: lin_in_def lin_rules bit_and_iff)

lemma lin_in_or:
  assumes "lin_in m f" "lin_in n g" "m AND n = 0"
  shows "lin_in (m OR n) (\<lambda>x. f x OR g x)"
proof -
  have d: "\<not> (bit m k \<and> bit n k)" for k using assms(3) by (metis bit_0_eq bit_and_iff bot_apply bot_bool_def)
  have "\<not> (bit (f x) k \<and> bit (g x) k)" for x k using assms(1,2) d [of k] unfolding lin_in_def by blast
  then have "f x OR g x = f x XOR g x" for x
    by (intro bit_word_eqI) (auto simp: bit_or_iff bit_xor_iff)
  moreover have "lin (\<lambda>x. f x XOR g x)" using assms by (simp add: lin_in_def lin_rules)
  ultimately show ?thesis using assms(1,2) by (auto simp: lin_in_def bit_xor_iff bit_or_iff)
qed

lemmas lin_in_lin = lin_in_def [THEN iffD1, THEN conjunct1]

lemma lin_bwe5: "lin (crc5bwe_step 0)"
proof -
  have 1: "lin (\<lambda>x. x XOR (drop_bit 3 x XOR (push_bit 2 x XOR push_bit 3 x) XOR push_bit 4 (push_bit 2 x XOR push_bit 3 x)))"
    by (intro lin_rules)
  have 2: "lin (\<lambda>y. (y AND 0x18) OR (drop_bit 5 y AND 0x07))"
    by (rule lin_in_lin [OF lin_in_or [OF lin_in_and lin_in_and]]) (intro lin_rules | simp)+
  show ?thesis
    using lin_comp [OF 2 1] by (simp add: crc5bwe_step_def [abs_def] Let_def)
qed

lemma lin_bwe8: "lin crc8_bitwise_expression"
  unfolding crc8_bitwise_expression_def [abs_def]
  by (rule lin_in_lin [OF lin_in_or [OF lin_in_and lin_in_or [OF lin_in_and lin_in_or [OF lin_in_and lin_in_and]]]])
    (intro lin_rules | simp)+

text \<open>The swap of the two bytes, on 16 bits.\<close>
definition swap16 :: "u32 \<Rightarrow> u32" where
  "swap16 x = drop_bit 8 (x AND mask 16) XOR push_bit 8 (x AND mask 8)"

lemma lin_swap16: "lin swap16"
  unfolding swap16_def [abs_def] by (intro lin_rules)

lemma masks: "(0xffff :: u32) = mask 16" "(0xff :: u32) = mask 8"
  by (simp_all add: mask_eq_exp_minus_1)

lemma swap16_or: "drop_bit 8 (x AND mask 16) OR push_bit 8 (x AND mask 8) = swap16 x"
  unfolding swap16_def by (rule bit_word_eqI) (auto simp: bit_simps)

lemma swap16_byte: "swap16 (ucast (c :: u8)) = push_bit 8 (ucast c)"
  unfolding swap16_def by (rule bit_word_eqI) (auto simp: bit_simps dest: bit_imp_le_length)

lemma narrow_16: "narrow 16 crc \<Longrightarrow> crc AND mask 16 = crc"
  by (simp add: narrow_def take_bit_eq_mask)

definition bwe16 :: "u32 \<Rightarrow> u32" where
  "bwe16 y =
     (let y = y XOR (push_bit 4 y AND 0xf000);
          y = y XOR (drop_bit 12 y AND 0x000f)
      in y XOR (drop_bit 5 y AND 0x07f8))"

lemma lin_bwe16: "lin bwe16"
proof -
  have 1: "lin (\<lambda>y. y XOR (push_bit 4 y AND 0xf000))" and 2: "lin (\<lambda>y. y XOR (drop_bit 12 y AND 0x000f))"
    and 3: "lin (\<lambda>y. y XOR (drop_bit 5 y AND 0x07f8))"
    by (intro lin_rules)+
  show ?thesis using lin_comp [OF 3 lin_comp [OF 2 1]] by (simp only: bwe16_def [abs_def] Let_def)
qed

lemma bwe16_step:
  assumes "narrow 16 crc"
  shows "crc16bwe_step c crc = bwe16 (swap16 (crc XOR ucast c))"
proof -
  have "drop_bit 8 crc OR push_bit 8 (crc AND 0xff) = swap16 crc"
    using swap16_or [of crc] narrow_16 [OF assms] by (simp only: masks)
  moreover have "swap16 (crc XOR ucast c) = swap16 crc XOR push_bit 8 (ucast c)"
    using lin_swap16 by (simp add: lin_def swap16_byte)
  ultimately show ?thesis by (simp only: crc16bwe_step_def bwe16_def Let_def)
qed

lemma bwe5_step: "crc5bwe_step c crc = crc5bwe_step 0 (crc XOR ucast c)"
  by (simp add: crc5bwe_step_def)

lemma byte_bits: "(\<forall>j\<in>{0, 1, 2, 3, 4, 5, 6, 7 :: nat}. P j) \<longleftrightarrow> P 0 \<and> P 1 \<and> P 2 \<and> P 3 \<and> P 4 \<and> P 5 \<and> P 6 \<and> P 7"
  by simp

lemma crc5_steps:
  assumes "narrow 8 crc"
  shows "crc5bwe_step c crc = crc_byte 0x14 c crc"
    and "crc5lut4 ! (unat ((crc XOR ucast c) AND 0x0f) + 16) XOR crc5lut4 ! unat (drop_bit 4 (crc XOR ucast c)) = crc_byte 0x14 c crc"
    and "crc5lut ! unat (crc XOR ucast c) = crc_byte 0x14 c crc"
proof -
  note i = index_less [OF assms, of c]
  have "crc5bwe_step 0 (crc XOR ucast c) = (lfsr 0x14 ^^ 8) (crc XOR ucast c)"
    by (rule lin_byte [OF lin_bwe5 lin_lfsr _ i]) (simp add: byte_bits pow8 lfsr_def crc5bwe_step_def)
  then show "crc5bwe_step c crc = crc_byte 0x14 c crc" by (simp add: bwe5_step [of c] crc_byte_def)
  show "crc5lut4 ! (unat ((crc XOR ucast c) AND 0x0f) + 16) XOR crc5lut4 ! unat (drop_bit 4 (crc XOR ucast c)) = crc_byte 0x14 c crc"
    using lut_half [OF half_luts(1) i] by (simp add: crc_byte_def)
  show "crc5lut ! unat (crc XOR ucast c) = crc_byte 0x14 c crc"
    using lut_byte [OF crc5lut_eq i] by (simp add: crc_byte_def)
qed

lemma crc8_steps:
  assumes "narrow 8 crc"
  shows "crc8_bitwise_expression (crc XOR ucast c) = crc_byte 0xe0 c crc"
    and "crc8lut4 ! (unat ((crc XOR ucast c) AND 0x0f) + 16) XOR crc8lut4 ! unat (drop_bit 4 (crc XOR ucast c)) = crc_byte 0xe0 c crc"
    and "crc8lut ! unat (crc XOR ucast c) = crc_byte 0xe0 c crc"
proof -
  note i = index_less [OF assms, of c]
  show "crc8_bitwise_expression (crc XOR ucast c) = crc_byte 0xe0 c crc"
    unfolding crc_byte_def
    by (rule lin_byte [OF lin_bwe8 lin_lfsr _ i]) (simp add: byte_bits pow8 lfsr_def crc8_bitwise_expression_def)
  show "crc8lut4 ! (unat ((crc XOR ucast c) AND 0x0f) + 16) XOR crc8lut4 ! unat (drop_bit 4 (crc XOR ucast c)) = crc_byte 0xe0 c crc"
    using lut_half [OF half_luts(2) i] by (simp add: crc_byte_def)
  show "crc8lut ! unat (crc XOR ucast c) = crc_byte 0xe0 c crc"
    using lut_byte [OF crc8lut_eq i] by (simp add: crc_byte_def)
qed

lemma drop_byte: "drop_bit 8 (crc XOR ucast (c :: u8)) = (drop_bit 8 crc :: u32)"
  by (rule bit_word_eqI) (auto simp: bit_simps dest: bit_imp_le_length)

lemma low_byte: "x AND 0xff < (256 :: u32)"
  unfolding narrow_less [symmetric] masks by (simp add: narrow_bits bit_and_iff bit_mask_iff)

lemma lut_wide:
  assumes "T = map (crc_tab p) [0..<256]"
  shows "T ! unat ((crc XOR ucast c) AND 0xff) XOR drop_bit 8 crc = crc_byte p c crc"
  using lut_byte [OF assms low_byte, of "crc XOR ucast c"] lfsr_byte [of p "crc XOR ucast c"]
  by (simp only: crc_byte_def drop_byte xor.commute)

lemma bwe16_basis: "\<forall>j\<in>set [0..<16]. bwe16 (swap16 (push_bit j 1)) = (lfsr 0x8408 ^^ 8) (push_bit j 1)"
  unfolding swap16_def masks [symmetric] by (simp add: upt_rec pow8 lfsr_def bwe16_def)

lemma crc16_steps:
  shows "narrow 16 crc \<Longrightarrow> crc16bwe_step c crc = crc_byte 0x8408 c crc"
    and "(let crc = crc XOR ucast c in drop_bit 8 crc XOR crc16lut4 ! unat (drop_bit 4 crc AND 15) XOR crc16lut4 ! (unat (crc AND 15) + 16))
      = crc_byte 0x8408 c crc"
    and "crc16lut ! unat ((crc XOR ucast c) AND 0xff) XOR drop_bit 8 crc = crc_byte 0x8408 c crc"
proof -
  let ?x = "crc XOR ucast c"
  show "crc16lut ! unat (?x AND 0xff) XOR drop_bit 8 crc = crc_byte 0x8408 c crc"
    by (rule lut_wide [OF crc16lut_eq])
  have "(?x AND 0xff) AND 15 = ?x AND 15" "drop_bit 4 (?x AND 0xff) = drop_bit 4 ?x AND 15"
    by (simp_all add: and.assoc drop_bit_and)
  then have "crc16lut4 ! (unat (?x AND 15) + 16) XOR crc16lut4 ! unat (drop_bit 4 ?x AND 15) = (lfsr 0x8408 ^^ 8) (?x AND 0xff)"
    using lut_half [OF half_luts(3) low_byte, of ?x] by (simp only:)
  then show "(let crc = ?x in drop_bit 8 crc XOR crc16lut4 ! unat (drop_bit 4 crc AND 15) XOR crc16lut4 ! (unat (crc AND 15) + 16))
      = crc_byte 0x8408 c crc"
    using lfsr_byte [of "0x8408" ?x] by (simp only: Let_def crc_byte_def xor.commute xor.assoc)
  assume "narrow 16 crc"
  then have "narrow 16 ?x" by (simp add: narrow_xor narrow_byte)
  then have "bwe16 (swap16 ?x) = (lfsr 0x8408 ^^ 8) ?x"
    using lin_agree [OF lin_comp [OF lin_bwe16 lin_swap16] lin_lfsr [of 8 "0x8408"], of 16 ?x] bwe16_basis
    by (simp add: narrow_def del: push_bit_of_1 take_bit_xor)
  then show "crc16bwe_step c crc = crc_byte 0x8408 c crc"
    using bwe16_step [OF \<open>narrow 16 crc\<close>] by (simp add: crc_byte_def)
qed

text \<open>The register of \<open>crc16ccitt.c\<close> shifts the other way, most significant bit first.\<close>
definition lfsr_msb :: "u32 \<Rightarrow> u32" where
  "lfsr_msb crc = (if bit crc 15 then push_bit 1 crc XOR 0x1021 else push_bit 1 crc) AND 0xffff"

definition ccitt_byte :: "u8 \<Rightarrow> u32 \<Rightarrow> u32" where
  "ccitt_byte c crc = (lfsr_msb ^^ 8) (crc XOR push_bit 8 (ucast c))"

lemma lin_msb: "lin (lfsr_msb ^^ n)"
proof -
  have "lfsr_msb (a XOR b) = lfsr_msb a XOR lfsr_msb b" for a b
    by (auto simp: lfsr_msb_def bit_xor_iff push_bit_xor bit.conj_xor_distrib2 xor.assoc xor.left_commute xor.commute)
  then show ?thesis by (induction n) (simp_all add: lin_def)
qed

definition ccitt16 :: "u32 \<Rightarrow> u32" where
  "ccitt16 y =
     (let y = y XOR drop_bit 4 (y AND 0xff);
          y = y XOR push_bit 12 (y AND 0x0f)
      in y XOR push_bit 5 (y AND 0xff))"

lemma lin_ccitt16: "lin ccitt16"
proof -
  have 1: "lin (\<lambda>y. y XOR drop_bit 4 (y AND 0xff))" and 2: "lin (\<lambda>y. y XOR push_bit 12 (y AND 0x0f))"
    and 3: "lin (\<lambda>y. y XOR push_bit 5 (y AND 0xff))"
    by (intro lin_rules)+
  show ?thesis using lin_comp [OF 3 lin_comp [OF 2 1]] by (simp only: ccitt16_def [abs_def] Let_def)
qed

lemma ccitt_basis: "\<forall>j\<in>set [0..<16]. ccitt16 (swap16 (push_bit j 1)) = (lfsr_msb ^^ 8) (push_bit j 1)"
  unfolding swap16_def masks [symmetric] by (simp add: upt_rec pow8 lfsr_msb_def ccitt16_def)

lemma swap16_upper: "swap16 (push_bit 8 (ucast (c :: u8))) = ucast c"
  unfolding swap16_def by (rule bit_word_eqI) (auto simp: bit_simps dest: bit_imp_le_length)

lemma narrow_upper: "narrow 16 (push_bit 8 (ucast (c :: u8)))"
  unfolding narrow_bits by (auto simp: bit_simps dest!: bit_imp_le_length)

lemma ccitt_step:
  assumes "narrow 16 crc"
  shows "crc16ccitt_step c crc = ccitt_byte c crc \<and> narrow 16 (ccitt_byte c crc)"
proof -
  let ?x = "crc XOR push_bit 8 (ucast c)"
  have "narrow 16 ?x" using assms by (simp add: narrow_xor narrow_upper)
  then have "ccitt16 (swap16 ?x) = (lfsr_msb ^^ 8) ?x"
    using lin_agree [OF lin_comp [OF lin_ccitt16 lin_swap16] lin_msb [of 8], of 16 ?x] ccitt_basis
    by (simp add: narrow_def del: push_bit_of_1 take_bit_xor)
  moreover have "swap16 ?x = swap16 crc XOR ucast c"
    using lin_swap16 by (simp add: lin_def swap16_upper)
  moreover have "drop_bit 8 crc OR push_bit 8 (crc AND 0xff) = swap16 crc"
    using swap16_or [of crc] narrow_16 [OF assms] by (simp only: masks)
  ultimately have "crc16ccitt_step c crc = ccitt_byte c crc"
    by (simp only: crc16ccitt_step_def ccitt16_def ccitt_byte_def Let_def)
  moreover have "narrow 16 (lfsr_msb y)" for y
    unfolding lfsr_msb_def masks by (simp add: narrow_bits bit_and_iff bit_mask_iff)
  then have "narrow 16 (ccitt_byte c crc)" by (simp add: ccitt_byte_def pow8)
  ultimately show ?thesis by blast
qed

section \<open>Properties\<close>

text \<open>
  C37. The three implementations of each check sum compute the same function, that of the shift register
  with the polynomial of the check sum, for all data; \<open>crc32\<close> and \<open>crc16ccitt\<close> continue from a
  given value, for the latter of 16 bits, and the latter shifts the most significant bit out first.
\<close>
theorem crc_implementations:
  "crc5bwe data = fold (crc_byte 0x14) data 0x1f XOR 0x1f \<and> crc5tbl4 data = crc5bwe data \<and> crc5tbl8 data = crc5bwe data
   \<and> crc8bwe data = fold (crc_byte 0xe0) data 0xff XOR 0xff \<and> crc8tbl4 data = crc8bwe data \<and> crc8tbl8 data = crc8bwe data
   \<and> crc16bwe data = fold (crc_byte 0x8408) data 0xffff XOR 0xffff \<and> crc16tbl4 data = crc16bwe data \<and> crc16tbl8 data = crc16bwe data
   \<and> crc32 i data = fold (crc_byte 0xedb88320) data i XOR 0xffffffff
   \<and> crc16ccitt (take_bit 16 i) data = fold ccitt_byte data (take_bit 16 i)"
proof -
  have 5: "fold crc5bwe_step data 0x1f = fold (crc_byte 0x14) data 0x1f"
    "fold (\<lambda>c crc. let idx = crc XOR ucast c in crc5lut4 ! (unat (idx AND 0x0f) + 16) XOR crc5lut4 ! unat (drop_bit 4 idx)) data 0x1f
      = fold (crc_byte 0x14) data 0x1f"
    "fold (\<lambda>c crc. let idx = crc XOR ucast c in crc5lut ! unat idx) data 0x1f = fold (crc_byte 0x14) data 0x1f"
    by (intro crc_fold [where n = 8]; (simp only: Let_def crc5_steps narrow_consts | simp))+
  have 8: "fold (\<lambda>c crc. let idx = crc XOR ucast c in crc8_bitwise_expression idx) data 0xff = fold (crc_byte 0xe0) data 0xff"
    "fold (\<lambda>c crc. let idx = crc XOR ucast c in crc8lut4 ! (unat (idx AND 0x0f) + 16) XOR crc8lut4 ! unat (drop_bit 4 idx)) data 0xff
      = fold (crc_byte 0xe0) data 0xff"
    "fold (\<lambda>c crc. let idx = crc XOR ucast c in crc8lut ! unat idx) data 0xff = fold (crc_byte 0xe0) data 0xff"
    by (intro crc_fold [where n = 8]; (simp only: Let_def crc8_steps narrow_consts | simp))+
  have 16: "fold crc16bwe_step data 0xffff = fold (crc_byte 0x8408) data 0xffff"
    "fold (\<lambda>c crc. let crc = crc XOR ucast c in drop_bit 8 crc XOR crc16lut4 ! unat (drop_bit 4 crc AND 15) XOR crc16lut4 ! (unat (crc AND 15) + 16)) data 0xffff
      = fold (crc_byte 0x8408) data 0xffff"
    "fold (\<lambda>c crc. let idx = (crc XOR ucast c) AND 0xff in crc16lut ! unat idx XOR drop_bit 8 crc) data 0xffff = fold (crc_byte 0x8408) data 0xffff"
    by (intro crc_fold [where n = 16]; (simp only: crc16_steps crc16_steps(2,3) [unfolded Let_def] Let_def narrow_consts | simp))+
  have 32: "fold crc32_step data i = fold (crc_byte 0xedb88320) data i"
    by (rule fold_agree [where P = "\<lambda>_. True"]) (simp_all only: crc32_step_def lut_wide [OF crc32tab_eq])
  have ccitt: "fold crc16ccitt_step data (take_bit 16 i) = fold ccitt_byte data (take_bit 16 i)"
    by (rule fold_agree [where P = "narrow 16"]) (simp add: narrow_def, rule ccitt_step)
  show ?thesis
    unfolding crc5bwe_def crc5tbl4_def crc5tbl8_def crc8bwe_def crc8tbl4_def crc8tbl8_def crc16bwe_def crc16tbl4_def crc16tbl8_def crc32_def
      crc16ccitt_def 5 8 16 32 ccitt by simp
qed

end
