(* ===== verification/Util.thy ===== *)
theory Util
  imports Prelude
begin

text \<open>
  The number utilities of \<open>src/sdk/libutil\<close>: byte order, square roots, logarithm, and the printing of
  numbers in decimal and hexadecimal, without division. A character buffer is a
  function from positions to bytes; a routine returns the buffer and the number of characters.
\<close>

unbundle bit_operations_syntax

type_synonym u16 = "16 word"
type_synonym u64 = "64 word"
type_synonym chars = "nat \<Rightarrow> u8"

section \<open>Byte order\<close>

definition bswap_16 :: "u16 \<Rightarrow> u16" where
  "bswap_16 v = push_bit 8 (v AND 0xff) OR drop_bit 8 (v AND 0xff00)"

definition bswap_32 :: "u32 \<Rightarrow> u32" where
  "bswap_32 v = push_bit 24 (v AND 0xff) OR push_bit 8 (v AND 0xff00) OR
     drop_bit 8 (v AND 0xff0000) OR drop_bit 24 (v AND 0xff000000)"

section \<open>Square roots\<close>

text \<open>One pass of the loop of \<open>u32sqrt\<close>, on \<open>(root, rem, x)\<close>.\<close>
definition u32sqrt_step :: "u32 \<times> u32 \<times> u32 \<Rightarrow> u32 \<times> u32 \<times> u32" where
  "u32sqrt_step s =
     (case s of (root, rem, x) \<Rightarrow>
        let root = push_bit 1 root;
            rem = push_bit 2 rem + drop_bit 30 x;
            x = push_bit 2 x;
            root = root + 1
        in if root \<le> rem then (root + 1, rem - root, x) else (root - 1, rem, x))"

definition u32sqrt :: "u32 \<Rightarrow> u32" where
  "u32sqrt x = (case (u32sqrt_step ^^ 16) (0, 0, x) of (root, _, _) \<Rightarrow> drop_bit 1 root)"

text \<open>The root has 32 bits, the remainder 64.\<close>
definition u64sqrt_step :: "u32 \<times> u64 \<times> u64 \<Rightarrow> u32 \<times> u64 \<times> u64" where
  "u64sqrt_step s =
     (case s of (root, rem, x) \<Rightarrow>
        let root = push_bit 1 root;
            rem = push_bit 2 rem + drop_bit 62 x;
            x = push_bit 2 x;
            root = root + 1
        in if ucast root \<le> rem then (root + 1, rem - ucast root, x) else (root - 1, rem, x))"

definition u64sqrt :: "u64 \<Rightarrow> u32" where
  "u64sqrt x = (case (u64sqrt_step ^^ 32) (0, 0, x) of (root, _, _) \<Rightarrow> drop_bit 1 root)"

section \<open>Logarithm\<close>

definition ilog2 :: "u32 \<Rightarrow> u32" where
  "ilog2 v = 31 - of_nat (clz v)"

section \<open>Hexadecimal\<close>

definition hextab :: "u8 list" where
  "hextab = map (\<lambda>c. of_char c) ''0123456789abcdef''"

definition hexuptab :: "u8 list" where
  "hexuptab = map (\<lambda>c. of_char c) ''0123456789ABCDEF''"

definition char2hex :: "u32 \<Rightarrow> chars \<Rightarrow> nat \<times> chars" where
  "char2hex c s = (2, s(0 := hextab ! unat (drop_bit 4 c AND 0xf), 1 := hextab ! unat (c AND 0xf)))"

definition short2hex_be :: "u32 \<Rightarrow> chars \<Rightarrow> nat \<times> chars" where
  "short2hex_be val s = (4, s(0 := hextab ! unat (drop_bit 4 val AND 0xf), 1 := hextab ! unat (val AND 0xf),
     2 := hextab ! unat (drop_bit 12 val AND 0xf), 3 := hextab ! unat (drop_bit 8 val AND 0xf)))"

text \<open>The second store goes to position 0 again.\<close>
definition short2hex_le :: "u32 \<Rightarrow> chars \<Rightarrow> nat \<times> chars" where
  "short2hex_le val s = (4, s(0 := hextab ! unat (drop_bit 12 val AND 0xf), 0 := hextab ! unat (drop_bit 8 val AND 0xf),
     2 := hextab ! unat (drop_bit 4 val AND 0xf), 3 := hextab ! unat (val AND 0xf)))"

text \<open>One pass of the loop of \<open>uint2hex\<close>, on \<open>(n, val, s)\<close>; \<open>uint2hexup\<close> differs in the table.\<close>
definition uint2hex_step :: "u8 list \<Rightarrow> nat \<times> u32 \<times> chars \<Rightarrow> nat \<times> u32 \<times> chars" where
  "uint2hex_step tab st =
     (case st of (n, val, s) \<Rightarrow>
        let c = drop_bit 28 val;
            val = push_bit 4 val
        in if c \<noteq> 0 \<or> n \<noteq> 0 then (n + 1, val, s(n := tab ! unat c)) else (n, val, s))"

definition uint2hex_with :: "u8 list \<Rightarrow> u32 \<Rightarrow> chars \<Rightarrow> nat \<times> chars" where
  "uint2hex_with tab val s =
     (if val = 0 then (1, s(0 := of_char CHR ''0'', 1 := 0))
      else case (uint2hex_step tab ^^ 8) (0, val, s) of (n, _, s) \<Rightarrow> (n, s(n := 0)))"

definition uint2hex :: "u32 \<Rightarrow> chars \<Rightarrow> nat \<times> chars" where
  "uint2hex = uint2hex_with hextab"

definition uint2hexup :: "u32 \<Rightarrow> chars \<Rightarrow> nat \<times> chars" where
  "uint2hexup = uint2hex_with hexuptab"

section \<open>Decimal\<close>

definition div_tab :: "u32 list" where
  "div_tab = [4000000000, 800000000, 80000000, 8000000, 800000, 80000, 8000, 800, 80, 8]"

text \<open>The inner loop: \<open>i\<close> runs over 8, 4, 2, 1 (or 4, 2, 1).\<close>
function dec_digit :: "nat \<Rightarrow> u32 \<Rightarrow> u32 \<Rightarrow> nat \<Rightarrow> u32 \<times> nat" where
  "dec_digit i dv val c =
     (if i = 0 then (val, c)
      else if dv \<le> val then dec_digit (i div 2) (drop_bit 1 dv) (val - dv) (c + i)
      else dec_digit (i div 2) (drop_bit 1 dv) val c)"
  by auto
termination by (relation "measure (\<lambda>(i, _). i)") auto

declare dec_digit.simps [simp del]

text \<open>The outer loop, over the table up to its terminating zero.\<close>
fun dec_loop :: "u32 list \<Rightarrow> nat \<Rightarrow> u32 \<Rightarrow> nat \<Rightarrow> chars \<Rightarrow> nat \<times> chars" where
  "dec_loop [] i val n s = (n, s(n := 0))"
| "dec_loop (dv # dvs) i val n s =
     (case dec_digit i dv val 0 of (val, c) \<Rightarrow>
        if c \<noteq> 0 \<or> n \<noteq> 0 then dec_loop dvs 8 val (n + 1) (s(n := of_nat c + of_char CHR ''0''))
        else dec_loop dvs 8 val n s)"

definition uint2dec :: "u32 \<Rightarrow> chars \<Rightarrow> nat \<times> chars" where
  "uint2dec val s =
     (if val = 0 then (1, s(0 := of_char CHR ''0'', 1 := 0))
      else dec_loop div_tab 4 val 0 s)"

text \<open>
  \<open>-val\<close> is the negation in two's complement. For the least number the C standard leaves it
  undefined (signed overflow); the definition gives the value the negate instruction computes.
\<close>
definition int2dec :: "u32 \<Rightarrow> chars \<Rightarrow> nat \<times> chars" where
  "int2dec val s =
     (if sint val < 0
      then case uint2dec (- val) (\<lambda>k. s (k + 1)) of (n, t) \<Rightarrow>
        (n + 1, \<lambda>k. if k = 0 then of_char CHR ''-'' else t (k - 1))
      else uint2dec val s)"

section \<open>Bytes and bits\<close>

lemma byte_masks:
  "(0xff :: u16) = mask 8" "(0xff00 :: u16) = push_bit 8 (mask 8)"
  "(0xff :: u32) = mask 8" "(0xff00 :: u32) = push_bit 8 (mask 8)"
  "(0xff0000 :: u32) = push_bit 16 (mask 8)" "(0xff000000 :: u32) = push_bit 24 (mask 8)"
  by (simp_all add: mask_eq_exp_minus_1 push_bit_eq_mult)

lemmas bit_field_simps = bit_or_iff bit_push_bit_iff bit_drop_bit_eq bit_and_iff bit_mask_iff comp_apply possible_bit_word

text \<open>\<open>bswap_16\<close> and \<open>bswap_32\<close> reverse the order of the bytes.\<close>
lemma bit_bswap_16: "n < 16 \<Longrightarrow> bit (bswap_16 v) n = bit v (if n < 8 then n + 8 else n - 8)"
  unfolding bswap_16_def byte_masks
  by (auto simp only: bit_field_simps) (auto simp: add.commute split: if_splits)

lemma bit_bswap_32:
  "n < 32 \<Longrightarrow> bit (bswap_32 v) n =
    bit v (if n < 8 then n + 24 else if n < 16 then n + 8 else if n < 24 then n - 8 else n - 24)"
  unfolding bswap_32_def byte_masks
  by (simp only: bit_field_simps) (auto simp: add.commute split: if_splits)

lemma bswap_16_twice: "bswap_16 (bswap_16 v) = v"
  by (rule bit_word_eqI) (auto simp: bit_bswap_16)

lemma bswap_32_twice: "bswap_32 (bswap_32 v) = v"
  by (rule bit_word_eqI) (auto simp: bit_bswap_32)

text \<open>\<open>ilog2\<close> is the position of the most significant bit.\<close>
lemma ilog2_msb:
  assumes "v \<noteq> 0"
  shows "bit v (unat (ilog2 v))" "unat (ilog2 v) < m \<Longrightarrow> \<not> bit v m"
proof -
  have "\<not> (\<forall>m<32. \<not> bit v m)" using assms bit_word_eqI [of v 0] by auto
  then have z: "clz v < 32" using clz_scan_full [of 32 v] clz_scan_le [of 32 v] unfolding clz_def by (simp only: le_less simp_thms)
  have "(of_nat (clz v) :: u32) \<le> 31" using z by (simp add: word_le_nat_alt unsigned_of_nat take_bit_nat_eq_self)
  then have i: "unat (ilog2 v) = 32 - Suc (clz v)"
    using z by (simp add: ilog2_def unat_sub unsigned_of_nat take_bit_nat_eq_self)
  show "bit v (unat (ilog2 v))" unfolding i using z clz_scan_bit [of 32 v] by (simp add: clz_def)
  show "\<not> bit v m" if "unat (ilog2 v) < m"
  proof (cases "m < 32")
    case True
    then show ?thesis using clz_scan_above [of m 32 v] that unfolding i by (simp add: clz_def)
  next
    case False
    then show ?thesis using bit_imp_le_length [of v m] by auto
  qed
qed

section \<open>Printing\<close>

text \<open>The characters \<open>xs\<close> written from position \<open>n\<close> on.\<close>
definition put :: "chars \<Rightarrow> nat \<Rightarrow> u8 list \<Rightarrow> chars" where
  "put s n xs = (\<lambda>k. if n \<le> k \<and> k < n + length xs then xs ! (k - n) else s k)"

lemma put_Nil [simp]: "put s n [] = s"
  by (auto simp: put_def fun_eq_iff)

lemma put_one: "put s n [x] = s(n := x)"
  by (auto simp: put_def fun_eq_iff)

lemma put_Cons: "put (s(n := x)) (Suc n) xs = put s n (x # xs)"
  by (auto simp: put_def fun_eq_iff nth_Cons')

lemma put_snoc: "(put s n xs)(n + length xs := x) = put s n (xs @ [x])"
  by (auto simp: put_def fun_eq_iff nth_append)

text \<open>The \<open>k\<close> digits of a number, most significant first; numbers without leading zeros.\<close>
fun digits :: "nat \<Rightarrow> nat \<Rightarrow> nat \<Rightarrow> nat list" where
  "digits b 0 v = []"
| "digits b (Suc k) v = v div b ^ k # digits b k (v mod b ^ k)"

definition digits_value :: "nat \<Rightarrow> nat list \<Rightarrow> nat" where
  "digits_value b ds = foldl (\<lambda>a d. b * a + d) 0 ds"

definition is_numeral :: "nat \<Rightarrow> nat \<Rightarrow> nat list \<Rightarrow> bool" where
  "is_numeral b v ds \<longleftrightarrow> digits_value b ds = v \<and> (\<forall>d\<in>set ds. d < b) \<and> (ds = [0] \<or> ds \<noteq> [] \<and> hd ds \<noteq> 0)"

lemma digits_foldl: "v < b ^ k \<Longrightarrow> 0 < b \<Longrightarrow> foldl (\<lambda>a d. b * a + d) a (digits b k v) = a * b ^ k + v"
proof (induction k arbitrary: a v)
  case (Suc k)
  then have "foldl (\<lambda>a d. b * a + d) (b * a + v div b ^ k) (digits b k (v mod b ^ k)) = (b * a + v div b ^ k) * b ^ k + v mod b ^ k"
    by simp
  then show ?case by (simp add: algebra_simps)
qed simp

lemma digits_less: "v < b ^ k \<Longrightarrow> d \<in> set (digits b k v) \<Longrightarrow> d < b"
proof (induction k arbitrary: v)
  case (Suc k)
  have "b > 0" using Suc.prems(1) by (cases b) auto
  then have "v mod b ^ k < b ^ k" "v div b ^ k < b" using Suc.prems(1) by (simp_all add: div_less_iff_less_mult)
  with Suc.prems Suc.IH [of "v mod b ^ k"] show ?case by auto
qed simp

lemma value_dropWhile: "foldl (\<lambda>a d. b * a + d) 0 (dropWhile ((=) 0) ds) = foldl (\<lambda>a d. b * a + d) 0 (ds :: nat list)"
  by (induction ds) auto

text \<open>Dropping the leading zeros of a positive number leaves its numeral.\<close>
lemma numeral_digits:
  assumes "0 < v" "v < b ^ k" "0 < b"
  shows "is_numeral b v (dropWhile ((=) 0) (digits b k v))"
proof -
  have v: "digits_value b (dropWhile ((=) 0) (digits b k v)) = v"
    using digits_foldl [OF assms(2,3), of 0] by (simp add: digits_value_def value_dropWhile)
  then have n: "dropWhile ((=) 0) (digits b k v) \<noteq> []" using assms(1) by (auto simp: digits_value_def simp del: dropWhile_eq_Nil_conv)
  then have "hd (dropWhile ((=) 0) (digits b k v)) \<noteq> 0" using hd_dropWhile [of "(=) 0" "digits b k v"] by auto
  moreover have "\<forall>d\<in>set (dropWhile ((=) 0) (digits b k v)). d < b"
    using digits_less [OF assms(2)] set_dropWhileD by metis
  ultimately show ?thesis using v n by (simp add: is_numeral_def)
qed

section \<open>Decimal digits by subtraction\<close>

lemma drop_half: "2 * X < 2 ^ 32 \<Longrightarrow> drop_bit 1 (of_nat (2 * X) :: u32) = of_nat X"
  by (simp only: word_unat_eq_iff unsigned_drop_bit_eq unsigned_of_nat) (simp add: take_bit_nat_eq_self drop_bit_eq_div)

lemma dec_digit_spec:
  assumes "0 < D" "2 ^ j * D < 2 ^ 32" "unat val < 2 * (2 ^ j * D)"
  shows "dec_digit (2 ^ j) (of_nat (2 ^ j * D)) val c = (of_nat (unat val mod D), c + unat val div D)"
  using assms(2,3)
proof (induction j arbitrary: val c)
  case 0
  have u: "unat (of_nat D :: u32) = D" using 0 by (simp add: unsigned_of_nat take_bit_nat_eq_self)
  show ?case
  proof (cases "D \<le> unat val")
    case True
    then have "of_nat D \<le> val" by (simp add: word_le_nat_alt u)
    moreover have "unat val div D = 1" "unat val mod D = unat val - D"
      using True 0 by (simp_all add: div_nat_eqI mod_nat_eqI le_mod_geq)
    moreover have "val - of_nat D = of_nat (unat val - D)" using True by (simp add: of_nat_diff)
    ultimately show ?thesis
      by (simp add: dec_digit.simps [of "Suc 0"] dec_digit.simps [of 0])
  next
    case False
    then have "\<not> of_nat D \<le> val" by (simp add: word_le_nat_alt u)
    with False show ?thesis by (simp add: dec_digit.simps [of "Suc 0"] dec_digit.simps [of 0])
  qed
next
  case (Suc j)
  let ?D = "2 ^ Suc j * D"
  have u: "unat (of_nat ?D :: u32) = ?D" using Suc.prems(1) by (simp only: unsigned_of_nat) (simp add: take_bit_nat_eq_self)
  have h: "drop_bit 1 (of_nat ?D :: u32) = of_nat (2 ^ j * D)"
    using drop_half [of "2 ^ j * D"] Suc.prems(1) by (simp add: mult.assoc)
  have i: "2 ^ Suc j div 2 = (2 :: nat) ^ j" by simp
  have "2 * (2 ^ j * D) < 2 ^ 32" using Suc.prems(1) by (simp only: power_Suc mult.assoc)
  then have j: "2 ^ j * D < 2 ^ 32" by linarith
  show ?case
  proof (cases "?D \<le> unat val")
    case True
    then have c: "of_nat ?D \<le> val" by (simp only: word_le_nat_alt u)
    have d: "val - of_nat ?D = of_nat (unat val - ?D)" using True by (simp only: of_nat_diff) simp
    have un: "unat (val - of_nat ?D) = unat val - ?D" using c by (simp only: unat_sub_if' u word_le_nat_alt) simp
    then have "unat (val - of_nat ?D) < 2 * (2 ^ j * D)" using Suc.prems(2) by simp
    note Suc.IH [OF j this, of "c + 2 ^ Suc j"]
    moreover have "unat val mod D = (unat val - ?D) mod D" "unat val div D = 2 ^ Suc j + (unat val - ?D) div D"
    proof -
      obtain W where "unat val = D * 2 ^ Suc j + W" using True by (metis le_Suc_ex mult.commute)
      then show "unat val mod D = (unat val - ?D) mod D" "unat val div D = 2 ^ Suc j + (unat val - ?D) div D"
        using assms(1) by (simp_all add: mult.commute)
    qed
    ultimately show ?thesis using c by (subst dec_digit.simps) (simp only: h i un, simp)
  next
    case False
    then have "\<not> of_nat ?D \<le> val" by (simp only: word_le_nat_alt u not_le)
    moreover have "unat val < 2 * (2 ^ j * D)" using False by simp
    note Suc.IH [OF j this, of c]
    ultimately show ?thesis by (subst dec_digit.simps) (simp only: h i, simp)
  qed
qed

text \<open>The rest of the table after the first entry.\<close>
definition dec_tab :: "nat \<Rightarrow> u32 list" where
  "dec_tab k = map (\<lambda>m. of_nat (8 * 10 ^ m)) (rev [0..<k])"

lemma div_tab_eq: "div_tab = 4000000000 # dec_tab 9"
  by (simp add: div_tab_def dec_tab_def upt_rec)

definition dec_char :: "nat \<Rightarrow> u8" where
  "dec_char d = of_nat d + 48"

definition shown :: "nat \<Rightarrow> nat list \<Rightarrow> nat list" where
  "shown n ds = (if n = 0 then dropWhile ((=) 0) ds else ds)"

lemma dec_loop_spec:
  assumes "k \<le> 9" "unat val < 10 ^ k"
  shows "dec_loop (dec_tab k) 8 val n s =
    (let ds = shown n (digits 10 k (unat val)) in (n + length ds, put s n (map dec_char ds @ [0])))"
  using assms
proof (induction k arbitrary: val n s)
  case 0
  then show ?case by (simp add: dec_tab_def shown_def put_one)
next
  case (Suc k)
  define dv :: u32 where "dv = of_nat (2 ^ 3 * 10 ^ k)"
  have t: "dec_tab (Suc k) = dv # dec_tab k" by (simp add: dec_tab_def dv_def)
  have p: "(10 :: nat) ^ k \<le> 10 ^ 8" using Suc.prems(1) by (intro power_increasing) simp_all
  define c where "c = unat val div 10 ^ k"
  have "dec_digit (2 ^ 3) (of_nat (2 ^ 3 * 10 ^ k)) val 0 = (of_nat (unat val mod 10 ^ k), 0 + unat val div 10 ^ k)"
    using Suc.prems(2) p by (intro dec_digit_spec) simp_all
  then have dg: "dec_digit 8 dv val 0 = (of_nat (unat val mod 10 ^ k), c)" by (simp add: c_def dv_def)
  have u: "unat (of_nat (unat val mod 10 ^ k) :: u32) = unat val mod 10 ^ k"
    using p by (simp add: unsigned_of_nat take_bit_nat_eq_self less_le_trans [OF mod_less_divisor])
  have IH: "dec_loop (dec_tab k) 8 (of_nat (unat val mod 10 ^ k)) m r =
    (let ds = shown m (digits 10 k (unat val mod 10 ^ k)) in (m + length ds, put r m (map dec_char ds @ [0])))" for m r
    using Suc.IH [of "of_nat (unat val mod 10 ^ k)" m r] Suc.prems(1) by (simp add: u)
  show ?case
  proof (cases "c = 0 \<and> n = 0")
    case True
    then show ?thesis unfolding t by (simp add: dg IH shown_def flip: c_def)
  next
    case False
    then have "shown n (digits 10 (Suc k) (unat val)) = c # digits 10 k (unat val mod 10 ^ k)"
      by (auto simp: shown_def c_def)
    with False show ?thesis
      unfolding t by (simp add: dg IH shown_def put_Cons Let_def flip: dec_char_def)
  qed
qed

lemma zero_char: "of_char CHR ''0'' = (48 :: u8)" "of_char CHR ''-'' = (45 :: u8)"
  by simp_all

lemma uint2dec_eq:
  "\<exists>ds. is_numeral 10 (unat val) ds \<and> uint2dec val s = (length ds, put s 0 (map dec_char ds @ [0]))"
proof (cases "val = 0")
  case True
  then show ?thesis
    by (intro exI [of _ "[0]"]) (auto simp: uint2dec_def is_numeral_def digits_value_def put_def dec_char_def fun_eq_iff nth_Cons')
next
  case False
  let ?ds = "dropWhile ((=) 0) (digits 10 10 (unat val))"
  have "unat val < 2 ^ LENGTH(32)" by (rule unsigned_less)
  then have v: "unat val < 10 ^ 10" "0 < unat val" using False by (simp_all add: unat_gt_0)
  define c where "c = unat val div 10 ^ 9"
  have "dec_digit (2 ^ 2) (of_nat (2 ^ 2 * 10 ^ 9)) val 0 = (of_nat (unat val mod 10 ^ 9), 0 + unat val div 10 ^ 9)"
    using \<open>unat val < 2 ^ LENGTH(32)\<close> by (intro dec_digit_spec) simp_all
  then have dg: "dec_digit 4 4000000000 val 0 = (of_nat (unat val mod 10 ^ 9), c)" by (simp add: c_def)
  have u: "unat (of_nat (unat val mod 10 ^ 9) :: u32) = unat val mod 10 ^ 9"
    by (simp add: unsigned_of_nat take_bit_nat_eq_self less_le_trans [OF mod_less_divisor])
  note l = dec_loop_spec [of 9 "of_nat (unat val mod 10 ^ 9)", unfolded u]
  have "digits 10 10 (unat val) = c # digits 10 9 (unat val mod 10 ^ 9)"
    using digits.simps(2) [of 10 9 "unat val"] by (simp add: c_def)
  then have "uint2dec val s = (length ?ds, put s 0 (map dec_char ?ds @ [0]))"
    using False l by (simp add: uint2dec_def div_tab_eq dg zero_char shown_def put_Cons dec_char_def add.commute Let_def)
  moreover have "is_numeral 10 (unat val) ?ds" using v by (intro numeral_digits) simp_all
  ultimately show ?thesis by blast
qed

section \<open>Hexadecimal digits\<close>

lemma hex_next:
  assumes "k < 8" "v < 16 ^ Suc k"
  shows "drop_bit 28 (of_nat (v * 16 ^ (7 - k)) :: u32) = of_nat (v div 16 ^ k)"
    and "push_bit 4 (of_nat (v * 16 ^ (7 - k)) :: u32) = of_nat (v mod 16 ^ k * 16 ^ (8 - k))"
proof -
  have e: "(16 :: nat) ^ k * 16 ^ (7 - k) = 16 ^ 7" "(16 :: nat) ^ Suc k * 16 ^ (7 - k) = 16 ^ 8" "8 - k = Suc (7 - k)"
    using assms(1) by (simp_all flip: power_add add: Suc_diff_le)
  have "v * 16 ^ (7 - k) < 16 ^ Suc k * 16 ^ (7 - k)" using assms(2) by simp
  then have X: "v * 16 ^ (7 - k) < 2 ^ 32" unfolding e by simp
  have "v * 16 ^ (7 - k) div 16 ^ 7 = v div 16 ^ k" unfolding e(1) [symmetric] by (rule div_mult_mult2) simp
  moreover have "v div 16 ^ k < 16" using assms(2) by (simp add: div_less_iff_less_mult)
  ultimately show "drop_bit 28 (of_nat (v * 16 ^ (7 - k)) :: u32) = of_nat (v div 16 ^ k)"
    using X by (simp only: word_unat_eq_iff unsigned_drop_bit_eq unsigned_of_nat)
      (simp add: take_bit_nat_eq_self drop_bit_eq_div)
  have "v = v div 16 ^ k * 16 ^ k + v mod 16 ^ k" by (rule div_mult_mod_eq [symmetric])
  then have "v * 16 ^ (8 - k) = v div 16 ^ k * (16 ^ k * 16 ^ (8 - k)) + v mod 16 ^ k * 16 ^ (8 - k)"
    by (metis distrib_right mult.assoc)
  moreover have "(16 :: nat) ^ k * 16 ^ (8 - k) = 2 ^ 32" using assms(1) by (simp flip: power_add)
  ultimately have "(of_nat (v * 16 ^ (8 - k)) :: u32) = of_nat (v div 16 ^ k) * of_nat (2 ^ 32) + of_nat (v mod 16 ^ k * 16 ^ (8 - k))"
    by (simp only: of_nat_add of_nat_mult)
  moreover have "(of_nat (2 ^ 32) :: u32) = 0" by simp
  ultimately have "(of_nat (v * 16 ^ (8 - k)) :: u32) = of_nat (v mod 16 ^ k * 16 ^ (8 - k))"
    by (simp only: mult_zero_right add_0)
  then show "push_bit 4 (of_nat (v * 16 ^ (7 - k)) :: u32) = of_nat (v mod 16 ^ k * 16 ^ (8 - k))"
    by (simp add: push_bit_eq_mult e(3) ac_simps)
qed

lemma hex_loop_spec:
  assumes "k \<le> 8" "v < 16 ^ k"
  shows "\<exists>w. (uint2hex_step tab ^^ k) (n, of_nat (v * 16 ^ (8 - k)), s) =
    (let ds = shown n (digits 16 k v) in (n + length ds, w, put s n (map ((!) tab) ds)))"
  using assms
proof (induction k arbitrary: v n s)
  case 0
  then show ?case by (simp add: shown_def)
next
  case (Suc k)
  define c where "c = v div 16 ^ k"
  have "c < 16" using Suc.prems(2) by (simp add: c_def div_less_iff_less_mult)
  then have u: "unat (of_nat c :: u32) = c" "(of_nat c :: u32) = 0 \<longleftrightarrow> c = 0"
    by (simp_all add: unsigned_of_nat take_bit_nat_eq_self word_unat_eq_iff)
  have st: "uint2hex_step tab (n, of_nat (v * 16 ^ (7 - k)), s) =
      (if c \<noteq> 0 \<or> n \<noteq> 0 then (n + 1, of_nat (v mod 16 ^ k * 16 ^ (8 - k)), s(n := tab ! c))
       else (n, of_nat (v mod 16 ^ k * 16 ^ (8 - k)), s))"
    using hex_next [of k v] Suc.prems u by (simp only: uint2hex_step_def prod.case Let_def flip: c_def)
  note IH = Suc.IH [of "v mod 16 ^ k"]
  have sh: "shown (n + 1) ds = ds" for ds by (simp add: shown_def)
  have k: "8 - Suc k = 7 - k" "k \<le> 8" "v mod 16 ^ k < 16 ^ k" using Suc.prems by simp_all
  show ?case
  proof (cases "c = 0 \<and> n = 0")
    case True
    then show ?thesis
      using IH [OF k(2,3), of n s] st unfolding k(1) funpow_Suc_right comp_apply by (auto simp: shown_def simp flip: c_def)
  next
    case False
    then have "shown n (digits 16 (Suc k) v) = c # digits 16 k (v mod 16 ^ k)" by (auto simp: shown_def c_def)
    moreover obtain w where "(uint2hex_step tab ^^ k) (n + 1, of_nat (v mod 16 ^ k * 16 ^ (8 - k)), s(n := tab ! c)) =
        (n + 1 + length (digits 16 k (v mod 16 ^ k)), w, put (s(n := tab ! c)) (n + 1) (map ((!) tab) (digits 16 k (v mod 16 ^ k))))"
      using IH [OF k(2,3), of "n + 1" "s(n := tab ! c)"] sh by (simp only: Let_def) blast
    ultimately show ?thesis
      using False st unfolding k(1) funpow_Suc_right comp_apply Let_def by (auto simp: put_Cons simp del: of_nat_mult digits.simps)
  qed
qed

lemma uint2hex_with_eq:
  assumes "tab ! 0 = 48"
  shows "\<exists>ds. is_numeral 16 (unat val) ds \<and> uint2hex_with tab val s = (length ds, put s 0 (map ((!) tab) ds @ [0]))"
proof (cases "val = 0")
  case True
  then show ?thesis
    using assms by (intro exI [of _ "[0]"]) (auto simp: uint2hex_with_def is_numeral_def digits_value_def put_def fun_eq_iff nth_Cons')
next
  case False
  let ?ds = "dropWhile ((=) 0) (digits 16 8 (unat val))"
  have "unat val < 2 ^ LENGTH(32)" by (rule unsigned_less)
  then have v: "unat val < 16 ^ 8" "0 < unat val" using False by (simp_all add: unat_gt_0)
  then have "\<exists>w. (uint2hex_step tab ^^ 8) (0, val, s) = (length ?ds, w, put s 0 (map ((!) tab) ?ds))"
    using hex_loop_spec [of 8 "unat val" tab 0 s] by (simp add: shown_def Let_def)
  then have "uint2hex_with tab val s = (length ?ds, put s 0 (map ((!) tab) ?ds @ [0]))"
    using False put_snoc [of s 0 "map ((!) tab) ?ds" 0] by (auto simp: uint2hex_with_def)
  moreover have "is_numeral 16 (unat val) ?ds" using v by (intro numeral_digits) simp_all
  ultimately show ?thesis by blast
qed

section \<open>Square roots are exact\<close>

definition is_sqrt :: "nat \<Rightarrow> nat \<Rightarrow> bool" where
  "is_sqrt P s \<longleftrightarrow> s * s \<le> P \<and> P < (s + 1) * (s + 1)"

text \<open>Bringing down the next two bits of the radicand.\<close>
lemma is_sqrt_step:
  assumes "is_sqrt P s" "d < 4"
  defines "r \<equiv> 4 * (P - s * s) + d"
  shows "4 * s + 1 \<le> r \<Longrightarrow> is_sqrt (4 * P + d) (2 * s + 1) \<and> r - (4 * s + 1) = 4 * P + d - (2 * s + 1) * (2 * s + 1)"
    and "\<not> 4 * s + 1 \<le> r \<Longrightarrow> is_sqrt (4 * P + d) (2 * s) \<and> r = 4 * P + d - 2 * s * (2 * s)"
    and "r \<le> 8 * s + 3"
proof -
  obtain q where q: "P = s * s + q" "q \<le> 2 * s"
    using assms(1) by (auto simp: is_sqrt_def dest!: le_Suc_ex)
  have r: "r = 4 * q + d" by (simp add: r_def q)
  show "4 * s + 1 \<le> r \<Longrightarrow> is_sqrt (4 * P + d) (2 * s + 1) \<and> r - (4 * s + 1) = 4 * P + d - (2 * s + 1) * (2 * s + 1)"
    using q assms(2) unfolding r is_sqrt_def by (auto simp: algebra_simps)
  show "\<not> 4 * s + 1 \<le> r \<Longrightarrow> is_sqrt (4 * P + d) (2 * s) \<and> r = 4 * P + d - 2 * s * (2 * s)"
    using q assms(2) unfolding r is_sqrt_def by (auto simp: algebra_simps)
  show "r \<le> 8 * s + 3" using q assms(2) by (simp add: r)
qed

lemma is_sqrt_bound: "is_sqrt P s \<Longrightarrow> P < 4 ^ k \<Longrightarrow> s < 2 ^ k"
proof (rule ccontr)
  assume "is_sqrt P s" "P < 4 ^ k" "\<not> s < 2 ^ k"
  then have "2 ^ k * 2 ^ k \<le> s * s" by (intro mult_le_mono) simp_all
  also have "s * s < 4 ^ k" using \<open>is_sqrt P s\<close> \<open>P < 4 ^ k\<close> by (simp add: is_sqrt_def)
  finally show False by (simp flip: power_mult_distrib)
qed

lemma of_nat_le_word: "a < 2 ^ LENGTH('a) \<Longrightarrow> b < 2 ^ LENGTH('a) \<Longrightarrow> (of_nat a :: 'a :: len word) \<le> of_nat b \<longleftrightarrow> a \<le> b"
  by (simp add: word_le_nat_alt unsigned_of_nat take_bit_nat_eq_self)

lemma pow_4: "(4 :: nat) ^ n = 2 ^ (2 * n)"
  by (simp add: power_mult)

lemma next_bits_32:
  fixes x :: u32
  assumes "i < 16"
  shows "drop_bit 30 (push_bit (2 * i) x) = of_nat (unat x div 4 ^ (15 - i) mod 4)"
proof -
  have "30 - 2 * i = 2 * (15 - i)" by simp
  moreover have "take_bit 32 (unat x) = unat x" using unsigned_less [of x] by (intro take_bit_nat_eq_self) simp
  ultimately have "unat (take_bit 2 (drop_bit (30 - 2 * i) x)) = unat x div 4 ^ (15 - i) mod 4"
    by (simp only: unsigned_take_bit_eq unsigned_drop_bit_eq) (simp add: take_bit_eq_mod drop_bit_eq_div pow_4)
  moreover have "drop_bit 30 (push_bit (2 * i) x) = take_bit 2 (drop_bit (30 - 2 * i) x)"
    using assms by (intro bit_word_eqI) (auto simp: bit_simps)
  ultimately show ?thesis by (metis unsigned_0 of_nat_unat ucast_id)
qed

lemma next_bits_64:
  fixes x :: u64
  assumes "i < 32"
  shows "drop_bit 62 (push_bit (2 * i) x) = of_nat (unat x div 4 ^ (31 - i) mod 4)"
proof -
  have "62 - 2 * i = 2 * (31 - i)" by simp
  moreover have "take_bit 64 (unat x) = unat x" using unsigned_less [of x] by (intro take_bit_nat_eq_self) simp
  ultimately have "unat (take_bit 2 (drop_bit (62 - 2 * i) x)) = unat x div 4 ^ (31 - i) mod 4"
    by (simp only: unsigned_take_bit_eq unsigned_drop_bit_eq) (simp add: take_bit_eq_mod drop_bit_eq_div pow_4)
  moreover have "drop_bit 62 (push_bit (2 * i) x) = take_bit 2 (drop_bit (62 - 2 * i) x)"
    using assms by (intro bit_word_eqI) (auto simp: bit_simps)
  ultimately show ?thesis by (metis unsigned_0 of_nat_unat ucast_id)
qed

lemma bring_down: "X div 4 ^ (n - i) = 4 * (X div 4 ^ (n + 1 - i)) + X div 4 ^ (n - i) mod (4 :: nat)" if "i \<le> n"
proof -
  have "n + 1 - i = Suc (n - i)" using that by simp
  then have "X div 4 ^ (n + 1 - i) = X div 4 ^ (n - i) div 4" by (simp only: power_Suc2 div_mult2_eq)
  then show ?thesis by simp
qed

lemma top_digits: "X < 4 ^ n \<Longrightarrow> i \<le> n \<Longrightarrow> X div 4 ^ (n - i) < (4 :: nat) ^ i"
  by (simp add: div_less_iff_less_mult flip: power_add)

lemma shift_mult: "push_bit 1 (of_nat n :: 'a :: len word) = 2 * of_nat n" "push_bit 2 (of_nat n :: 'a :: len word) = 4 * of_nat n"
  by (simp_all add: push_bit_eq_mult mult.commute)

text \<open>The comparison and the subtraction on words, as long as nothing wraps around.\<close>
lemma sqrt_words:
  fixes P s d :: nat
  assumes "is_sqrt P s" "d < 4" "4 * s + 1 < 2 ^ LENGTH('a)" "8 * s + 4 < 2 ^ LENGTH('b)"
  defines "root \<equiv> of_nat (4 * s + 1) :: 'a :: len word" and "rem \<equiv> of_nat (4 * (P - s * s) + d) :: 'b :: len word"
  shows "\<exists>s'. (if ucast root \<le> rem then (root + 1, rem - ucast root) else (root - 1, rem)) = (of_nat (2 * s'), of_nat (4 * P + d - s' * s'))
    \<and> is_sqrt (4 * P + d) s'"
proof -
  let ?r = "4 * (P - s * s) + d"
  note st = is_sqrt_step [OF assms(1,2)]
  have u: "ucast root = (of_nat (4 * s + 1) :: 'b word)"
    unfolding root_def using assms(3) by (simp only: unsigned_of_nat) (simp add: take_bit_nat_eq_self)
  have cmp: "ucast root \<le> rem \<longleftrightarrow> 4 * s + 1 \<le> ?r"
    unfolding u rem_def using assms(4) st(3) by (intro of_nat_le_word) simp_all
  show ?thesis
  proof (cases "4 * s + 1 \<le> ?r")
    case True
    note t = st(1) [OF True]
    have "rem - ucast root = of_nat (?r - (4 * s + 1))" unfolding u rem_def using True by (simp only: of_nat_diff)
    moreover have "root + 1 = of_nat (2 * (2 * s + 1))" by (simp add: root_def)
    ultimately show ?thesis
      using t cmp True by (intro exI [of _ "2 * s + 1"]) (simp only: if_True)
  next
    case False
    then show ?thesis
      using st(2) [OF False] cmp by (intro exI [of _ "2 * s"]) (simp add: root_def rem_def)
  qed
qed

lemma u32sqrt_loop:
  fixes x :: u32
  assumes "i \<le> 16"
  shows "\<exists>s. (u32sqrt_step ^^ i) (0, 0, x) = (of_nat (2 * s), of_nat (unat x div 4 ^ (16 - i) - s * s), push_bit (2 * i) x)
    \<and> is_sqrt (unat x div 4 ^ (16 - i)) s"
  using assms
proof (induction i)
  case 0
  have "unat x < 2 ^ LENGTH(32)" by (rule unsigned_less)
  then have "unat x div 4 ^ 16 = 0" by simp
  then show ?case by (intro exI [of _ 0]) (simp add: is_sqrt_def)
next
  case (Suc i)
  define P d where "P = unat x div 4 ^ (16 - i)" and "d = unat x div 4 ^ (15 - i) mod 4"
  obtain s where s: "(u32sqrt_step ^^ i) (0, 0, x) = (of_nat (2 * s), of_nat (P - s * s), push_bit (2 * i) x)" "is_sqrt P s"
    using Suc by (auto simp: P_def)
  have P': "unat x div 4 ^ (16 - Suc i) = 4 * P + d" using bring_down [of i 15 "unat x"] Suc.prems by (simp add: P_def d_def)
  have "unat x < 2 ^ LENGTH(32)" by (rule unsigned_less)
  then have "P < 4 ^ i" using top_digits [of "unat x" 16 i] Suc.prems by (simp add: P_def)
  also have "4 ^ i \<le> (4 :: nat) ^ 15" using Suc.prems by (intro power_increasing) simp_all
  finally have b: "s < 2 ^ 15" using is_sqrt_bound s(2) by blast
  have e: "push_bit 1 (of_nat (2 * s)) + 1 = (of_nat (4 * s + 1) :: u32)" "push_bit 2 (push_bit (2 * i) x) = push_bit (2 * Suc i) x"
    "push_bit 2 (of_nat (P - s * s)) + drop_bit 30 (push_bit (2 * i) x) = (of_nat (4 * (P - s * s) + d) :: u32)"
    using next_bits_32 [of i x] Suc.prems by (simp_all add: shift_mult push_bit_push_bit d_def add.commute)
  have "d < 4" by (simp add: d_def)
  moreover have L: "4 * s + 1 < 2 ^ LENGTH(32)" "8 * s + 4 < 2 ^ LENGTH(32)" using b by simp_all
  ultimately obtain s' where s': "(if (of_nat (4 * s + 1) :: u32) \<le> of_nat (4 * (P - s * s) + d)
      then (of_nat (4 * s + 1) + 1, of_nat (4 * (P - s * s) + d) - of_nat (4 * s + 1))
      else (of_nat (4 * s + 1) - 1, of_nat (4 * (P - s * s) + d))) = (of_nat (2 * s') :: u32, of_nat (4 * P + d - s' * s') :: u32)"
    (is "?if = _") and "is_sqrt (4 * P + d) s'"
    using sqrt_words [where 'a = 32 and 'b = 32, OF s(2) _ L, unfolded ucast_id] by blast
  moreover have "u32sqrt_step (of_nat (2 * s), of_nat (P - s * s), push_bit (2 * i) x) = (fst ?if, snd ?if, push_bit (2 * Suc i) x)"
    unfolding u32sqrt_step_def prod.case Let_def e by simp
  ultimately show ?case
    unfolding P' by (intro exI [of _ s']) (simp only: funpow.simps comp_apply s(1) s' fst_conv snd_conv)
qed

lemma u64sqrt_loop:
  fixes x :: u64
  assumes "i \<le> 32" "x < 2 ^ 62"
  shows "\<exists>s. (u64sqrt_step ^^ i) (0, 0, x) = (of_nat (2 * s), of_nat (unat x div 4 ^ (32 - i) - s * s), push_bit (2 * i) x)
    \<and> is_sqrt (unat x div 4 ^ (32 - i)) s"
  using assms(1)
proof (induction i)
  case 0
  have "unat x < 2 ^ 62" using assms(2) by (simp add: word_less_nat_alt)
  then have "unat x div 4 ^ 32 = 0" by simp
  then show ?case by (intro exI [of _ 0]) (simp add: is_sqrt_def)
next
  case (Suc i)
  define P d where "P = unat x div 4 ^ (32 - i)" and "d = unat x div 4 ^ (31 - i) mod 4"
  obtain s where s: "(u64sqrt_step ^^ i) (0, 0, x) = (of_nat (2 * s), of_nat (P - s * s), push_bit (2 * i) x)" "is_sqrt P s"
    using Suc by (auto simp: P_def)
  have P': "unat x div 4 ^ (32 - Suc i) = 4 * P + d" using bring_down [of i 31 "unat x"] Suc.prems by (simp add: P_def d_def)
  have x: "unat x < 4 ^ 31" using assms(2) by (simp add: word_less_nat_alt)
  have "P < 4 ^ 30"
  proof (cases i)
    case 0
    then show ?thesis using x by (simp add: P_def div_less_iff_less_mult)
  next
    case (Suc j)
    then have "P < 4 ^ j" using top_digits [OF x, of j] Suc.prems \<open>Suc i \<le> 32\<close> by (simp add: P_def)
    also have "4 ^ j \<le> (4 :: nat) ^ 30" using Suc \<open>Suc i \<le> 32\<close> by (intro power_increasing) simp_all
    finally show ?thesis .
  qed
  then have b: "s < 2 ^ 30" using is_sqrt_bound s(2) by blast
  have e: "push_bit 1 (of_nat (2 * s)) + 1 = (of_nat (4 * s + 1) :: u32)" "push_bit 2 (push_bit (2 * i) x) = push_bit (2 * Suc i) x"
    "push_bit 2 (of_nat (P - s * s)) + drop_bit 62 (push_bit (2 * i) x) = (of_nat (4 * (P - s * s) + d) :: u64)"
    using next_bits_64 [of i x] Suc.prems by (simp_all add: shift_mult push_bit_push_bit d_def add.commute)
  have "d < 4" by (simp add: d_def)
  moreover have L: "4 * s + 1 < 2 ^ LENGTH(32)" "8 * s + 4 < 2 ^ LENGTH(64)" using b by simp_all
  ultimately obtain s' where s': "(if ucast (of_nat (4 * s + 1) :: u32) \<le> (of_nat (4 * (P - s * s) + d) :: u64)
      then (of_nat (4 * s + 1) + 1, of_nat (4 * (P - s * s) + d) - ucast (of_nat (4 * s + 1) :: u32))
      else (of_nat (4 * s + 1) - 1, of_nat (4 * (P - s * s) + d))) = (of_nat (2 * s') :: u32, of_nat (4 * P + d - s' * s') :: u64)"
    (is "?if = _") and "is_sqrt (4 * P + d) s'"
    using sqrt_words [where 'a = 32 and 'b = 64, OF s(2) _ L] by blast
  moreover have "u64sqrt_step (of_nat (2 * s), of_nat (P - s * s), push_bit (2 * i) x) = (fst ?if, snd ?if, push_bit (2 * Suc i) x)"
    unfolding u64sqrt_step_def prod.case Let_def e by simp
  ultimately show ?case
    unfolding P' by (intro exI [of _ s']) (simp only: funpow.simps comp_apply s(1) s' fst_conv snd_conv)
qed

lemma half_root: "2 * s < 2 ^ 32 \<Longrightarrow> unat (drop_bit 1 (of_nat (2 * s) :: u32)) = s"
  by (simp only: unsigned_drop_bit_eq unsigned_of_nat) (simp add: take_bit_nat_eq_self drop_bit_eq_div)

text \<open>
  C40. The square roots are exact: \<open>u32sqrt\<close> returns the largest number whose square is at most
  its argument, for every argument, and so does \<open>u64sqrt\<close> for arguments below \<open>2 ^ 62\<close>. At \<open>2 ^ 62\<close> the
  root no longer fits in the 32 bits in which twice its value is kept, and the result is 0.
\<close>
theorem sqrt_exact:
  "is_sqrt (unat x) (unat (u32sqrt x)) \<and> (y < 2 ^ 62 \<longrightarrow> is_sqrt (unat y) (unat (u64sqrt y))) \<and> u64sqrt (2 ^ 62) = 0"
proof (intro conjI impI)
  obtain s where s: "(u32sqrt_step ^^ 16) (0, 0, x) = (of_nat (2 * s), of_nat (unat x - s * s), push_bit 32 x)" "is_sqrt (unat x) s"
    using u32sqrt_loop [of 16 x] by auto
  have "unat x < 2 ^ LENGTH(32)" by (rule unsigned_less)
  then have "s < 2 ^ 16" using is_sqrt_bound [OF s(2), of 16] by simp
  then show "is_sqrt (unat x) (unat (u32sqrt x))" using s half_root [of s] by (simp add: u32sqrt_def del: of_nat_mult)
next
  assume y: "y < 2 ^ 62"
  obtain s where s: "(u64sqrt_step ^^ 32) (0, 0, y) = (of_nat (2 * s), of_nat (unat y - s * s), push_bit 64 y)" "is_sqrt (unat y) s"
    using u64sqrt_loop [of 32 y] y by auto
  have "unat y < 4 ^ 31" using y by (simp add: word_less_nat_alt)
  then have "s < 2 ^ 31" using is_sqrt_bound [OF s(2)] by blast
  then show "is_sqrt (unat y) (unat (u64sqrt y))" using s half_root [of s] by (simp add: u64sqrt_def del: of_nat_mult)
next
  show "u64sqrt (2 ^ 62) = 0" by code_simp
qed

theorem sqrt_exact_witness: "is_sqrt 1000000 (unat (u64sqrt 1000000))"
  using sqrt_exact [of 0 1000000] by simp

end
