(* ===== verification/Cstring.thy ===== *)
theory Cstring
  imports Util
begin

text \<open>
  String and memory functions of \<open>src/sdk/libc\<close>. Memory is a function from addresses to bytes, and a character is
  an unsigned byte. A scan for the end of a string does not end when
  there is none, so such routines are partial, with values in the option type.
\<close>

type_synonym memory = "nat \<Rightarrow> u8"

section \<open>Length and copies\<close>

partial_function (option) strlen_loop :: "memory \<Rightarrow> nat \<Rightarrow> nat \<Rightarrow> nat option" where
  "strlen_loop m cp n = (if m cp \<noteq> 0 then strlen_loop m (cp + 1) (n + 1) else Some n)"

definition strlen :: "memory \<Rightarrow> nat \<Rightarrow> nat option" where
  "strlen m s = (if s = 0 then Some 0 else strlen_loop m s 0)"

text \<open>\<open>while ((*cp++ = *src++));\<close>\<close>
partial_function (option) copy_loop :: "memory \<Rightarrow> nat \<Rightarrow> nat \<Rightarrow> memory option" where
  "copy_loop m cp src =
     (let c = m src; m = m(cp := c) in if c \<noteq> 0 then copy_loop m (cp + 1) (src + 1) else Some m)"

definition strcpy :: "memory \<Rightarrow> nat \<Rightarrow> nat \<Rightarrow> (nat \<times> memory) option" where
  "strcpy m dst src = map_option (Pair dst) (copy_loop m dst src)"

definition strcat :: "memory \<Rightarrow> nat \<Rightarrow> nat \<Rightarrow> (nat \<times> memory) option" where
  "strcat m dst src =
     (case strlen_loop m dst 0 of None \<Rightarrow> None | Some n \<Rightarrow> map_option (Pair dst) (copy_loop m (dst + n) src))"

text \<open>The loop of \<open>strlcpy\<close> with \<open>n\<close> at least one: the memory, the two pointers, and what is left.\<close>
fun lcpy_loop :: "nat \<Rightarrow> memory \<Rightarrow> nat \<Rightarrow> nat \<Rightarrow> memory \<times> nat \<times> nat \<times> nat" where
  "lcpy_loop 0 m d s = (m, d, s, 0)"
| "lcpy_loop (Suc n) m d s =
     (let c = m s; m = m(d := c) in
      if c = 0 then (m, d + 1, s + 1, Suc n) else lcpy_loop n m (d + 1) (s + 1))"

definition strlcpy :: "memory \<Rightarrow> nat \<Rightarrow> nat \<Rightarrow> nat \<Rightarrow> (nat \<times> memory) option" where
  "strlcpy m dst src sz =
     (case (if sz \<noteq> 0 then lcpy_loop (sz - 1) m dst src else (m, dst, src, 0)) of (m, d, s, n) \<Rightarrow>
        if n = 0
        then let m = (if sz \<noteq> 0 then m(d := 0) else m) in
          (case strlen_loop m s 0 of None \<Rightarrow> None | Some k \<Rightarrow> Some (s + k + 1 - src - 1, m))
        else Some (s - src - 1, m))"

text \<open>Both loops of \<open>memmove\<close>; the function returns the pointer it has moved.\<close>
fun move_down :: "nat \<Rightarrow> memory \<Rightarrow> nat \<Rightarrow> nat \<Rightarrow> nat \<times> memory" where
  "move_down 0 m dst src = (dst, m)"
| "move_down (Suc n) m dst src = move_down n (m(dst - 1 := m (src - 1))) (dst - 1) (src - 1)"

fun move_up :: "nat \<Rightarrow> memory \<Rightarrow> nat \<Rightarrow> nat \<Rightarrow> nat \<times> memory" where
  "move_up 0 m dst src = (dst, m)"
| "move_up (Suc n) m dst src = move_up n (m(dst := m src)) (dst + 1) (src + 1)"

definition memmove :: "memory \<Rightarrow> nat \<Rightarrow> nat \<Rightarrow> nat \<Rightarrow> nat \<times> memory" where
  "memmove m dst src n =
     (if src < dst \<and> dst < src + n then move_down n m (dst + n) (src + n) else move_up n m dst src)"

text \<open>\<open>memcpy\<close> copies words while it can, when both pointers are aligned.\<close>
definition copy_word :: "nat \<Rightarrow> memory \<Rightarrow> nat \<Rightarrow> nat \<Rightarrow> memory" where
  "copy_word w m dst src = (\<lambda>a. if dst \<le> a \<and> a < dst + w then m (src + (a - dst)) else m a)"

fun copy_words :: "nat \<Rightarrow> memory \<Rightarrow> nat \<Rightarrow> nat \<Rightarrow> memory" where
  "copy_words n m dst src =
     (if 4 \<le> n then copy_words (n - 4) (copy_word 4 m dst src) (dst + 4) (src + 4) else snd (move_up n m dst src))"

declare copy_words.simps [simp del]

definition memcpy :: "memory \<Rightarrow> nat \<Rightarrow> nat \<Rightarrow> nat \<Rightarrow> nat \<times> memory" where
  "memcpy m dst src n =
     (let align = (src OR dst) AND 3 in
      (dst,
       if align = 0 then copy_words n m dst src
       else if align = 2 \<and> 2 \<le> n then snd (move_up (n - 2) (copy_word 2 m dst src) (dst + 2) (src + 2))
       else snd (move_up n m dst src)))"

section \<open>Comparison\<close>

partial_function (option) strcmp :: "memory \<Rightarrow> nat \<Rightarrow> nat \<Rightarrow> int option" where
  "strcmp m s1 s2 =
     (let c1 = uint (m s1); c2 = c1 - uint (m s2) in
      if c2 \<noteq> 0 then Some c2 else if c1 \<noteq> 0 then strcmp m (s1 + 1) (s2 + 1) else Some 0)"

fun memcmp :: "memory \<Rightarrow> nat \<Rightarrow> nat \<Rightarrow> nat \<Rightarrow> int" where
  "memcmp m s1 s2 0 = 0"
| "memcmp m s1 s2 (Suc n) =
     (if m s1 \<noteq> m s2 then uint (m s1) - uint (m s2) else memcmp m (s1 + 1) (s2 + 1) n)"

section \<open>Numbers\<close>

partial_function (option) skip_blanks :: "memory \<Rightarrow> nat \<Rightarrow> nat option" where
  "skip_blanks m cp = (if m cp = 32 then skip_blanks m (cp + 1) else Some cp)"

partial_function (option) dec_scan :: "memory \<Rightarrow> nat \<Rightarrow> u32 \<Rightarrow> (u32 \<times> nat) option" where
  "dec_scan m cp val =
     (let c = m cp in
      if c = 0 \<or> c < 48 \<or> 57 < c then Some (val, cp)
      else let val = push_bit 1 (push_bit 2 val + val)
           in dec_scan m (cp + 1) (val + ucast (c - 48)))"

partial_function (option) hex_scan :: "memory \<Rightarrow> nat \<Rightarrow> u32 \<Rightarrow> (u32 \<times> nat) option" where
  "hex_scan m cp val =
     (let c = m cp in
      if c = 0 then Some (val, cp)
      else
        let c = (if 97 \<le> c then c AND NOT 32 else c) in
        if 65 \<le> c \<and> c \<le> 70 then hex_scan m (cp + 1) (push_bit 4 val + ucast (c - 55))
        else if 48 \<le> c \<and> c \<le> 57 then hex_scan m (cp + 1) (push_bit 4 val + ucast (c - 48))
        else Some (val, cp))"

text \<open>
  The loop for octal numbers stands in front of the first label of the switch and is
  never reached: for every base but 10 and 16 nothing is read.
\<close>
definition strtoul :: "memory \<Rightarrow> nat \<Rightarrow> int \<Rightarrow> (u32 \<times> nat) option" where
  "strtoul m s base =
     (case skip_blanks m s of
        None \<Rightarrow> None
      | Some cp \<Rightarrow>
          let c = m cp;
              (base, cp) =
                (if (base = 0 \<or> base = 16) \<and> c = 48
                 then let cp = cp + 1 in if m cp AND NOT 32 = 88 then (16, cp + 1) else (base, cp)
                 else (base, cp));
              base = (if base = 0 then (if c = 48 then 8 else 10) else base)
          in if base = 10 then dec_scan m cp 0
             else if base = 16 then hex_scan m cp 0
             else Some (0, cp))"

text \<open>
  The sign is applied in two's complement, also to the value whose negation the C standard leaves
  undefined (the least number).
\<close>
definition strtol :: "memory \<Rightarrow> nat \<Rightarrow> int \<Rightarrow> (u32 \<times> nat) option" where
  "strtol m s base =
     (case skip_blanks m s of
        None \<Rightarrow> None
      | Some cp \<Rightarrow>
          if m cp = 45 then map_option (\<lambda>(val, e). (- val, e)) (strtoul m (cp + 1) base)
          else strtoul m cp base)"

definition atoi :: "memory \<Rightarrow> nat \<Rightarrow> u32 option" where
  "atoi m s = map_option fst (strtol m s 10)"

section \<open>Bits\<close>

definition ffs_debruijn_index :: "u32 list" where
  "ffs_debruijn_index = [1, 2, 29, 3, 30, 15, 25, 4, 31, 23, 21, 16, 26, 18, 5, 9,
     32, 28, 14, 24, 22, 20, 17, 8, 27, 13, 19, 7, 12, 6, 11, 10]"

definition ffs :: "u32 \<Rightarrow> u32" where
  "ffs i = (if i \<noteq> 0 then ffs_debruijn_index ! unat (drop_bit 27 ((i AND - i) * 0x077cb531)) else 0)"

section \<open>Copies\<close>

text \<open>What a copy of \<open>n\<close> bytes leaves in memory.\<close>
definition copied :: "memory \<Rightarrow> nat \<Rightarrow> nat \<Rightarrow> nat \<Rightarrow> memory" where
  "copied m dst src n = (\<lambda>a. if dst \<le> a \<and> a < dst + n then m (src + (a - dst)) else m a)"

lemma copied_0 [simp]: "copied m dst src 0 = m"
  by (auto simp: copied_def fun_eq_iff)

lemma copied_add:
  assumes "\<not> (src < dst \<and> dst < src + (k + n))"
  shows "copied (copied m dst src k) (dst + k) (src + k) n = copied m dst src (k + n)"
  using assms by (auto simp: copied_def fun_eq_iff)

lemma copied_Suc:
  assumes "\<not> (src < dst \<and> dst < src + Suc n)"
  shows "copied (copied m dst src 1) (Suc dst) (Suc src) n = copied m dst src (Suc n)"
  using copied_add [of src dst 1 n m] assms by (simp only: plus_1_eq_Suc add_Suc_right add_0_right One_nat_def simp_thms) simp

lemma copied_one: "m(dst := m src) = copied m dst src 1"
  by (auto simp: copied_def fun_eq_iff)

lemma move_up_eq:
  assumes "\<not> (src < dst \<and> dst < src + n)"
  shows "move_up n m dst src = (dst + n, copied m dst src n)"
  using assms
proof (induction n arbitrary: m dst src)
  case (Suc n)
  then have "\<not> (src + 1 < dst + 1 \<and> dst + 1 < src + 1 + n)" by auto
  from Suc.IH [OF this] have "move_up (Suc n) m dst src = (dst + 1 + n, copied (copied m dst src 1) (dst + 1) (src + 1) n)"
    by (simp add: copied_one)
  then show ?case using copied_add [of src dst 1 n m] Suc.prems by simp
qed simp

lemma move_down_eq:
  assumes "src < dst"
  shows "move_down n m (dst + n) (src + n) = (dst, copied m dst src n)"
proof (induction n arbitrary: m)
  case (Suc n)
  have "copied (m(dst + n := m (src + n))) dst src n = copied m dst src (Suc n)"
    using assms by (auto simp: copied_def fun_eq_iff)
  then have "move_down n (m(dst + n := m (src + n))) (dst + n) (src + n) = (dst, copied m dst src (Suc n))"
    by (simp only: Suc.IH)
  then show ?case by (simp only: move_down.simps add_Suc_right diff_Suc_1)
qed simp

lemma memmove_eq: "memmove m dst src n = (if src < dst \<and> dst < src + n then dst else dst + n, copied m dst src n)"
  by (simp add: memmove_def move_up_eq move_down_eq)

lemma copy_word_eq: "copy_word w m dst src = copied m dst src w"
  by (simp add: copy_word_def copied_def)

lemma copy_words_eq:
  assumes "\<not> (src < dst \<and> dst < src + n)"
  shows "copy_words n m dst src = copied m dst src n"
  using assms
proof (induction n m dst src rule: copy_words.induct)
  case (1 n m dst src)
  show ?case
  proof (cases "4 \<le> n")
    case True
    then have "\<not> (src + 4 < dst + 4 \<and> dst + 4 < src + 4 + (n - 4))" using 1(2) by auto
    from 1(1) [OF True this] True have "copy_words n m dst src = copied (copied m dst src 4) (dst + 4) (src + 4) (n - 4)"
      by (subst copy_words.simps) (simp add: copy_word_eq)
    then show ?thesis using copied_add [of src dst 4 "n - 4" m] 1(2) True by simp
  next
    case False
    then show ?thesis using 1(2) by (subst copy_words.simps) (simp add: move_up_eq)
  qed
qed

lemma memcpy_eq:
  assumes "\<not> (src < dst \<and> dst < src + n)"
  shows "memcpy m dst src n = (dst, copied m dst src n)"
proof -
  have "snd (move_up (n - 2) (copy_word 2 m dst src) (dst + 2) (src + 2)) = copied m dst src n" if "2 \<le> n"
  proof -
    have "\<not> (src + 2 < dst + 2 \<and> dst + 2 < src + 2 + (n - 2))" using assms by auto
    note move_up_eq [OF this, of "copied m dst src 2"]
    moreover have "2 + (n - 2) = n" using that by simp
    ultimately show ?thesis using copied_add [of src dst 2 "n - 2" m] assms by (simp only: copy_word_eq snd_conv simp_thms)
  qed
  then show ?thesis using assms by (simp add: memcpy_def Let_def copy_words_eq move_up_eq)
qed

section \<open>Strings\<close>

text \<open>The string at \<open>p\<close> is \<open>n\<close> characters long.\<close>
definition str_len :: "memory \<Rightarrow> nat \<Rightarrow> nat \<Rightarrow> bool" where
  "str_len m p n \<longleftrightarrow> m (p + n) = 0 \<and> (\<forall>i<n. m (p + i) \<noteq> 0)"

lemma str_len_0 [simp]: "str_len m p 0 \<longleftrightarrow> m p = 0"
  by (simp add: str_len_def)

lemma str_len_Suc [simp]: "str_len m p (Suc n) \<longleftrightarrow> m p \<noteq> 0 \<and> str_len m (Suc p) n"
  by (auto simp: str_len_def All_less_Suc2)

lemma strlen_loop_eq: "str_len m p n \<Longrightarrow> strlen_loop m p k = Some (k + n)"
proof (induction n arbitrary: p k)
  case 0
  then show ?case by (subst strlen_loop.simps) simp
next
  case (Suc n)
  then show ?case by (subst strlen_loop.simps) simp
qed

lemma str_len_copied:
  assumes "str_len m src (Suc n)" "\<not> (src < dst \<and> dst \<le> src + Suc n)"
  shows "str_len (copied m dst src 1) (Suc src) n"
proof -
  have "copied m dst src 1 (Suc src + i) = m (Suc src + i)" if "i \<le> n" for i
    using assms(2) that by (auto simp: copied_def)
  then show ?thesis using assms(1) by (simp add: str_len_def All_less_Suc2)
qed

lemma copy_loop_eq:
  assumes "str_len m src n" "\<not> (src < dst \<and> dst \<le> src + n)"
  shows "copy_loop m dst src = Some (copied m dst src (Suc n))"
  using assms
proof (induction n arbitrary: m dst src)
  case 0
  then show ?case using copied_one [of m dst src] by (subst copy_loop.simps) (simp add: Let_def)
next
  case (Suc n)
  have s: "str_len (copied m dst src 1) (Suc src) n"
    using Suc.prems by (rule str_len_copied)
  have d: "\<not> (Suc src < Suc dst \<and> Suc dst \<le> Suc src + n)" using Suc.prems(2) by auto
  have "copy_loop m dst src = copy_loop (copied m dst src 1) (Suc dst) (Suc src)"
    using Suc.prems(1) copied_one [of m dst src] by (subst copy_loop.simps) (simp add: Let_def)
  also have "\<dots> = Some (copied (copied m dst src 1) (Suc dst) (Suc src) (Suc n))" by (rule Suc.IH [OF s d])
  also have "\<dots> = Some (copied m dst src (Suc (Suc n)))"
    using copied_Suc [of src dst "Suc n" m] Suc.prems(2) by (simp only: less_Suc_eq_le add_Suc_right simp_thms)
  finally show ?case .
qed

lemma lcpy_loop_eq:
  assumes "str_len m src L" "\<not> (src < dst \<and> dst \<le> src + L)"
  shows "lcpy_loop n m dst src =
    (if L < n then (copied m dst src (Suc L), dst + L + 1, src + L + 1, n - L) else (copied m dst src n, dst + n, src + n, 0))"
  using assms
proof (induction n arbitrary: m dst src L)
  case (Suc n)
  have c: "m(dst := m src) = copied m dst src 1" by (rule copied_one)
  show ?case
  proof (cases L)
    case 0
    then show ?thesis using Suc.prems c by simp
  next
    case (Suc k)
    have s: "str_len (copied m dst src 1) (Suc src) k"
      using Suc.prems unfolding Suc by (rule str_len_copied)
    have d: "\<not> (Suc src < Suc dst \<and> Suc dst \<le> Suc src + k)" using Suc.prems(2) Suc by auto
    have "copied (copied m dst src 1) (Suc dst) (Suc src) j = copied m dst src (Suc j)" if "j \<le> Suc k" for j
      using Suc.prems(2) Suc that by (intro copied_Suc) auto
    then show ?thesis using Suc.IH [OF s d] Suc.prems(1) Suc c by simp
  qed
qed simp

lemma copied_end:
  assumes "m (src + L) = 0" "\<not> (src < dst \<and> dst \<le> src + L)"
  shows "copied m dst src (Suc L) = (copied m dst src L)(dst + L := 0)"
proof
  fix a
  have "a = dst + L" if "dst \<le> a" "a < dst + Suc L" "\<not> a < dst + L" using that by simp
  then show "copied m dst src (Suc L) a = ((copied m dst src L)(dst + L := 0)) a"
    using assms(1) by (auto simp: copied_def)
qed

lemma str_len_cong: "str_len m p n \<Longrightarrow> \<forall>i\<le>n. m' (p + i) = m (p + i) \<Longrightarrow> str_len m' p n"
  by (simp add: str_len_def)

lemma str_len_drop:
  assumes "str_len m src L" "n \<le> L"
  shows "str_len m (src + n) (L - n)"
  using assms by (auto simp: str_len_def add.assoc)

lemma strlcpy_eq:
  assumes "str_len m src L" "dst < src \<or> src + L < dst"
  shows "strlcpy m dst src sz =
    Some (L, if sz = 0 then m else (copied m dst src (min L (sz - 1)))(dst + min L (sz - 1) := 0))"
proof (cases "sz = 0")
  case True
  then show ?thesis using strlen_loop_eq [OF assms(1), of 0] by (simp add: strlcpy_def)
next
  case False
  have d: "\<not> (src < dst \<and> dst \<le> src + L)" using assms(2) by auto
  note loop = lcpy_loop_eq [OF assms(1) d, of "sz - 1"]
  show ?thesis
  proof (cases "L < sz - 1")
    case True
    have "m (src + L) = 0" using assms(1) by (simp add: str_len_def)
    from copied_end [of m src L dst, OF this d] have "copied m dst src (Suc L) = (copied m dst src L)(dst + L := 0)" .
    moreover have "\<not> sz \<le> Suc L" "sz \<noteq> 0" using True by simp_all
    ultimately show ?thesis using loop True by (simp add: strlcpy_def min_def)
  next
    case n: False
    define m' where "m' = (copied m dst src (sz - 1))(dst + (sz - 1) := 0)"
    have "\<forall>i\<le>L - (sz - 1). m' (src + (sz - 1) + i) = m (src + (sz - 1) + i)"
      using assms(2) n by (auto simp: m'_def copied_def)
    moreover have "str_len m (src + (sz - 1)) (L - (sz - 1))"
      using str_len_drop [OF assms(1), of "sz - 1"] n by simp
    ultimately have "str_len m' (src + (sz - 1)) (L - (sz - 1))" using str_len_cong by blast
    from strlen_loop_eq [OF this, of 0]
    have "strlen_loop m' (src + (sz - 1)) 0 = Some (L - (sz - 1))" by simp
    then show ?thesis using loop False n by (simp add: strlcpy_def min_def m'_def Let_def)
  qed
qed

lemma strcat_eq:
  assumes "str_len m dst K" "str_len m src L" "dst + K < src \<or> src + L < dst + K"
  shows "strcat m dst src = Some (dst, copied m (dst + K) src (Suc L))"
proof -
  have "\<not> (src < dst + K \<and> dst + K \<le> src + L)" using assms(3) by auto
  from copy_loop_eq [OF assms(2) this] strlen_loop_eq [OF assms(1), of 0] show ?thesis
    by (simp add: strcat_def)
qed


text \<open>\<open>strcmp\<close> returns on strings, and zero for equal ones only.\<close>
lemma strcmp_eq:
  assumes "str_len m s1 n" "str_len m s2 k"
  shows "\<exists>r. strcmp m s1 s2 = Some r \<and> (r = 0 \<longleftrightarrow> n = k \<and> (\<forall>i<n. m (s1 + i) = m (s2 + i)))"
  using assms
proof (induction n arbitrary: s1 s2 k)
  case 0
  then show ?case by (subst strcmp.simps) (cases k; auto simp: Let_def word_uint_eq_iff)
next
  case (Suc n)
  show ?case
  proof (cases "m s1 = m s2")
    case True
    then obtain j where j: "k = Suc j" "str_len m (Suc s2) j" using Suc.prems by (cases k) auto
    have "uint (m s1) \<noteq> 0" using Suc.prems(1) by (simp add: word_uint_eq_iff)
    then have "strcmp m s1 s2 = strcmp m (Suc s1) (Suc s2)"
      using True by (subst strcmp.simps) (simp add: Let_def)
    then show ?thesis using Suc.IH [of "Suc s1" "Suc s2" j] Suc.prems j True by (simp add: All_less_Suc2)
  next
    case False
    then show ?thesis by (subst strcmp.simps) (auto simp: Let_def word_uint_eq_iff)
  qed
qed

section \<open>Comparison and bits\<close>

lemma memcmp_eq_0: "memcmp m s1 s2 n = 0 \<longleftrightarrow> (\<forall>i<n. m (s1 + i) = m (s2 + i))"
  by (induction n arbitrary: s1 s2) (auto simp: All_less_Suc2 word_uint_eq_iff)

lemma debruijn_powers:
  "\<forall>k\<in>set [0..<32]. ffs_debruijn_index ! unat (drop_bit 27 (2 ^ k * 0x077cb531 :: u32)) = of_nat k + 1"
  by code_simp

lemma lowest_bit_odd:
  fixes j :: u32
  assumes "odd j"
  shows "j AND - j = 1"
proof (rule bit_word_eqI)
  fix n
  have "- j = NOT (j - 1)" by (simp add: minus_eq_not_minus_1)
  moreover have "bit (j - 1) (Suc i) = bit j (Suc i)" for i
    using even_bit_succ_iff [of "j - 1" "Suc i"] assms by simp
  ultimately show "bit (j AND - j) n = bit (1 :: u32) n" if "n < LENGTH(32)"
    using assms that by (cases n) (auto simp: bit_and_iff bit_not_iff bit_0 bit_1_iff even_and_iff even_not_iff)
qed

lemma lowest_bit:
  fixes i :: u32
  assumes "bit i k" "\<forall>n<k. \<not> bit i n"
  shows "i AND - i = 2 ^ k"
proof -
  define j where "j = drop_bit k i"
  have i: "i = push_bit k j"
  proof (rule bit_word_eqI)
    show "bit i n = bit (push_bit k j) n" if "n < LENGTH(32)" for n
      using assms(2) that by (cases "k \<le> n") (auto simp: j_def bit_push_bit_iff bit_drop_bit_eq)
  qed
  have "odd j" using assms(1) by (simp add: j_def bit_iff_odd_drop_bit)
  have "i AND - i = push_bit k (j AND - j)"
    unfolding i by (simp add: push_bit_and) (simp add: push_bit_eq_mult)
  then show ?thesis by (simp add: lowest_bit_odd [OF \<open>odd j\<close>] push_bit_eq_mult)
qed

text \<open>\<open>ffs\<close> is one more than the position of the least significant bit.\<close>
lemma ffs_lowest:
  assumes "bit i k" "\<forall>n<k. \<not> bit i n"
  shows "ffs i = of_nat k + 1"
proof -
  have "k < 32" using bit_imp_le_length [OF assms(1)] by simp
  moreover have "i \<noteq> 0" using assms(1) by auto
  ultimately show ?thesis using debruijn_powers by (simp add: ffs_def lowest_bit [OF assms])
qed

section \<open>Reading back what was printed\<close>

definition holds :: "memory \<Rightarrow> nat \<Rightarrow> u8 list \<Rightarrow> bool" where
  "holds m p xs \<longleftrightarrow> (\<forall>i<length xs. m (p + i) = xs ! i)"

lemma holds_Cons [simp]: "holds m p (x # xs) \<longleftrightarrow> m p = x \<and> holds m (Suc p) xs"
  unfolding holds_def by (simp add: All_less_Suc2)

lemma holds_put: "holds (put s p xs) p xs"
  by (simp add: holds_def put_def)

lemma dec_char_range:
  "\<forall>d\<in>set [0..<10]. dec_char d \<noteq> 0 \<and> \<not> dec_char d < 48 \<and> \<not> 57 < dec_char d \<and> (ucast (dec_char d - 48) :: u32) = of_nat d \<and> dec_char d \<noteq> 32 \<and> dec_char d \<noteq> 45 \<and> (dec_char d = 48 \<longleftrightarrow> d = 0)"
  by code_simp

lemma dec_scan_digits:
  assumes "holds m p (map dec_char ds @ [0])" "\<forall>d\<in>set ds. d < 10"
  shows "dec_scan m p (of_nat a) = Some (of_nat (foldl (\<lambda>a d. 10 * a + d) a ds), p + length ds)"
  using assms
proof (induction ds arbitrary: p a)
  case Nil
  then show ?case by (subst dec_scan.simps) simp
next
  case (Cons d ds)
  have "d < 10" using Cons.prems(2) by simp
  then have c: "m p \<noteq> 0" "\<not> m p < 48" "\<not> 57 < m p" "(ucast (m p - 48) :: u32) = of_nat d"
    using dec_char_range Cons.prems(1) by simp_all
  have "push_bit 1 (push_bit 2 (of_nat a) + of_nat a) + of_nat d = (of_nat (10 * a + d) :: u32)"
    by (simp add: push_bit_eq_mult)
  then show ?case
    using Cons.IH [of "Suc p" "10 * a + d"] Cons.prems c by (subst dec_scan.simps) (simp add: Let_def del: of_nat_add of_nat_mult)
qed

lemma hex_chars:
  "\<forall>d\<in>set [0..<16]. \<forall>c\<in>{hextab ! d, hexuptab ! d}. c \<noteq> 0 \<and> c \<noteq> 32 \<and> (c = 48 \<longleftrightarrow> d = 0) \<and>
     (let k = (if 97 \<le> c then c AND NOT 32 else c) in
      if 65 \<le> k \<and> k \<le> 70 then (ucast (k - 55) :: u32) = of_nat d else 48 \<le> k \<and> k \<le> 57 \<and> (ucast (k - 48) :: u32) = of_nat d)"
  by code_simp

lemma hex_scan_digits:
  assumes "holds m p (map ((!) tab) ds @ [0])" "\<forall>d\<in>set ds. d < 16" "tab = hextab \<or> tab = hexuptab"
  shows "hex_scan m p (of_nat a) = Some (of_nat (foldl (\<lambda>a d. 16 * a + d) a ds), p + length ds)"
  using assms(1,2)
proof (induction ds arbitrary: p a)
  case Nil
  then show ?case by (subst hex_scan.simps) simp
next
  case (Cons d ds)
  have "d \<in> set [0..<16]" using Cons.prems(2) by simp
  moreover have "m p \<in> {hextab ! d, hexuptab ! d}" using Cons.prems(1) assms(3) by auto
  ultimately have h: "m p \<noteq> 0 \<and> m p \<noteq> 32 \<and> (m p = 48 \<longleftrightarrow> d = 0) \<and>
     (let k = (if 97 \<le> m p then m p AND NOT 32 else m p) in
      if 65 \<le> k \<and> k \<le> 70 then (ucast (k - 55) :: u32) = of_nat d else 48 \<le> k \<and> k \<le> 57 \<and> (ucast (k - 48) :: u32) = of_nat d)"
    using hex_chars by blast
  define k where "k = (if 97 \<le> m p then m p AND NOT 32 else m p)"
  have k: "m p \<noteq> 0" "if 65 \<le> k \<and> k \<le> 70 then (ucast (k - 55) :: u32) = of_nat d else 48 \<le> k \<and> k \<le> 57 \<and> (ucast (k - 48) :: u32) = of_nat d"
    using h unfolding Let_def k_def [symmetric] by blast+
  have IH: "hex_scan m (p + 1) (push_bit 4 (of_nat a) + of_nat d) = Some (of_nat (foldl (\<lambda>a d. 16 * a + d) (16 * a + d) ds), Suc p + length ds)"
    using Cons.IH [of "Suc p" "16 * a + d"] Cons.prems by (simp add: push_bit_eq_mult mult.commute)
  have "hex_scan m p (of_nat a) = hex_scan m (p + 1) (push_bit 4 (of_nat a) + of_nat d)"
    using k by (subst hex_scan.simps) (simp only: Let_def k_def [symmetric] simp_thms split: if_splits)
  then show ?case using IH by simp
qed

lemma skip_none: "m p \<noteq> 32 \<Longrightarrow> skip_blanks m p = Some p"
  by (subst skip_blanks.simps) simp

lemma numeral_cases:
  assumes "is_numeral b n ds"
  obtains "ds = [0]" "n = 0" | d es where "ds = d # es" "d \<noteq> 0"
  using assms by (cases ds) (auto simp: is_numeral_def digits_value_def)

lemma strtoul_dec:
  assumes "holds m p (map dec_char ds @ [0])" "is_numeral 10 (unat v) ds" "base = 10 \<or> base = 0"
  shows "strtoul m p base = Some (v, p + length ds)"
proof -
  have ds: "\<forall>d\<in>set ds. d < 10" "of_nat (foldl (\<lambda>a d. 10 * a + d) 0 ds) = v"
    using assms(2) by (simp_all add: is_numeral_def digits_value_def)
  have scan: "dec_scan m p 0 = Some (v, p + length ds)"
    using dec_scan_digits [OF assms(1) ds(1), of 0] ds(2) by simp
  show ?thesis
    using assms(2)
  proof (cases rule: numeral_cases)
    case 1
    then have "m p = 48" "m (p + 1) = 0" "v = 0" using assms(1) by (simp_all add: dec_char_def word_unat_eq_iff)
    then show ?thesis using scan assms(3) 1 by (auto simp: strtoul_def skip_none)
  next
    case (2 d es)
    then have "d < 10" "m p = dec_char d" using ds(1) assms(1) by simp_all
    then have "m p \<noteq> 32" "m p \<noteq> 48" using dec_char_range 2 by simp_all
    then show ?thesis using scan assms(3) by (auto simp: strtoul_def skip_none)
  qed
qed

lemma hex_char_facts:
  assumes "d < 16" "tab = hextab \<or> tab = hexuptab"
  shows "tab ! d \<noteq> 32" "tab ! d = 48 \<longleftrightarrow> d = 0"
proof -
  have "d \<in> set [0..<16]" "tab ! d \<in> {hextab ! d, hexuptab ! d}" using assms by auto
  then show "tab ! d \<noteq> 32" "tab ! d = 48 \<longleftrightarrow> d = 0" using hex_chars by blast+
qed

lemma strtoul_hex:
  assumes "holds m p (map ((!) tab) ds @ [0])" "is_numeral 16 (unat v) ds" "tab = hextab \<or> tab = hexuptab"
  shows "strtoul m p 16 = Some (v, p + length ds)"
proof -
  have ds: "\<forall>d\<in>set ds. d < 16" "of_nat (foldl (\<lambda>a d. 16 * a + d) 0 ds) = v"
    using assms(2) by (simp_all add: is_numeral_def digits_value_def)
  have scan: "hex_scan m p 0 = Some (v, p + length ds)"
    using hex_scan_digits [OF assms(1) ds(1) assms(3), of 0] ds(2) by simp
  show ?thesis
    using assms(2)
  proof (cases rule: numeral_cases)
    case 1
    then have "m p = 48" "m (p + 1) = 0" "v = 0"
      using assms(1) hex_char_facts [of 0, OF _ assms(3)] by (simp_all add: word_unat_eq_iff)
    moreover from this have "hex_scan m (p + 1) 0 = Some (0, p + 1)" by (subst hex_scan.simps) simp
    ultimately show ?thesis using 1 by (simp add: strtoul_def skip_none)
  next
    case (2 d es)
    then have "d < 16" "m p = tab ! d" using ds(1) assms(1) by simp_all
    then have "m p \<noteq> 32" "m p \<noteq> 48" using hex_char_facts [of d, OF _ assms(3)] 2 by simp_all
    then show ?thesis using scan by (simp add: strtoul_def skip_none)
  qed
qed

lemma atoi_unsigned:
  assumes "holds m p (map dec_char ds @ [0])" "is_numeral 10 (unat v) ds"
  shows "atoi m p = Some v"
proof -
  obtain d es where d: "ds = d # es" using assms(2) by (rule numeral_cases)
  then have "d < 10" "m p = dec_char d" using assms by (simp_all add: is_numeral_def)
  then have "m p \<noteq> 32" "m p \<noteq> 45" using dec_char_range by simp_all
  then show ?thesis using strtoul_dec [OF assms] by (simp add: atoi_def strtol_def skip_none)
qed

lemma atoi_negative:
  assumes "m p = 45" "holds m (p + 1) (map dec_char ds @ [0])" "is_numeral 10 (unat v) ds"
  shows "atoi m p = Some (- v)"
  using strtoul_dec [OF assms(2,3)] assms(1) by (simp add: atoi_def strtol_def skip_none)

lemma atoi_int2dec: "atoi (snd (int2dec v s)) 0 = Some v"
proof (cases "sint v < 0")
  case True
  obtain ds where ds: "is_numeral 10 (unat (- v)) ds"
    "uint2dec (- v) (\<lambda>k. s (k + 1)) = (length ds, put (\<lambda>k. s (k + 1)) 0 (map dec_char ds @ [0]))"
    using uint2dec_eq by blast
  let ?t = "snd (int2dec v s)"
  have "?t 0 = 45" "holds ?t (0 + 1) (map dec_char ds @ [0])"
    using True holds_put [of "\<lambda>k. s (k + 1)" 0 "map dec_char ds @ [0]"] ds(2)
    by (simp_all add: int2dec_def zero_char holds_def)
  from atoi_negative [OF this ds(1)] show ?thesis by simp
next
  case False
  obtain ds where "is_numeral 10 (unat v) ds" "uint2dec v s = (length ds, put s 0 (map dec_char ds @ [0]))"
    using uint2dec_eq by blast
  then show ?thesis using False atoi_unsigned [OF holds_put] by (simp add: int2dec_def)
qed

section \<open>Properties\<close>

text \<open>
  C38. Numbers survive printing and reading. \<open>uint2dec\<close>, \<open>uint2hex\<close> and \<open>uint2hexup\<close> return the number of
  characters they wrote, which are the digits of the number without leading zeros followed by a
  zero byte, and touch nothing else; \<open>strtoul\<close> reads the same number back from them and stops at that zero byte.
  \<open>atoi\<close> reads back every 32-bit signed number \<open>int2dec\<close> prints, the least one included,
  with the sign applied in two's complement.
\<close>
theorem print_parse:
  "(let (n, t) = uint2dec v s in
      (\<exists>ds. is_numeral 10 (unat v) ds \<and> n = length ds \<and> t = put s 0 (map dec_char ds @ [0])) \<and>
      strtoul t 0 10 = Some (v, n) \<and> strtoul t 0 0 = Some (v, n)) \<and>
   (let (n, t) = uint2hex v s in
      (\<exists>ds. is_numeral 16 (unat v) ds \<and> n = length ds \<and> t = put s 0 (map ((!) hextab) ds @ [0])) \<and>
      strtoul t 0 16 = Some (v, n)) \<and>
   (let (n, t) = uint2hexup v s in
      (\<exists>ds. is_numeral 16 (unat v) ds \<and> n = length ds \<and> t = put s 0 (map ((!) hexuptab) ds @ [0])) \<and>
      strtoul t 0 16 = Some (v, n)) \<and>
   atoi (snd (int2dec v s)) 0 = Some v"
proof (intro conjI)
  obtain ds where "is_numeral 10 (unat v) ds" "uint2dec v s = (length ds, put s 0 (map dec_char ds @ [0]))"
    using uint2dec_eq by blast
  then show "let (n, t) = uint2dec v s in
      (\<exists>ds. is_numeral 10 (unat v) ds \<and> n = length ds \<and> t = put s 0 (map dec_char ds @ [0])) \<and>
      strtoul t 0 10 = Some (v, n) \<and> strtoul t 0 0 = Some (v, n)"
    using strtoul_dec [OF holds_put] by auto
  have hex: "let (n, t) = uint2hex_with tab v s in
      (\<exists>ds. is_numeral 16 (unat v) ds \<and> n = length ds \<and> t = put s 0 (map ((!) tab) ds @ [0])) \<and>
      strtoul t 0 16 = Some (v, n)" if tab: "tab = hextab \<or> tab = hexuptab" for tab
  proof -
    have "tab ! 0 = 48" using hex_char_facts [of 0, OF _ tab] by simp
    from uint2hex_with_eq [OF this, of v s] obtain ds where
      "is_numeral 16 (unat v) ds" "uint2hex_with tab v s = (length ds, put s 0 (map ((!) tab) ds @ [0]))" by blast
    then show ?thesis using strtoul_hex [OF holds_put _ tab] by auto
  qed
  show "let (n, t) = uint2hex v s in
      (\<exists>ds. is_numeral 16 (unat v) ds \<and> n = length ds \<and> t = put s 0 (map ((!) hextab) ds @ [0])) \<and>
      strtoul t 0 16 = Some (v, n)" using hex [of hextab] by (simp add: uint2hex_def)
  show "let (n, t) = uint2hexup v s in
      (\<exists>ds. is_numeral 16 (unat v) ds \<and> n = length ds \<and> t = put s 0 (map ((!) hexuptab) ds @ [0])) \<and>
      strtoul t 0 16 = Some (v, n)" using hex [of hexuptab] by (simp add: uint2hexup_def)
  show "atoi (snd (int2dec v s)) 0 = Some v" by (rule atoi_int2dec)
qed

text \<open>
  C39. The copy functions copy. \<open>memmove\<close> is right for every overlap of the two regions, and \<open>memcpy\<close>, by words, by
  half-words and by bytes, whenever the destination does not start inside the source. On strings that do not overlap,
  \<open>strcpy\<close> and \<open>strcat\<close> end and copy up to the final zero byte, the latter to the end of the destination; \<open>strlcpy\<close>
  ends, returns the length of the source, writes at most \<open>size\<close> bytes and always terminates what it wrote. No byte
  outside the destination changes.
\<close>
theorem copy_functions:
  "snd (memmove m dst src n) = copied m dst src n
   \<and> (dst \<le> src \<or> src + n \<le> dst \<longrightarrow> memcpy m dst src n = (dst, copied m dst src n))
   \<and> (str_len m src L \<longrightarrow> dst < src \<or> src + L < dst \<longrightarrow>
        strcpy m dst src = Some (dst, copied m dst src (Suc L))
        \<and> strlcpy m dst src n =
            Some (L, if n = 0 then m else (copied m dst src (min L (n - 1)))(dst + min L (n - 1) := 0)))
   \<and> (str_len m src L \<longrightarrow> str_len m dst K \<longrightarrow> dst + K < src \<or> src + L < dst + K \<longrightarrow>
        strcat m dst src = Some (dst, copied m (dst + K) src (Suc L)))"
proof (intro conjI impI)
  show "snd (memmove m dst src n) = copied m dst src n" by (simp add: memmove_eq)
  show "memcpy m dst src n = (dst, copied m dst src n)" if "dst \<le> src \<or> src + n \<le> dst"
    using that by (intro memcpy_eq) auto
  show "strcpy m dst src = Some (dst, copied m dst src (Suc L))" if "str_len m src L" "dst < src \<or> src + L < dst"
  proof -
    have "\<not> (src < dst \<and> dst \<le> src + L)" using that(2) by auto
    from copy_loop_eq [OF that(1) this] show ?thesis by (simp add: strcpy_def)
  qed
qed (rule strlcpy_eq strcat_eq; assumption)+

text \<open>The string of two characters at address 4.\<close>
definition string_example :: memory where
  "string_example = (\<lambda>_. 0)(4 := 65, 5 := 66)"

theorem copy_functions_witness:
  "snd (memmove string_example 5 4 2) 6 = 66
   \<and> snd (memcpy string_example 8 4 3) 9 = 66
   \<and> strlcpy string_example 8 4 2 = Some (2, string_example(8 := 65, 9 := 0))
   \<and> strcpy string_example 8 4 = Some (8, string_example(8 := 65, 9 := 66, 10 := 0))
   \<and> strcat string_example 4 8 = Some (4, string_example)"
proof -
  have "str_len string_example 4 (Suc (Suc 0))" by (simp add: string_example_def)
  then have s: "str_len string_example 4 2" "str_len string_example 8 0"
    by (simp_all only: Suc_1 One_nat_def [symmetric]) (simp add: string_example_def)
  have c: "copied string_example 8 4 (Suc 2) = string_example(8 := 65, 9 := 66, 10 := 0)"
    "(copied string_example 8 4 1)(9 := 0) = string_example(8 := 65, 9 := 0)"
    "copied string_example 6 8 (Suc 0) = string_example"
    "copied string_example 5 4 2 6 = 66" "copied string_example 8 4 3 9 = 66"
    by (auto simp: copied_def string_example_def fun_eq_iff)
  show ?thesis
    using copy_functions [of string_example 5 4 2 0 0] copy_functions [of string_example 8 4 3 0 0]
      copy_functions [of string_example 8 4 2 2 0] copy_functions [of string_example 4 8 0 0 2] s c
    by (simp add: min_def)
qed

end
