(* ===== verification/Spec2Isabelle.thy ===== *)
theory Spec2Isabelle
  imports Objects System Crc Util Cstring
begin

text \<open>
  A verification library for the ThinkOS kernel (\<open>src/sdk/libthinkos\<close>), a
  small real time operating system for Cortex-M processors. Threads ask for kernel services with the
  supervisor call instruction; device interrupts preempt the services and signal objects; the tick
  and the scheduler run at the lowest exception priorities. The whole state of the kernel is one
  block of words, \<open>thinkos_rt\<close>: a wait queue is a word with a bit per thread, an
  object is a handle that is also the number of its wait queue, and the thread that waits is found by
  counting zeros. What makes the code hard is that the services update the queues while
  interrupts update them too, with exclusive loads and stores and with roll back instead of locks.

  \<^bold>\<open>The model.\<close> Every service is a function from the address of its arguments, the
  calling thread and the state to the new state. The state is the record \<open>thinkos_rt\<close> of
  theory \<open>Kernel\<close>, with the fields of \<open>struct thinkos_rt\<close> that the configuration
  has, the memory, the processor registers the kernel touches and the interrupt controller. Words are
  words of their width, and their arithmetic wraps around as in the code. A store the code makes
  outside of its tables (an unchecked event number above 31, entry \<open>-1\<close> of a table, a null context pointer) sets the flag
  \<open>wild\<close>. What it hits depends on the memory layout: from then on the fields of the model say
  nothing about the code, \<open>System\<close> takes no further step, and the properties of reachable states exclude such states.

  The interrupts that run during a waiting
  service are an argument of it: one list per point of the protocol at which an
  interrupt makes a difference (record \<open>irqs\<close>: before the suspension, after it, around the exclusive load and store, after the
  store, and, for calls with timeout, between arming the clock and storing the return value). A loop that retries after a
  lost exclusive store takes one
  element of a list of such arguments per round; when the list is used up the remaining rounds are
  without interrupts. That a round without interrupts is the last one is proved with the contract of the
  waiting objects. The loops of the console service are partial functions with values in the option type; writing
  zero bytes never returns, draining is shown to return. A request to reset the system does not return either (\<open>ctl_svc\<close>).

  \<^bold>\<open>Theories and sources.\<close>
  \<^item> \<open>Prelude\<close>: words of 32 bits as sets of bits, \<open>clz\<close>, \<open>rbit\<close>, bit band writes
    (\<open>include/arch/cortex-m3.h\<close>), retry loops.
  \<^item> \<open>Kernel\<close>: the state, the queue primitives and signals of
    \<open>include/thinkos/kernel.h\<close>, the layout of the queues.
  \<^item> \<open>Isr\<close>: what device interrupts call (\<open>__thinkos_sem_post_i\<close> and the others), and the
    default handler of \<open>thinkos_irq.c\<close>.
  \<^item> \<open>Wait\<close>: the wait protocol shared by semaphores, flags, event sets and gates: a locale with
    the contract of a waitable object, proved once, and interpreted by each of the
    four; a rely relation that every interrupt satisfies.
  \<^item> \<open>Alloc\<close>: the bitmap allocator (\<open>misc/bmp_alloc.c\<close>), its contract as a locale, interpreted for
    the bitmaps of the kernel.
  \<^item> \<open>Semaphore\<close>, \<open>Flag\<close>, \<open>Event\<close>, \<open>Gate\<close>, \<open>Mutex\<close>, \<open>Cond\<close>: the object services
    (\<open>thinkos_semaphore.c\<close> to \<open>thinkos_cond.c\<close>); after a call no thread waits for an object that could
    serve it, the caller is ready or waits in the right queues, mutexes refine an abstract lock. The calls with timeout
    can report a timeout for a signal they took; that race is a property of \<open>Semaphore\<close>.
  \<^item> \<open>Objects\<close>: the type tables (\<open>misc/thinkos_type.c\<close>) and \<open>thinkos_break.c\<close>.
  \<^item> \<open>Sched\<close>: context switch, tick, time sharing, sleep (\<open>thinkos_core.c\<close>, \<open>thinkos_sleep.c\<close>).
  \<^item> \<open>Pause\<close>: \<open>thinkos_pause.c\<close>; pausing and resuming is transparent, and a paused thread stays paused.
  \<^item> \<open>Thread\<close>: creation and end of threads (\<open>thinkos_thread.c\<close>, \<open>thinkos_exit.c\<close>,
    \<open>thinkos_join.c\<close>, \<open>thinkos_cancel.c\<close>, \<open>misc\<close>).
  \<^item> \<open>Irq\<close>: waiting for device interrupts (\<open>thinkos_irq.c\<close>).
  \<^item> \<open>Console_Pipe\<close>, \<open>Console\<close>: the two byte pipes as bounded queues, and the console service
    (\<open>thinkos_console.c\<close>).
  \<^item> \<open>Init\<close>, \<open>Ctl\<close>, \<open>Dbgmon\<close>, \<open>Svc\<close>: start and idle thread (\<open>thinkos_init.c\<close>,
    \<open>thinkos_idle.c\<close>), the control service, the debug monitor (\<open>thinkos_dbgmon.c\<close>) and the
    dispatch of the system calls (\<open>thinkos_svc.c\<close>).
  \<^item> \<open>Invariant\<close>: the invariant \<open>kinv\<close> of the whole state, and that each of the 65 services, each
    interrupt, the tick, the context switch and the monitor operations keep it. Its rules
    (collection \<open>kinv_intros\<close>) follow the text of a handler.
  \<^item> \<open>System\<close>: the kernel as a transition system, from \<open>thinkos_init\<close> through all of these
    steps, and what holds in all reachable states. The properties of this theory
    are about that system.
  \<^item> \<open>Crc\<close>: the check sums of \<open>src/sdk/libcrc\<close>. Every implementation of a width equals
    the shift register that takes one bit at a time, because all of them are linear over XOR.
  \<^item> \<open>Util\<close>: byte order, square roots, logarithm and the printing of numbers of
    \<open>src/sdk/libutil\<close>. The roots are exact, the digits are those of the number.
  \<^item> \<open>Cstring\<close>: copies, comparison and the reading of numbers of \<open>src/sdk/libc\<close>.
    The copies are right for the overlaps they allow, and numbers are read back as they were printed. Routines
    that search the end of a string are partial functions, shown to return on strings.

  \<^bold>\<open>Configuration.\<close> The defaults of \<open>kernel.h\<close> (8 threads; 8 mutexes, condition variables,
  semaphores, flags and gates; 4 event sets; 80 interrupt lines), with the scheduler in C, the
  monitor, the console, timed interrupt waits and interrupt control switched on. Profiling,
  the communication object, the FPU, the MPU, breakpoints, watchpoints, stepping and fault
  unrolling are off. Code for options that are off is not modelled. The error trap is off, so \<open>__THINKOS_ERROR\<close> is empty
  and the checks that only report through it do nothing.

  \<^bold>\<open>Assumptions.\<close> A service without exclusive accesses is one step with respect to interrupts
  (mutexes and condition variables are not signaled by interrupts, so only the common queues
  matter for them). So are the signaling services \<open>sem_post\<close>, \<open>flag_give\<close>, \<open>ev_raise\<close>, \<open>ev_mask\<close>, \<open>gate_open\<close>
  and \<open>gate_exit\<close>: their exclusive accesses start over when an interrupt comes between the load and the store, so
  the round that counts is undisturbed, but an interrupt between that store and the end of the service
  is taken to come after it. For \<open>gate_open\<close> this hides a race, which theory \<open>Gate\<close> shows
  with the interrupt made explicit (\<open>gate_open_i_at\<close>). Interrupt
  handlers raise events 0 to 31 and name existing objects (\<open>isr_ok\<close>). Threads do not write to the run time block. The function addresses and stacks of the linked
  image are a parameter (record \<open>image\<close>), as are the clock rates of the board (record
  \<open>sysenv\<close>) and the interrupt priority limit (record \<open>platform\<close>).

  \<^bold>\<open>Not modelled.\<close> The API stubs and the exception entry code are assembly. The
  fault handlers (\<open>thinkos_except.c\<close>) unwind processor state in assembly and print;
  only what they leave in the kernel is modelled (\<open>exception_reset\<close>, \<open>exception_dsr\<close>). Of the libraries, floating point,
  64-bit printing, formatted input and output and allocation are left out. The
  terminal tasks of the monitor (\<open>libthinkos/dbgmon\<close>), the drivers, the protocol stacks, the boards and the
  boot loaders use the kernel through its services and are not part of it.
\<close>

section \<open>Start\<close>

lemma bitset_word_used: "word_used n w = bitset w \<inter> {..<n}"
  by (auto simp: word_used_def)

lemma boot_alloc:
  assumes "k < 32"
  shows "alloc_lo (bmp_init1 8) k = (if k < 8 then Some (k, bit_mem_wr (bmp_init1 8) k True) else None)"
proof (cases "k < 8")
  case True
  then show ?thesis using alloc_lo_spec(2) [OF assms, of "bmp_init1 8" k] by (simp add: bmp_init1_bits)
next
  case False
  then show ?thesis using alloc_lo_spec(1) [OF assms, of "bmp_init1 8"] by (simp add: bmp_init1_bits)
qed

lemma alloc_lo_range: "32 \<le> k \<Longrightarrow> alloc_lo b k = None"
  by (simp add: alloc_lo_def Let_def)

text \<open>
  C2. \<open>thinkos_init\<close> makes its caller the main thread, with the number asked for, or 1: the
  thread is running, it and the idle thread are the only ready threads, it is the
  only thread in use, and no object is in use. A number past the last thread gives an error.
\<close>
theorem init_starts_main:
  "case thinkos_init im opt sp rt of (n, rt') \<Rightarrow>
     if opt_id opt \<le> THINKOS_THREADS_MAX
     then n = int (max 1 (opt_id opt)) \<and> active rt' = opt_id opt - 1
       \<and> bitset (wq_ready rt') = {opt_id opt - 1, THINKOS_THREAD_IDLE} \<and> word_used THINKOS_THREADS_MAX (th_alloc rt') = {opt_id opt - 1}
       \<and> word_used THINKOS_MUTEX_MAX (mutex_alloc rt') = {} \<and> word_used THINKOS_COND_MAX (cond_alloc rt') = {}
       \<and> word_used THINKOS_SEMAPHORE_MAX (sem_alloc rt') = {} \<and> word_used THINKOS_EVENT_MAX (ev_alloc rt') = {}
       \<and> word_used THINKOS_FLAG_MAX (flag_alloc rt') = {} \<and> word_used THINKOS_GATE_MAX (gate_alloc rt') = {}
       \<and> psp rt' = sp \<and> \<not> primask rt'
     else n = -1"
proof -
  let ?i = "opt_id opt - 1"
  have no: "word_used 8 (bmp_init1 8) = {}" "word_used 4 (bmp_init1 4) = {}"
    by (auto simp: word_used_def bmp_init1_bits)
  have one: "word_used 8 (bit_mem_wr (bmp_init1 8) ?i True) = {?i}" if "?i < 8"
    using that by (auto simp: word_used_def bmp_init1_bits)
  have two: "bitset (push_bit ?i 1 OR push_bit 8 1 :: u32) = {?i, 8}" if "?i < 8"
    using that by (auto simp: bit_or_iff bit_push_bit_iff bit_1_iff simp del: push_bit_of_1 word_put_bit)
  have "alloc_lo (bmp_init1 8) ?i = (if ?i < 8 then Some (?i, bit_mem_wr (bmp_init1 8) ?i True) else None)"
    using boot_alloc [of ?i] alloc_lo_range [of ?i] by (cases "?i < 32") simp_all
  then show ?thesis
    using no one two
    by (auto simp: thinkos_init_eq init_main_def Let_def boot_state_fields max_def not_le)
qed

text \<open>A board; its main thread takes number 2.\<close>
definition platform_example :: platform where
  "platform_example = \<lparr>img = image_example, env = \<lparr>sysclk_hz = 8000000, udelay_factor = 1, dwt_cyccnt = 0\<rparr>, irq_lim = 0x20\<rparr>"

definition main_example :: thinkos_rt where
  "main_example = snd (thinkos_init image_example 0x02100100 0x20008000 rt_clear)"

theorem init_starts_main_witness:
  "fst (thinkos_init image_example 0x02100100 0x20008000 rt_clear) = 2 \<and> active main_example = 1"
proof -
  have "opt_id 0x02100100 = 2" by (simp add: opt_id_def)
  then show ?thesis
    using init_starts_main [where im = image_example and opt = "0x02100100" and sp = "0x20008000" and rt = rt_clear]
    by (simp add: main_example_def case_prod_beta)
qed

section \<open>Reachable states\<close>

lemma main_example_init:
  "init_main image_example 0x02100100 (boot_state image_example rt_clear) = (Some 1, r) \<Longrightarrow>
     thinkos_init image_example 0x02100100 0x20008000 rt_clear = (2, main_example)"
  by (simp add: main_example_def thinkos_init_eq)

lemma main_example_main:
  "\<exists>r. init_main image_example 0x02100100 (boot_state image_example rt_clear) = (Some 1, r) \<and> sem_alloc r = bmp_init1 8 \<and> active r = 1 \<and> \<not> wild r"
proof -
  have "alloc_lo (bmp_init1 8) 1 = Some (1, bit_mem_wr (bmp_init1 8) 1 True)" using boot_alloc [of 1] by simp
  moreover have "opt_id 0x02100100 = 2" by (simp add: opt_id_def)
  moreover have "\<not> wild rt_clear" by (simp add: rt_clear_def)
  ultimately show ?thesis by (simp add: init_main_def Let_def boot_state_fields)
qed

lemma main_example_fields: "sem_alloc main_example = bmp_init1 8" "active main_example = 1" "\<not> wild main_example"
  using main_example_main by (auto simp: main_example_def thinkos_init_eq)

lemma kreach_example: "kreach platform_example main_example"
proof (rule reach.start)
  have "thinkos_init (img platform_example) 0x02100100 0x20008000 rt_clear = (2, main_example)"
    using main_example_init main_example_main by (auto simp: platform_example_def)
  then show "kinit platform_example main_example"
    unfolding kinit_def by (metis zero_less_numeral)
qed

text \<open>
  C1. In every state the kernel reaches without having stored outside its tables the idle thread is ready, the
  numbers of the threads in every queue are in the range of the thread table (only the
  ready queue holds the idle thread), and the next context switch runs a thread that is in the ready queue. The owners of
  mutexes and the threads registered for interrupts have numbers in that range. Whether a thread with such a
  number is allocated at that moment is not part of the property.
\<close>
theorem kernel_reachable_safe:
  assumes "kreach pf rt" "\<not> wild rt"
  shows "bit (wq_ready rt) THINKOS_THREAD_IDLE
    \<and> (\<forall>w t. bit (wq_lst rt w) t \<longrightarrow> t < THINKOS_THREADS_MAX \<or> w = THINKOS_WQ_READY \<and> t = THINKOS_THREAD_IDLE)
    \<and> active (cm3_pendsv_isr rt) \<le> THINKOS_THREAD_IDLE
    \<and> bit (wq_ready rt) (active (cm3_pendsv_isr rt))
    \<and> (\<forall>m<THINKOS_MUTEX_MAX. - 1 \<le> lock rt m \<and> lock rt m < int THINKOS_THREADS_MAX)
    \<and> (\<forall>i<THINKOS_IRQ_MAX. irq_th rt i \<le> THINKOS_THREAD_IDLE)"
  using kernel.reach_inv [OF assms(1)] pendsv_target [OF kernel.reach_inv [OF assms(1)]]
  by (simp add: kinv_def wq_ok_def)

theorem kernel_reachable_safe_witness:
  "bit (wq_ready main_example) THINKOS_THREAD_IDLE \<and> active (cm3_pendsv_isr main_example) \<le> THINKOS_THREAD_IDLE"
  using kernel_reachable_safe [OF kreach_example main_example_fields(3)] by blast

text \<open>
  C3. In every state the kernel reaches without having stored outside its tables the time slice counter of every thread is between
  zero and the limit, its priority is at most the limit, and the limit is at most
  \<open>THINKOS_SCHED_LIMIT_MAX\<close>: taking the priority off the counter never wraps around.
\<close>
theorem kernel_reachable_slices:
  assumes "kreach pf rt" "\<not> wild rt"
  shows "unat (sched_limit rt) \<le> THINKOS_SCHED_LIMIT_MAX
    \<and> (\<forall>t. 0 \<le> sint (sched_val rt t) \<and> sint (sched_val rt t) \<le> uint (sched_limit rt)
        \<and> uint (sched_pri rt t) \<le> uint (sched_limit rt)
        \<and> sint (sched_val rt t - sched_pri rt t) = sint (sched_val rt t) - uint (sched_pri rt t))"
proof -
  have k: "sched_ok (sched_limit rt) (sched_pri rt) (sched_val rt)"
    using kernel.reach_inv [OF assms(1)] by (simp add: kinv_def)
  then have "uint (sched_limit rt) \<le> 32"
    unfolding sched_ok_def by (metis of_nat_le_iff of_nat_numeral of_nat_unat)
  then have "uint (sched_pri rt t) \<le> 32" for t
    using k unfolding sched_ok_def by (meson order_trans)
  moreover have "0 \<le> sint (sched_val rt t)" for t using k by (simp add: sched_ok_def)
  ultimately have "sint (sched_val rt t - sched_pri rt t) = sint (sched_val rt t) - uint (sched_pri rt t)" for t
    by (intro sched_val_sub)
  with k show ?thesis by (simp add: sched_ok_def)
qed

theorem kernel_reachable_slices_witness: "unat (sched_limit main_example) \<le> THINKOS_SCHED_LIMIT_MAX"
  using kernel_reachable_slices [OF kreach_example main_example_fields(3)] by blast

lemma alloc_word:
  assumes n: "0 < n" "n \<le> 32" and ok: "word_bmp_ok n w"
  shows "if \<forall>k<n. bit w k then bmp_alloc1 w n = (w, -9)
    else \<exists>k<n. \<not> bit w k \<and> (\<forall>m<k. bit w m) \<and> bmp_alloc1 w n = (bit_mem_wr w k True, int k)"
proof (cases "w = - 1")
  case True
  then show ?thesis using n by (simp add: bmp_alloc1_eq)
next
  case False
  then have k: "\<not> bit w (ctz (NOT w))" "\<forall>m<ctz (NOT w). bit w m"
    using ctz_not [of w "ctz (NOT w)"] ctz_less_32 [of "NOT w"] by (simp_all add: clz_rbit) (metis bit.double_compl bit.compl_zero)+
  moreover have "ctz (NOT w) < n"
    using k(1) ok False ctz_less_32 [of "NOT w"]
    by (metis bit.compl_zero bit.double_compl not_less word_bmp_ok_def)
  ultimately show ?thesis using n False by (auto simp: bmp_alloc1_eq)
qed

text \<open>The allocation service of every kind of object, its bitmap, its first handle and its number of objects.\<close>
definition obj_allocators :: "(svc_handler \<times> (thinkos_rt \<Rightarrow> u32) \<times> nat \<times> nat) list" where
  "obj_allocators =
    [(mutex_alloc_svc, mutex_alloc, THINKOS_MUTEX_BASE, THINKOS_MUTEX_MAX), (cond_alloc_svc, cond_alloc, THINKOS_COND_BASE, THINKOS_COND_MAX),
     (sem_alloc_svc, sem_alloc, THINKOS_SEM_BASE, THINKOS_SEMAPHORE_MAX), (ev_alloc_svc, ev_alloc, THINKOS_EVENT_BASE, THINKOS_EVENT_MAX),
     (flag_alloc_svc, flag_alloc, THINKOS_FLAG_BASE, THINKOS_FLAG_MAX), (gate_alloc_svc, gate_alloc, THINKOS_GATE_BASE, THINKOS_GATE_MAX)]"

lemma obj_alloc_result:
  assumes "(h, bmp, base, n) \<in> set obj_allocators" "bmp_alloc1 (bmp rt) n = (b, i)"
  shows "mem (h arg self rt) arg = (if 0 \<le> i then of_int i + of_nat base else of_int i)" "bmp (h arg self rt) = b"
  using assms
  by (auto simp: obj_allocators_def mutex_alloc_svc_def cond_alloc_svc_def sem_alloc_svc_def ev_alloc_svc_def flag_alloc_svc_def
      gate_alloc_svc_def arg_ret_def mem_st_def Let_def)

text \<open>
  C4. In every state the kernel reaches without having stored outside its tables, each allocation service returns the lowest handle of
  its kind that is not in use and marks it, or \<open>THINKOS_ENOMEM\<close> when all are in use.
\<close>
theorem kernel_reachable_alloc:
  assumes "kreach pf rt" "\<not> wild rt" "(h, bmp, base, n) \<in> set obj_allocators"
  shows "if \<forall>k<n. bit (bmp rt) k then mem (h arg self rt) arg = THINKOS_ENOMEM \<and> bmp (h arg self rt) = bmp rt
    else \<exists>k<n. \<not> bit (bmp rt) k \<and> (\<forall>m<k. bit (bmp rt) m) \<and> mem (h arg self rt) arg = of_nat (base + k)
      \<and> bmp (h arg self rt) = bit_mem_wr (bmp rt) k True"
proof -
  have "word_bmp_ok n (bmp rt)" and n: "0 < n" "n \<le> 32"
    using kernel.reach_inv [OF assms(1)] assms(3) by (auto simp: obj_allocators_def kinv_def)
  note a = alloc_word [OF n this(1)]
  show ?thesis
  proof (cases "\<forall>k<n. bit (bmp rt) k")
    case True
    then show ?thesis using a obj_alloc_result [OF assms(3), of rt "bmp rt" "-9"] by simp
  next
    case False
    obtain k where "k < n" "\<not> bit (bmp rt) k" "\<forall>m<k. bit (bmp rt) m" "bmp_alloc1 (bmp rt) n = (bit_mem_wr (bmp rt) k True, int k)"
      using a unfolding if_not_P [OF False] by blast
    with False show ?thesis
      using obj_alloc_result [OF assms(3), of rt "bit_mem_wr (bmp rt) k True" "int k"]
      by (auto intro!: exI [of _ k] simp: add.commute)
  qed
qed

theorem kernel_reachable_alloc_witness: "mem (sem_alloc_svc 0x1000 1 main_example) 0x1000 = 19"
proof -
  have "(sem_alloc_svc, sem_alloc, THINKOS_SEM_BASE, THINKOS_SEMAPHORE_MAX) \<in> set obj_allocators"
    by (simp add: obj_allocators_def)
  note a = kernel_reachable_alloc [OF kreach_example main_example_fields(3) this, of "0x1000" 1]
  have free: "k < 8 \<Longrightarrow> \<not> bit (sem_alloc main_example) k" for k by (simp add: main_example_fields bmp_init1_bits)
  then have "\<not> (\<forall>k<THINKOS_SEMAPHORE_MAX. bit (sem_alloc main_example) k)" by (intro notI) (use free [of 0] in auto)
  note a [unfolded if_not_P [OF this]]
  then obtain k where "k < 8" "\<forall>m<k. bit (sem_alloc main_example) m"
    "mem (sem_alloc_svc 0x1000 1 main_example) 0x1000 = of_nat (THINKOS_SEM_BASE + k)" by auto
  moreover from this free have "k = 0" by (metis gr0I less_trans)
  ultimately show ?thesis by simp
qed

end
